(* ===== verification/Prelude.thy ===== *)
theory Prelude
  imports Main "HOL-Library.AList" "HOL-Library.Char_ord" "HOL-Library.List_Lexorder"
    "HOL-Library.Sublist" "HOL-Library.Multiset"
begin

section \<open>Shared types, containers and lemmas\<close>

text \<open>
  What every component of the model uses.
  \<^item> Rust strings are HOL strings. A HOL \<open>char\<close> is a byte, so a string is the UTF-8 byte
    sequence and the order of \<open>List_Lexorder\<close> over \<open>Char_ord\<close> is Rust's bytewise order.
  \<^item> \<open>u64\<close>, \<open>u32\<close> and \<open>usize\<close> counters are \<open>nat\<close>. Where the source subtracts unsigned
    values, the model keeps the source's guard, or makes the failing branch explicit.
  \<^item> A \<open>HashMap\<close> is an association list with distinct keys. The position of an entry stands
    for the iteration order, which Rust leaves open: statements quantify over every such list.
  \<^item> A \<open>BTreeMap\<close> is an association list sorted by key.
  The locale \<open>finite_map\<close> is the interface both containers offer to the components: the
  loops that remove a list of keys or insert a list of entries are verified against it once.
\<close>

type_synonym u64 = nat
type_synonym u32 = nat
type_synonym usize = nat
type_synonym i32 = int
type_synonym ('k, 'v) hashmap = "('k \<times> 'v) list"
type_synonym ('k, 'v) btreemap = "('k \<times> 'v) list"

named_theorems map_simps "lookups in maps after an update"
named_theorems inv_intros "preservation of the component invariants"

subsection \<open>The map interface\<close>

locale finite_map =
  fixes lookup :: "'m \<Rightarrow> 'k \<Rightarrow> 'v option"
    and insert_kv :: "'k \<Rightarrow> 'v \<Rightarrow> 'm \<Rightarrow> 'm"
    and remove_key :: "'k \<Rightarrow> 'm \<Rightarrow> 'm"
    and invar :: "'m \<Rightarrow> bool"
  assumes lookup_insert: "invar m \<Longrightarrow> lookup (insert_kv k v m) = (lookup m)(k \<mapsto> v)"
    and lookup_remove: "invar m \<Longrightarrow> lookup (remove_key k m) = (lookup m)(k := None)"
    and invar_insert: "invar m \<Longrightarrow> invar (insert_kv k v m)"
    and invar_remove: "invar m \<Longrightarrow> invar (remove_key k m)"
begin

lemma invar_fold_remove: "invar m \<Longrightarrow> invar (fold remove_key ks m)"
  by (induction ks arbitrary: m) (simp_all add: invar_remove)

text \<open>A loop that removes every key of a list leaves the other keys as they were.\<close>

lemma lookup_fold_remove:
  "invar m \<Longrightarrow> lookup (fold remove_key ks m) k = (if k \<in> set ks then None else lookup m k)"
  by (induction ks arbitrary: m) (auto simp: invar_remove lookup_remove)

lemma invar_fold_insert: "invar m \<Longrightarrow> invar (fold (\<lambda>x. insert_kv (f x) (g x)) xs m)"
  by (induction xs arbitrary: m) (simp_all add: invar_insert)

text \<open>A loop that inserts every element of a list: the last entry for a key wins.\<close>

lemma lookup_fold_insert:
  "invar m \<Longrightarrow> lookup (fold (\<lambda>x. insert_kv (f x) (g x)) xs m) k =
     (case map_of (rev (map (\<lambda>x. (f x, g x)) xs)) k of None \<Rightarrow> lookup m k | Some v \<Rightarrow> Some v)"
proof (induction xs arbitrary: m)
  case (Cons x xs)
  have "lookup (insert_kv (f x) (g x) m) k = (if k = f x then Some (g x) else lookup m k)"
    using lookup_insert [OF Cons.prems] by simp
  then show ?case
    using Cons.IH [OF invar_insert [OF Cons.prems, of "f x" "g x"]]
    by (auto simp: map_add_def map_of_append split: option.splits)
qed simp

lemma remove_insert_cancel:
  "invar m \<Longrightarrow> lookup m k = None \<Longrightarrow> lookup (remove_key k (insert_kv k v m)) = lookup m"
  by (auto simp: lookup_insert lookup_remove invar_insert)

end

subsection \<open>Hash maps\<close>

abbreviation hm_get :: "('k, 'v) hashmap \<Rightarrow> 'k \<Rightarrow> 'v option" where
  "hm_get \<equiv> map_of"

abbreviation hm_insert :: "'k \<Rightarrow> 'v \<Rightarrow> ('k, 'v) hashmap \<Rightarrow> ('k, 'v) hashmap" where
  "hm_insert \<equiv> AList.update"

abbreviation hm_remove :: "'k \<Rightarrow> ('k, 'v) hashmap \<Rightarrow> ('k, 'v) hashmap" where
  "hm_remove \<equiv> AList.delete"

definition hm_keys :: "('k, 'v) hashmap \<Rightarrow> 'k list" where
  "hm_keys m = map fst m"

definition hm_values :: "('k, 'v) hashmap \<Rightarrow> 'v list" where
  "hm_values m = map snd m"

definition hm_contains :: "'k \<Rightarrow> ('k, 'v) hashmap \<Rightarrow> bool" where
  "hm_contains k m = (hm_get m k \<noteq> None)"

definition hm_ok :: "('k, 'v) hashmap \<Rightarrow> bool" where
  "hm_ok m = distinct (map fst m)"

text \<open>\<open>get_mut\<close> followed by an assignment through the reference.\<close>

definition hm_modify :: "'k \<Rightarrow> ('v \<Rightarrow> 'v) \<Rightarrow> ('k, 'v) hashmap \<Rightarrow> ('k, 'v) hashmap" where
  "hm_modify k f m = (case hm_get m k of None \<Rightarrow> m | Some v \<Rightarrow> hm_insert k (f v) m)"

lemma hm_get_insert [simp, map_simps]: "hm_get (hm_insert k v m) = (hm_get m)(k \<mapsto> v)"
  by (rule update_conv')

lemma hm_get_remove [simp, map_simps]: "hm_get (hm_remove k m) = (hm_get m)(k := None)"
  by (rule delete_conv')

lemma hm_ok_empty [simp, inv_intros]: "hm_ok []"
  by (simp add: hm_ok_def)

lemma hm_ok_insert [simp, inv_intros]: "hm_ok m \<Longrightarrow> hm_ok (hm_insert k v m)"
  by (simp add: hm_ok_def distinct_update)

lemma hm_ok_remove [simp, inv_intros]: "hm_ok m \<Longrightarrow> hm_ok (hm_remove k m)"
  by (simp add: hm_ok_def distinct_delete)

lemma hm_get_modify [simp, map_simps]:
  "hm_get (hm_modify k f m) k' = (if k' = k then map_option f (hm_get m k) else hm_get m k')"
  by (auto simp: hm_modify_def split: option.splits)

lemma hm_ok_modify [simp, inv_intros]: "hm_ok m \<Longrightarrow> hm_ok (hm_modify k f m)"
  by (auto simp: hm_modify_def split: option.splits)

lemma hm_get_fold_remove: "hm_get (fold hm_remove ks m) k = (if k \<in> set ks then None else hm_get m k)"
  by (induction ks arbitrary: m) auto

lemma hm_insert_new: "k \<notin> set (hm_keys m) \<Longrightarrow> hm_insert k v m = m @ [(k, v)]"
  by (induction m) (auto simp: hm_keys_def)

lemma mset_hm_remove:
  "hm_ok m \<Longrightarrow> hm_get m k = Some v \<Longrightarrow> mset m = add_mset (k, v) (mset (hm_remove k m))"
proof (induction m)
  case (Cons e m)
  obtain k' v' where e: "e = (k', v')" by (cases e)
  show ?case
  proof (cases "k' = k")
    case True
    with Cons.prems have "k \<notin> fst ` set m" by (simp add: e hm_ok_def)
    with True Cons.prems show ?thesis by (simp add: e delete_idem)
  next
    case False
    with Cons show ?thesis by (simp add: e hm_ok_def)
  qed
qed simp

lemma hm_keys_insert [simp]: "set (hm_keys (hm_insert k v m)) = insert k (set (hm_keys m))"
  by (simp add: hm_keys_def flip: dom_map_of_conv_image_fst)

lemma hm_keys_remove [simp]: "set (hm_keys (hm_remove k m)) = set (hm_keys m) - {k}"
  by (simp add: hm_keys_def flip: dom_map_of_conv_image_fst)

lemma card_hm_keys: "hm_ok m \<Longrightarrow> card (set (hm_keys m)) = length m"
  by (metis hm_keys_def hm_ok_def distinct_card length_map)

lemma hm_contains_iff [simp]: "hm_contains k m \<longleftrightarrow> k \<in> set (hm_keys m)"
  by (simp add: hm_contains_def hm_keys_def map_of_eq_None_iff del: not_None_eq)

lemma set_hm_keys: "set (hm_keys m) = dom (hm_get m)"
  by (simp add: hm_keys_def dom_map_of_conv_image_fst)

lemma hm_ok_mem: "hm_ok m \<Longrightarrow> (k, v) \<in> set m \<longleftrightarrow> hm_get m k = Some v"
  by (simp add: hm_ok_def)

lemma hm_ok_filter [simp, inv_intros]: "hm_ok m \<Longrightarrow> hm_ok (filter P m)"
  by (simp add: hm_ok_def distinct_map_filter)

text \<open>\<open>entry(k).or_default().push(v)\<close>.\<close>

definition hm_push :: "'k \<Rightarrow> 'v \<Rightarrow> ('k, 'v list) hashmap \<Rightarrow> ('k, 'v list) hashmap" where
  "hm_push k v m = hm_insert k ((case hm_get m k of Some vs \<Rightarrow> vs | None \<Rightarrow> []) @ [v]) m"

lemma set_hm_push:
  "hm_ok m \<Longrightarrow> (k', b) \<in> set (hm_push k v m) \<longleftrightarrow>
     (if k' = k then b = (case hm_get m k of Some vs \<Rightarrow> vs | None \<Rightarrow> []) @ [v] else (k', b) \<in> set m)"
  by (auto simp: hm_push_def hm_ok_mem split: option.splits)

lemma hm_ok_push [simp, inv_intros]: "hm_ok m \<Longrightarrow> hm_ok (hm_push k v m)"
  by (simp add: hm_push_def)

interpretation hm: finite_map hm_get hm_insert hm_remove hm_ok
  by unfold_locales simp_all

subsection \<open>Ordered maps\<close>

fun bt_insert :: "'k::linorder \<Rightarrow> 'v \<Rightarrow> ('k, 'v) btreemap \<Rightarrow> ('k, 'v) btreemap" where
  "bt_insert k v [] = [(k, v)]"
| "bt_insert k v ((k', v') # m) =
     (if k < k' then (k, v) # (k', v') # m
      else if k = k' then (k, v) # m
      else (k', v') # bt_insert k v m)"

definition bt_remove :: "'k::linorder \<Rightarrow> ('k, 'v) btreemap \<Rightarrow> ('k, 'v) btreemap" where
  "bt_remove k m = filter (\<lambda>(k', v). k' \<noteq> k) m"

text \<open>\<open>map.range(k..)\<close>: the entries whose key is at least \<open>k\<close>, in key order.\<close>

definition bt_range_from :: "'k::linorder \<Rightarrow> ('k, 'v) btreemap \<Rightarrow> ('k, 'v) btreemap" where
  "bt_range_from k m = dropWhile (\<lambda>(k', v). k' < k) m"

definition bt_first :: "('k, 'v) btreemap \<Rightarrow> ('k \<times> 'v) option" where
  "bt_first m = (case m of [] \<Rightarrow> None | e # _ \<Rightarrow> Some e)"

definition bt_ok :: "('k::linorder, 'v) btreemap \<Rightarrow> bool" where
  "bt_ok m = sorted_wrt (<) (map fst m)"

lemma bt_ok_Nil [simp, inv_intros]: "bt_ok []"
  by (simp add: bt_ok_def)

lemma bt_ok_Cons [simp]: "bt_ok ((k, v) # m) \<longleftrightarrow> (\<forall>e \<in> set m. k < fst e) \<and> bt_ok m"
  by (auto simp: bt_ok_def)

lemma keys_bt_insert: "fst ` set (bt_insert k v m) = insert k (fst ` set m)"
  by (induction k v m rule: bt_insert.induct) auto

lemma ball_bt_insert [simp]:
  "(\<forall>e \<in> set (bt_insert k v m). P (fst e)) \<longleftrightarrow> P k \<and> (\<forall>e \<in> set m. P (fst e))"
  by (induction k v m rule: bt_insert.induct) auto

lemma bt_ok_insert [simp, inv_intros]: "bt_ok m \<Longrightarrow> bt_ok (bt_insert k v m)"
proof (induction k v m rule: bt_insert.induct)
  case (2 k v k' v' m)
  then show ?case
    by (cases "k < k'") (auto dest: order.strict_trans)
qed simp

lemma bt_get_insert [simp, map_simps]:
  "bt_ok m \<Longrightarrow> map_of (bt_insert k v m) = (map_of m)(k \<mapsto> v)"
proof (induction k v m rule: bt_insert.induct)
  case (2 k v k' v' m)
  then show ?case
    by (auto simp: fun_eq_iff)
qed simp

lemma bt_remove_id: "k \<notin> fst ` set m \<Longrightarrow> bt_remove k m = m"
  by (induction m) (auto simp: bt_remove_def)

lemma bt_remove_append: "bt_remove k (m @ n) = bt_remove k m @ bt_remove k n"
  by (simp add: bt_remove_def)

lemma bt_remove_Cons: "bt_remove k (e # m) = (if fst e = k then bt_remove k m else e # bt_remove k m)"
  by (cases e) (auto simp: bt_remove_def)

lemma bt_ok_remove [simp, inv_intros]: "bt_ok m \<Longrightarrow> bt_ok (bt_remove k m)"
  by (auto simp: bt_ok_def bt_remove_def sorted_wrt_map sorted_wrt_filter)

lemma bt_get_remove [simp, map_simps]: "map_of (bt_remove k m) = (map_of m)(k := None)"
  by (induction m) (auto simp: bt_remove_def fun_eq_iff)

lemma keys_bt_remove [simp]: "fst ` set (bt_remove k m) = fst ` set m - {k}"
  by (auto simp: bt_remove_def)

interpretation bt: finite_map map_of bt_insert bt_remove bt_ok
  by unfold_locales simp_all

lemma bt_ok_distinct: "bt_ok m \<Longrightarrow> distinct (map fst m)"
  by (simp add: bt_ok_def strict_sorted_iff)

lemma bt_ok_mem: "bt_ok m \<Longrightarrow> (k, v) \<in> set m \<longleftrightarrow> map_of m k = Some v"
  by (simp add: bt_ok_distinct)

lemma set_bt_insert:
  "bt_ok m \<Longrightarrow> set (bt_insert k v m) = insert (k, v) {e \<in> set m. fst e \<noteq> k}"
proof (induction k v m rule: bt_insert.induct)
  case (2 k v k' v' m)
  then show ?case by auto
qed simp

text \<open>\<open>map.range(k..).next()\<close>: the entry with the least key that is at least \<open>k\<close>.\<close>

definition bt_ceiling :: "'k::linorder \<Rightarrow> ('k, 'v) btreemap \<Rightarrow> ('k \<times> 'v) option" where
  "bt_ceiling k m = bt_first (bt_range_from k m)"

lemma bt_ceiling_Nil [simp]: "bt_ceiling k [] = None"
  by (simp add: bt_ceiling_def bt_range_from_def bt_first_def)

lemma bt_ceiling_Cons [simp]:
  "bt_ceiling k ((b, v) # m) = (if b < k then bt_ceiling k m else Some (b, v))"
  by (simp add: bt_ceiling_def bt_range_from_def bt_first_def)

lemma bt_ceiling_Some_iff:
  "bt_ok m \<Longrightarrow> bt_ceiling k m = Some (b, v) \<longleftrightarrow>
     (b, v) \<in> set m \<and> k \<le> b \<and> (\<forall>e \<in> set m. k \<le> fst e \<longrightarrow> b \<le> fst e)"
proof (induction m)
  case (Cons e m)
  obtain b' v' where e: "e = (b', v')" by (cases e)
  show ?case
  proof (cases "b' < k")
    case True
    with Cons e show ?thesis by auto
  next
    case False
    with Cons.prems e show ?thesis by fastforce
  qed
qed simp

lemma bt_ceiling_None_iff: "bt_ceiling k m = None \<longleftrightarrow> (\<forall>e \<in> set m. fst e < k)"
  by (induction m) (auto split: if_splits)

lemma bt_ceiling_mem: "bt_ceiling k m = Some e \<Longrightarrow> e \<in> set m \<and> k \<le> fst e"
  by (induction m) (auto split: if_splits)

lemma bt_ceiling_append:
  "bt_ceiling k (m @ n) = (case bt_ceiling k m of None \<Rightarrow> bt_ceiling k n | Some e \<Rightarrow> Some e)"
  by (induction m) auto

lemma bt_first_insert:
  "bt_first (bt_insert k v m) = Some (k, v) \<or> bt_first (bt_insert k v m) = bt_first m"
  by (cases m) (auto simp: bt_first_def split: if_splits)

lemma bt_ok_append:
  "bt_ok (m @ n) \<longleftrightarrow> bt_ok m \<and> bt_ok n \<and> (\<forall>e \<in> set m. \<forall>e' \<in> set n. fst e < fst e')"
  by (auto simp: bt_ok_def sorted_wrt_append)

lemma bt_ceiling_insert:
  assumes "bt_ok m"
  shows "bt_ceiling x (bt_insert k v m) =
    (if x \<le> k \<and> (\<forall>e \<in> set m. x \<le> fst e \<longrightarrow> k \<le> fst e) then Some (k, v) else bt_ceiling x m)"
proof (cases "x \<le> k \<and> (\<forall>e \<in> set m. x \<le> fst e \<longrightarrow> k \<le> fst e)")
  case True
  with assms show ?thesis
    by (auto simp: bt_ceiling_Some_iff set_bt_insert)
next
  case False
  show ?thesis
  proof (cases "bt_ceiling x m")
    case None
    with False have "\<forall>e \<in> set (bt_insert k v m). fst e < x"
      using assms by (auto simp: bt_ceiling_None_iff set_bt_insert)
    with None False show ?thesis
      by (metis bt_ceiling_None_iff)
  next
    case (Some e)
    obtain b w where e: "e = (b, w)" by (cases e)
    with Some assms have "(b, w) \<in> set m" "x \<le> b" "\<forall>e \<in> set m. x \<le> fst e \<longrightarrow> b \<le> fst e"
      by (auto simp: bt_ceiling_Some_iff)
    moreover have "b \<noteq> k"
      using calculation False by force
    moreover have "x \<le> k \<longrightarrow> b \<le> k"
      using calculation(3) False by (meson order.trans linear)
    ultimately have "bt_ceiling x (bt_insert k v m) = Some (b, w)"
      using assms by (auto simp: bt_ceiling_Some_iff set_bt_insert)
    with Some e False show ?thesis by (simp only: if_False)
  qed
qed

lemma bt_ok_filter [simp, inv_intros]: "bt_ok m \<Longrightarrow> bt_ok (filter P m)"
  by (auto simp: bt_ok_def sorted_wrt_map sorted_wrt_filter)

lemma bt_ceiling_least:
  assumes "bt_ok m"
  shows "(\<forall>e \<in> set m. x \<le> fst e \<longrightarrow> k \<le> fst e) \<longleftrightarrow> (\<forall>e. bt_ceiling x m = Some e \<longrightarrow> k \<le> fst e)"
proof (cases "bt_ceiling x m")
  case None
  then have "\<forall>e \<in> set m. \<not> x \<le> fst e" by (auto simp: bt_ceiling_None_iff)
  with None show ?thesis by simp
next
  case (Some c)
  obtain b v where c: "c = (b, v)" by (cases c)
  have b: "(b, v) \<in> set m" "x \<le> b" "\<And>e. e \<in> set m \<Longrightarrow> x \<le> fst e \<Longrightarrow> b \<le> fst e"
    using Some c assms by (auto simp: bt_ceiling_Some_iff)
  show ?thesis
  proof
    assume "\<forall>e \<in> set m. x \<le> fst e \<longrightarrow> k \<le> fst e"
    with b Some c show "\<forall>e. bt_ceiling x m = Some e \<longrightarrow> k \<le> fst e" by force
  next
    assume "\<forall>e. bt_ceiling x m = Some e \<longrightarrow> k \<le> fst e"
    with Some c have "k \<le> b" by simp
    with b(3) show "\<forall>e \<in> set m. x \<le> fst e \<longrightarrow> k \<le> fst e" by (blast intro: order.trans)
  qed
qed

lemma bt_ceiling_insert':
  assumes "bt_ok m"
  shows "bt_ceiling x (bt_insert k v m) =
    (if x \<le> k \<and> (\<forall>e. bt_ceiling x m = Some e \<longrightarrow> k \<le> fst e) then Some (k, v) else bt_ceiling x m)"
  unfolding bt_ceiling_insert [OF assms] bt_ceiling_least [OF assms] ..

lemma bt_ceiling_same:
  assumes "bt_ok m" "bt_ceiling x m = Some d" "bt_ceiling k m = Some c" "x \<le> k" "k \<le> fst d"
  shows "d = c"
proof -
  obtain bc vc bd vd where cd: "c = (bc, vc)" "d = (bd, vd)" by (cases c, cases d)
  have c: "(bc, vc) \<in> set m" "k \<le> bc" "\<And>e. e \<in> set m \<Longrightarrow> k \<le> fst e \<Longrightarrow> bc \<le> fst e"
    and d: "(bd, vd) \<in> set m" "x \<le> bd" "\<And>e. e \<in> set m \<Longrightarrow> x \<le> fst e \<Longrightarrow> bd \<le> fst e"
    using assms cd by (auto simp: bt_ceiling_Some_iff)
  have "bc = bd"
  proof (rule antisym)
    show "bc \<le> bd" using c(3) [OF d(1)] assms(5) cd by simp
    show "bd \<le> bc" using d(3) [OF c(1)] assms(4) c(2) by simp
  qed
  with c(1) d(1) assms(1) show ?thesis by (simp add: cd bt_ok_mem)
qed

lemma bt_ceiling_filter:
  assumes "bt_ok m" "bt_ceiling x m = Some (b, v)" "P (b, v)"
  shows "bt_ceiling x (filter P m) = Some (b, v)"
  using assms by (auto simp: bt_ceiling_Some_iff)

lemma bt_ceiling_remove_other:
  assumes "bt_ok m" "bt_ceiling x m = Some (b, v)" "b \<noteq> k"
  shows "bt_ceiling x (bt_remove k m) = Some (b, v)"
  using assms bt_ceiling_filter unfolding bt_remove_def by fastforce

lemma fold_bt_remove: "fold bt_remove ks m = filter (\<lambda>e. fst e \<notin> set ks) m"
  by (induction ks arbitrary: m) (auto simp: bt_remove_def filter_filter case_prod_beta intro: filter_cong)

text \<open>The loop \<open>for k in keys_to_remove { map.remove(&k) }\<close> where the keys are those of the
  entries with a given value removes exactly these entries.\<close>

lemma fold_bt_remove_values:
  assumes "bt_ok m"
  shows "fold bt_remove (map fst (filter (\<lambda>e. snd e = v) m)) m = filter (\<lambda>e. snd e \<noteq> v) m"
proof -
  have "fst e \<in> set (map fst (filter (\<lambda>e. snd e = v) m)) \<longleftrightarrow> snd e = v" if "e \<in> set m" for e
    using bt_ok_distinct [OF assms] that by (auto simp: distinct_map inj_on_def)
  then show ?thesis
    unfolding fold_bt_remove by (intro filter_cong) auto
qed

subsection \<open>Hash sets\<close>

type_synonym 'a hashset = "'a list"

abbreviation hs_insert :: "'a \<Rightarrow> 'a hashset \<Rightarrow> 'a hashset" where
  "hs_insert \<equiv> List.insert"

abbreviation hs_remove :: "'a \<Rightarrow> 'a hashset \<Rightarrow> 'a hashset" where
  "hs_remove \<equiv> removeAll"

subsection \<open>Strings\<close>

text \<open>Subtraction of \<open>u64\<close> and \<open>usize\<close> values in the release build: it wraps.\<close>

definition u64_sub :: "u64 \<Rightarrow> u64 \<Rightarrow> u64" where
  "u64_sub a b = (if b \<le> a then a - b else a + 2 ^ 64 - b)"

lemma u64_sub_le [simp]: "b \<le> a \<Longrightarrow> u64_sub a b = a - b"
  by (simp add: u64_sub_def)

text \<open>Decimal output of a number, as \<open>format!\<close> and \<open>to_string\<close> print it.\<close>

fun string_of_nat :: "nat \<Rightarrow> string" where
  "string_of_nat n =
     (if n < 10 then [char_of (48 + n)] else string_of_nat (n div 10) @ [char_of (48 + n mod 10)])"

declare string_of_nat.simps [simp del]

definition decimal_value :: "string \<Rightarrow> nat" where
  "decimal_value s = foldl (\<lambda>v c. 10 * v + (of_char c - 48)) 0 s"

lemma decimal_value_string_of_nat [simp]: "decimal_value (string_of_nat n) = n"
proof (induction n rule: string_of_nat.induct)
  case (1 n)
  have "of_char (char_of (48 + k) :: char) - 48 = k" if "k < 10" for k :: nat
    using that by (simp add: of_char_of)
  with 1 show ?case
    by (subst string_of_nat.simps) (auto simp: decimal_value_def)
qed

lemma string_of_nat_inject [simp]: "string_of_nat m = string_of_nat n \<longleftrightarrow> m = n"
  by (metis decimal_value_string_of_nat)

text \<open>\<open>s.starts_with(p)\<close> and \<open>s.contains(p)\<close> on strings.\<close>

abbreviation starts_with :: "string \<Rightarrow> string \<Rightarrow> bool" where
  "starts_with s p \<equiv> prefix p s"

abbreviation contains_str :: "string \<Rightarrow> string \<Rightarrow> bool" where
  "contains_str s p \<equiv> sublist p s"

lemma starts_with_ge: "starts_with s p \<Longrightarrow> p \<le> s"
proof -
  assume "starts_with s p"
  then obtain t where "s = p @ t" by (auto simp: prefix_def)
  then show ?thesis
    by (cases t) (auto simp: list_le_def list_less_def lexord_append_rightI)
qed

end
