(* ===== verification/MasterState.thy ===== *)
theory MasterState
  imports Complex_Main Prelude
begin

section \<open>The replicated state of a master (master.rs, lines 27 to 367; simple_raft.rs, apply\_command)\<close>

text \<open>
  File and block metadata, transaction records, safe mode, and the effect of every master command
  when the Raft log applies it. Times are arguments (\<open>now\<close>, in milliseconds); \<open>f64\<close> ratios are
  rationals. Unsigned subtraction wraps, as in the release build.
\<close>

subsection \<open>Data\<close>

definition DEFAULT_REPLICATION_FACTOR :: usize where
  "DEFAULT_REPLICATION_FACTOR = 3"

record BlockInfo =
  block_id :: string
  block_size :: u64
  locations :: "string list"
  checksum_crc32c :: u32
  block_ec_data_shards :: i32
  block_ec_parity_shards :: i32
  original_size :: u64

record FileMetadata =
  path :: string
  file_size :: u64
  blocks :: "BlockInfo list"
  etag_md5 :: string
  created_at_ms :: u64
  ec_data_shards :: i32
  ec_parity_shards :: i32
  last_access_ms :: u64
  access_count :: u64
  moved_to_cold_at_ms :: u64

record BlockChecksumInfo =
  info_block_id :: string
  info_checksum_crc32c :: u32
  actual_size :: u64

datatype CommandType = UNKNOWN | REPLICATE | DELETE | RECONSTRUCT_EC_SHARD | MOVE_TO_COLD

record ChunkServerCommand =
  command_type :: CommandType
  cmd_block_id :: string
  target_chunk_server_address :: string
  shard_index :: i32
  cmd_ec_data_shards :: i32
  cmd_ec_parity_shards :: i32
  ec_shard_sources :: "string list"
  original_block_size :: u64
  master_term :: u64

datatype TxState = Pending | Prepared | Committed | Aborted

datatype TransactionType = Rename string string

datatype TxOpType = Delete string | Create string FileMetadata

record TxOperation =
  op_shard_id :: string
  op_type :: TxOpType

record TransactionRecord =
  tx_id :: string
  tx_type :: TransactionType
  tx_state :: TxState
  timestamp :: u64
  participants :: "string list"
  operations :: "TxOperation list"
  coordinator_shard :: string
  participant_acked :: bool
  inquiry_count :: u32

definition new_rename ::
    "u64 \<Rightarrow> string \<Rightarrow> string \<Rightarrow> string \<Rightarrow> string \<Rightarrow> string \<Rightarrow> FileMetadata \<Rightarrow> TransactionRecord" where
  "new_rename now tid source_path dest_path source_shard dest_shard source_metadata =
     \<lparr>tx_id = tid, tx_type = Rename source_path dest_path, tx_state = Pending, timestamp = now,
      participants = [source_shard, dest_shard],
      operations = [\<lparr>op_shard_id = source_shard, op_type = Delete source_path\<rparr>,
                    \<lparr>op_shard_id = dest_shard, op_type = Create dest_path source_metadata\<rparr>],
      coordinator_shard = source_shard, participant_acked = False, inquiry_count = 0\<rparr>"

definition deletes_file :: "string \<Rightarrow> TransactionRecord \<Rightarrow> bool" where
  "deletes_file p r = list_ex (\<lambda>oper. case op_type oper of Delete q \<Rightarrow> q = p | Create _ _ \<Rightarrow> False) (operations r)"

definition creates_file :: "string \<Rightarrow> TransactionRecord \<Rightarrow> bool" where
  "creates_file p r = list_ex (\<lambda>oper. case op_type oper of Create q _ \<Rightarrow> q = p | Delete _ \<Rightarrow> False) (operations r)"

fun created_metadata_loop :: "string \<Rightarrow> TxOperation list \<Rightarrow> FileMetadata option" where
  "created_metadata_loop p [] = None"
| "created_metadata_loop p (oper # ops) =
     (case op_type oper of
        Create q m \<Rightarrow> if q = p then Some m else created_metadata_loop p ops
      | Delete _ \<Rightarrow> created_metadata_loop p ops)"

definition get_created_metadata :: "string \<Rightarrow> TransactionRecord \<Rightarrow> FileMetadata option" where
  "get_created_metadata p r = created_metadata_loop p (operations r)"

definition is_timed_out :: "u64 \<Rightarrow> TransactionRecord \<Rightarrow> bool" where
  "is_timed_out now r \<longleftrightarrow> 10000 < u64_sub now (timestamp r)"

definition is_stale :: "u64 \<Rightarrow> TransactionRecord \<Rightarrow> bool" where
  "is_stale now r \<longleftrightarrow> 3600000 < u64_sub now (timestamp r)"

record ChunkServerStatus =
  last_heartbeat :: u64
  used_space :: u64
  available_space :: u64
  chunk_count :: u64
  rack_id :: string

record MasterState =
  files :: "(string, FileMetadata) hashmap"
  transaction_records :: "(string, TransactionRecord) hashmap"
  shuffling_prefixes :: "string hashset"
  chunk_servers :: "(string, ChunkServerStatus) hashmap"
  pending_commands :: "(string, ChunkServerCommand list) hashmap"
  safe_mode :: bool
  safe_mode_entered_at :: u64
  safe_mode_min_chunkservers :: usize
  expected_block_count :: usize
  reported_block_count :: usize
  safe_mode_threshold :: rat
  safe_mode_manual :: bool
  bad_block_locations :: "(string, string hashset) hashmap"

subsection \<open>Safe mode\<close>

definition count_total_blocks :: "MasterState \<Rightarrow> usize" where
  "count_total_blocks s = sum_list (map (\<lambda>f. length (blocks f)) (hm_values (files s)))"

definition enter_safe_mode :: "u64 \<Rightarrow> MasterState \<Rightarrow> MasterState" where
  "enter_safe_mode now s =
     s\<lparr>safe_mode := True, safe_mode_entered_at := now, safe_mode_min_chunkservers := 1,
       safe_mode_threshold := 99 / 100, expected_block_count := count_total_blocks s,
       reported_block_count := 0, safe_mode_manual := False\<rparr>"

definition should_exit_safe_mode :: "u64 \<Rightarrow> MasterState \<Rightarrow> bool" where
  "should_exit_safe_mode now s =
     (if safe_mode_manual s then False
      else if \<not> safe_mode s then False
      else if length (chunk_servers s) < safe_mode_min_chunkservers s then False
      else if expected_block_count s = 0 then True
      else if safe_mode_threshold s \<le> of_nat (reported_block_count s) / of_nat (expected_block_count s)
      then True
      else 60000 < u64_sub now (safe_mode_entered_at s))"

definition exit_safe_mode :: "MasterState \<Rightarrow> MasterState" where
  "exit_safe_mode s = (if safe_mode s then s\<lparr>safe_mode := False, safe_mode_manual := False\<rparr> else s)"

definition force_enter_safe_mode :: "u64 \<Rightarrow> MasterState \<Rightarrow> MasterState" where
  "force_enter_safe_mode now s = (enter_safe_mode now s)\<lparr>safe_mode_manual := True\<rparr>"

definition force_exit_safe_mode :: "MasterState \<Rightarrow> MasterState" where
  "force_exit_safe_mode s = exit_safe_mode (s\<lparr>safe_mode_manual := False\<rparr>)"

definition is_in_safe_mode :: "MasterState \<Rightarrow> bool" where
  "is_in_safe_mode s = safe_mode s"

definition update_reported_blocks :: "u64 \<Rightarrow> usize \<Rightarrow> MasterState \<Rightarrow> MasterState" where
  "update_reported_blocks now block_count s =
     (let s = s\<lparr>reported_block_count := reported_block_count s + block_count\<rparr>
      in if should_exit_safe_mode now s then exit_safe_mode s else s)"

subsection \<open>Commands\<close>

datatype MasterCommand =
    CreateFile string i32 i32
  | DeleteFile string
  | AllocateBlock string string "string list"
  | RegisterChunkServer string
  | RenameFile string string
  | CreateTransactionRecord TransactionRecord
  | UpdateTransactionState string TxState
  | ApplyTransactionOperation string TxOperation
  | DeleteTransactionRecord string
  | SplitShard string string "string list"
  | MergeShard string
  | IngestBatch "FileMetadata list"
  | TriggerShuffle string
  | CompleteFile string u64 "string option" "u64 option" "BlockChecksumInfo list"
  | StopShuffle string
  | UpdateAccessStats string u64
  | MoveToCold string u64
  | ConvertToEc string i32 i32 "BlockInfo list"
  | SetParticipantAcked string
  | IncrementInquiryCount string

definition empty_file :: "string \<Rightarrow> i32 \<Rightarrow> i32 \<Rightarrow> FileMetadata" where
  "empty_file p ec_data ec_parity =
     \<lparr>path = p, file_size = 0, blocks = [], etag_md5 = '''', created_at_ms = 0,
      ec_data_shards = ec_data, ec_parity_shards = ec_parity, last_access_ms = 0,
      access_count = 0, moved_to_cold_at_ms = 0\<rparr>"

definition apply_create_file :: "string \<Rightarrow> i32 \<Rightarrow> i32 \<Rightarrow> MasterState \<Rightarrow> MasterState" where
  "apply_create_file p ec_data ec_parity s =
     s\<lparr>files := hm_insert p (empty_file p ec_data ec_parity) (files s)\<rparr>"

definition apply_allocate_block :: "string \<Rightarrow> string \<Rightarrow> string list \<Rightarrow> MasterState \<Rightarrow> MasterState" where
  "apply_allocate_block p b locs s =
     s\<lparr>files := hm_modify p (\<lambda>m. m\<lparr>blocks := blocks m @
        [\<lparr>block_id = b, block_size = 0, locations = locs, checksum_crc32c = 0,
          block_ec_data_shards = ec_data_shards m, block_ec_parity_shards = ec_parity_shards m,
          original_size = 0\<rparr>]\<rparr>) (files s)\<rparr>"

definition apply_rename_file :: "string \<Rightarrow> string \<Rightarrow> MasterState \<Rightarrow> MasterState" where
  "apply_rename_file source_path dest_path s =
     (case hm_get (files s) source_path of
        Some m \<Rightarrow> s\<lparr>files := hm_insert dest_path (m\<lparr>path := dest_path\<rparr>) (hm_remove source_path (files s))\<rparr>
      | None \<Rightarrow> s)"

definition apply_tx_operation :: "TxOperation \<Rightarrow> MasterState \<Rightarrow> MasterState" where
  "apply_tx_operation oper s =
     (case op_type oper of
        Delete p \<Rightarrow> s\<lparr>files := hm_remove p (files s)\<rparr>
      | Create p m \<Rightarrow>
          if \<not> hm_contains p (files s) then s\<lparr>files := hm_insert p m (files s)\<rparr> else s)"

definition apply_split_shard :: "string \<Rightarrow> MasterState \<Rightarrow> MasterState" where
  "apply_split_shard split_key s =
     (let to_move = filter (\<lambda>k. split_key \<le> k) (hm_keys (files s))
      in s\<lparr>files := fold hm_remove to_move (files s)\<rparr>)"

definition apply_ingest_batch :: "FileMetadata list \<Rightarrow> MasterState \<Rightarrow> MasterState" where
  "apply_ingest_batch fs s = s\<lparr>files := fold (\<lambda>f. hm_insert (path f) f) fs (files s)\<rparr>"

text \<open>\<open>iter_mut().find(..)\<close>: the first block with the id is updated.\<close>

fun record_checksum :: "BlockChecksumInfo \<Rightarrow> BlockInfo list \<Rightarrow> BlockInfo list" where
  "record_checksum info [] = []"
| "record_checksum info (b # bs) =
     (if block_id b = info_block_id info
      then b\<lparr>checksum_crc32c := info_checksum_crc32c info, block_size := actual_size info,
             original_size := actual_size info\<rparr> # bs
      else b # record_checksum info bs)"

definition distribute_size :: "u64 \<Rightarrow> BlockInfo list \<Rightarrow> BlockInfo list" where
  "distribute_size remaining_size bs =
     (let num_blocks = length bs
      in if 0 < num_blocks
         then if num_blocks = 1 then bs[0 := (bs ! 0)\<lparr>block_size := remaining_size\<rparr>]
              else let each = remaining_size div num_blocks;
                       last_block_size = u64_sub remaining_size (each * (num_blocks - 1));
                       bs = fold (\<lambda>i bs. bs[i := (bs ! i)\<lparr>block_size := each\<rparr>]) [0..<num_blocks - 1] bs
                   in bs[num_blocks - 1 := (bs ! (num_blocks - 1))\<lparr>block_size := last_block_size\<rparr>]
         else bs)"

definition complete_metadata ::
    "u64 \<Rightarrow> string option \<Rightarrow> u64 option \<Rightarrow> BlockChecksumInfo list \<Rightarrow> FileMetadata \<Rightarrow> FileMetadata" where
  "complete_metadata sz etag created block_checksums f =
     (let f = f\<lparr>file_size := sz\<rparr>;
          f = (case etag of Some e \<Rightarrow> f\<lparr>etag_md5 := e\<rparr> | None \<Rightarrow> f);
          f = (case created of Some c \<Rightarrow> f\<lparr>created_at_ms := c\<rparr> | None \<Rightarrow> f)
      in if block_checksums \<noteq> [] then f\<lparr>blocks := fold record_checksum block_checksums (blocks f)\<rparr>
         else f\<lparr>blocks := distribute_size sz (blocks f)\<rparr>)"

definition apply_complete_file ::
    "string \<Rightarrow> u64 \<Rightarrow> string option \<Rightarrow> u64 option \<Rightarrow> BlockChecksumInfo list \<Rightarrow> MasterState \<Rightarrow> MasterState" where
  "apply_complete_file p sz etag created block_checksums s =
     s\<lparr>files := hm_modify p (complete_metadata sz etag created block_checksums) (files s)\<rparr>"

fun apply_master_command :: "MasterCommand \<Rightarrow> MasterState \<Rightarrow> MasterState" where
  "apply_master_command (CreateFile p d e) s = apply_create_file p d e s"
| "apply_master_command (DeleteFile p) s = s\<lparr>files := hm_remove p (files s)\<rparr>"
| "apply_master_command (AllocateBlock p b locs) s = apply_allocate_block p b locs s"
| "apply_master_command (RegisterChunkServer a) s = s"
| "apply_master_command (RenameFile source_path dest_path) s = apply_rename_file source_path dest_path s"
| "apply_master_command (CreateTransactionRecord r) s =
     s\<lparr>transaction_records := hm_insert (tx_id r) r (transaction_records s)\<rparr>"
| "apply_master_command (UpdateTransactionState t new_state) s =
     s\<lparr>transaction_records := hm_modify t (\<lambda>r. r\<lparr>tx_state := new_state\<rparr>) (transaction_records s)\<rparr>"
| "apply_master_command (ApplyTransactionOperation t oper) s = apply_tx_operation oper s"
| "apply_master_command (DeleteTransactionRecord t) s =
     s\<lparr>transaction_records := hm_remove t (transaction_records s)\<rparr>"
| "apply_master_command (SplitShard split_key _ _) s = apply_split_shard split_key s"
| "apply_master_command (MergeShard _) s = s"
| "apply_master_command (IngestBatch fs) s = apply_ingest_batch fs s"
| "apply_master_command (TriggerShuffle p) s =
     s\<lparr>shuffling_prefixes := hs_insert p (shuffling_prefixes s)\<rparr>"
| "apply_master_command (CompleteFile p sz etag created cs) s = apply_complete_file p sz etag created cs s"
| "apply_master_command (StopShuffle p) s =
     s\<lparr>shuffling_prefixes := hs_remove p (shuffling_prefixes s)\<rparr>"
| "apply_master_command (UpdateAccessStats p t) s =
     s\<lparr>files := hm_modify p (\<lambda>m. m\<lparr>last_access_ms := t, access_count := access_count m + 1\<rparr>) (files s)\<rparr>"
| "apply_master_command (MoveToCold p t) s =
     s\<lparr>files := hm_modify p (\<lambda>m. m\<lparr>moved_to_cold_at_ms := t\<rparr>) (files s)\<rparr>"
| "apply_master_command (ConvertToEc p d e new_blocks) s =
     s\<lparr>files := hm_modify p (\<lambda>m. m\<lparr>ec_data_shards := d, ec_parity_shards := e, blocks := new_blocks\<rparr>) (files s)\<rparr>"
| "apply_master_command (SetParticipantAcked t) s =
     s\<lparr>transaction_records := hm_modify t (\<lambda>r. r\<lparr>participant_acked := True\<rparr>) (transaction_records s)\<rparr>"
| "apply_master_command (IncrementInquiryCount t) s =
     s\<lparr>transaction_records := hm_modify t (\<lambda>r. r\<lparr>inquiry_count := inquiry_count r + 1\<rparr>) (transaction_records s)\<rparr>"

subsection \<open>The invariant of the metadata\<close>

text \<open>The tables are maps, a file is stored under its own path, and a transaction under its own id.\<close>

definition master_ok :: "MasterState \<Rightarrow> bool" where
  "master_ok s \<longleftrightarrow> hm_ok (files s) \<and> hm_ok (transaction_records s) \<and>
     (\<forall>p f. hm_get (files s) p = Some f \<longrightarrow> path f = p) \<and>
     (\<forall>t r. hm_get (transaction_records s) t = Some r \<longrightarrow> tx_id r = t)"

text \<open>A transaction creates a file under the path its metadata has.\<close>

definition tx_op_ok :: "TxOperation \<Rightarrow> bool" where
  "tx_op_ok oper = (case op_type oper of Create p m \<Rightarrow> path m = p | Delete _ \<Rightarrow> True)"

fun command_ok :: "MasterCommand \<Rightarrow> bool" where
  "command_ok (ApplyTransactionOperation _ oper) = tx_op_ok oper"
| "command_ok _ = True"

lemma master_okI:
  assumes "hm_ok (files s)" "hm_ok (transaction_records s)"
    "\<And>p f. hm_get (files s) p = Some f \<Longrightarrow> path f = p"
    "\<And>t r. hm_get (transaction_records s) t = Some r \<Longrightarrow> tx_id r = t"
  shows "master_ok s"
  using assms by (simp add: master_ok_def)

lemma master_okD:
  assumes "master_ok s"
  shows "hm_ok (files s)" "hm_ok (transaction_records s)"
    "hm_get (files s) p = Some f \<Longrightarrow> path f = p"
    "hm_get (transaction_records s) t = Some r \<Longrightarrow> tx_id r = t"
  using assms by (simp_all add: master_ok_def)

lemma path_complete_metadata [simp]: "path (complete_metadata sz etag created cs f) = path f"
  by (simp add: complete_metadata_def Let_def split: option.splits)

lemma files_apply_split_shard [simp, map_simps]:
  "hm_get (files (apply_split_shard k s)) p = (if k \<le> p then None else hm_get (files s) p)"
  by (auto simp: apply_split_shard_def hm_get_fold_remove set_hm_keys domIff)

lemma files_apply_rename_file [map_simps]:
  "hm_get (files (apply_rename_file a b s)) p =
     (case hm_get (files s) a of None \<Rightarrow> hm_get (files s) p
      | Some m \<Rightarrow> if p = b then Some (m\<lparr>path := b\<rparr>) else if p = a then None else hm_get (files s) p)"
  by (auto simp: apply_rename_file_def split: option.splits)

text \<open>A transaction operation acts on one path; on that path it is a constant or a default.\<close>

definition op_path :: "TxOperation \<Rightarrow> string" where
  "op_path oper = (case op_type oper of Delete p \<Rightarrow> p | Create p _ \<Rightarrow> p)"

definition op_effect :: "TxOperation \<Rightarrow> FileMetadata option \<Rightarrow> FileMetadata option" where
  "op_effect oper x =
     (case op_type oper of Delete _ \<Rightarrow> None | Create _ m \<Rightarrow> (case x of None \<Rightarrow> Some m | Some y \<Rightarrow> Some y))"

lemma files_apply_tx_operation [map_simps]:
  "hm_get (files (apply_tx_operation oper s)) p =
     (if p = op_path oper then op_effect oper (hm_get (files s) p) else hm_get (files s) p)"
  by (auto simp: apply_tx_operation_def op_path_def op_effect_def set_hm_keys split: TxOpType.splits option.splits)

lemma files_fold_tx_operations:
  "hm_get (files (fold apply_tx_operation ops s)) p =
     fold op_effect (filter (\<lambda>oper. op_path oper = p) ops) (hm_get (files s) p)"
  by (induction ops arbitrary: s) (auto simp: files_apply_tx_operation)

lemma fold_op_effect_cases:
  "(\<forall>x. fold op_effect ops (Some x) = Some x) \<or> (\<forall>x y. fold op_effect ops x = fold op_effect ops y)"
proof (induction ops)
  case (Cons oper ops)
  then show ?case
    by (cases "op_type oper") (auto simp: op_effect_def split: option.splits)
qed simp

lemma fold_op_effect_idem: "fold op_effect ops (fold op_effect ops x) = fold op_effect ops x"
  using fold_op_effect_cases [of ops]
proof
  assume *: "\<forall>x. fold op_effect ops (Some x) = Some x"
  show ?thesis
  proof (cases "fold op_effect ops x")
    case None
    then show ?thesis using * by (cases x) auto
  qed (use * in simp)
qed blast

lemma hm_get_fold_insert_path:
  assumes "\<And>p f. hm_get m p = Some f \<Longrightarrow> path f = p"
    "hm_get (fold (\<lambda>f. hm_insert (path f) f) fs m) p = Some f"
  shows "path f = p"
  using assms
proof (induction fs arbitrary: m)
  case (Cons g fs)
  show ?case by (rule Cons.IH [of "hm_insert (path g) g m"]) (use Cons.prems in \<open>auto split: if_splits\<close>)
qed simp

lemma hm_ok_fold_insert_path: "hm_ok m \<Longrightarrow> hm_ok (fold (\<lambda>f. hm_insert (path f) f) fs m)"
  by (induction fs arbitrary: m) auto

subsection \<open>Sizes of the blocks of a completed file\<close>

lemma fold_set_sizes:
  assumes "n \<le> length bs"
  shows "fold (\<lambda>i bs. bs[i := (bs ! i)\<lparr>block_size := each\<rparr>]) [0..<n] bs =
    map (\<lambda>b. b\<lparr>block_size := each\<rparr>) (take n bs) @ drop n bs"
  using assms
proof (induction n)
  case (Suc n)
  then have "drop n bs = bs ! n # drop (Suc n) bs" by (simp add: Cons_nth_drop_Suc)
  with Suc show ?case
    by (simp add: nth_append take_Suc_conv_app_nth list_update_append)
qed simp

lemma distribute_size_snoc:
  assumes "xs \<noteq> []"
  shows "distribute_size sz (xs @ [y]) =
    map (\<lambda>b. b\<lparr>block_size := sz div Suc (length xs)\<rparr>) xs @
    [y\<lparr>block_size := sz - sz div Suc (length xs) * length xs\<rparr>]"
proof -
  have "sz div Suc (length xs) * length xs \<le> sz"
    by (rule order.trans [OF _ div_times_less_eq_dividend [of sz "Suc (length xs)"]]) simp
  with assms show ?thesis
    by (simp add: distribute_size_def Let_def fold_set_sizes nth_append list_update_append)
qed

lemma sum_distribute_size:
  assumes "bs \<noteq> []"
  shows "sum_list (map block_size (distribute_size sz bs)) = sz"
proof -
  obtain xs y where bs: "bs = xs @ [y]" using assms by (cases bs rule: rev_cases) auto
  show ?thesis
  proof (cases "xs = []")
    case True
    then show ?thesis by (simp add: bs distribute_size_def)
  next
    case False
    have "sz div Suc (length xs) * length xs \<le> sz"
      by (rule order.trans [OF _ div_times_less_eq_dividend [of sz "Suc (length xs)"]]) simp
    with False show ?thesis
      by (simp add: bs distribute_size_snoc comp_def sum_list_triv mult.commute)
  qed
qed

lemma distribute_size_ids: "map block_id (distribute_size sz bs) = map block_id bs"
proof (cases bs rule: rev_cases)
  case (snoc xs y)
  show ?thesis
  proof (cases "xs = []")
    case True
    with snoc show ?thesis by (simp add: distribute_size_def)
  next
    case False
    with snoc show ?thesis by (simp add: distribute_size_snoc comp_def)
  qed
qed (simp add: distribute_size_def)

lemma record_checksum_ids [simp]: "map block_id (record_checksum info bs) = map block_id bs"
  by (induction info bs rule: record_checksum.induct) auto

subsection \<open>Preservation of the invariant\<close>

lemma command_ok_simps [simp]:
  "master_ok s \<Longrightarrow> master_ok (apply_create_file p d e s)"
  "master_ok s \<Longrightarrow> master_ok (apply_allocate_block p b locs s)"
  "master_ok s \<Longrightarrow> master_ok (apply_complete_file p sz etag created cs s)"
  by (auto simp: master_ok_def apply_create_file_def empty_file_def apply_allocate_block_def
      apply_complete_file_def split: if_splits)

lemma apply_rename_file_ok: "master_ok s \<Longrightarrow> master_ok (apply_rename_file a b s)"
  by (auto simp: master_ok_def apply_rename_file_def split: option.splits if_splits)

lemma apply_tx_operation_ok: "master_ok s \<Longrightarrow> tx_op_ok oper \<Longrightarrow> master_ok (apply_tx_operation oper s)"
  by (cases "op_type oper") (auto simp: master_ok_def apply_tx_operation_def tx_op_ok_def split: if_splits)

lemma apply_split_shard_ok:
  assumes "master_ok s"
  shows "master_ok (apply_split_shard k s)"
proof (rule master_okI)
  show "hm_ok (files (apply_split_shard k s))"
    using master_okD(1) [OF assms] by (simp add: apply_split_shard_def hm.invar_fold_remove)
  show "path f = p" if "hm_get (files (apply_split_shard k s)) p = Some f" for p f
    using master_okD(3) [OF assms] that by (simp split: if_splits)
qed (use master_okD [OF assms] in \<open>simp_all add: apply_split_shard_def Let_def\<close>)

lemma apply_ingest_batch_ok:
  assumes "master_ok s"
  shows "master_ok (apply_ingest_batch fs s)"
proof (rule master_okI)
  show "path f = p" if "hm_get (files (apply_ingest_batch fs s)) p = Some f" for p f
    by (rule hm_get_fold_insert_path [of "files s" fs])
      (use master_okD(3) [OF assms] that in \<open>simp_all add: apply_ingest_batch_def\<close>)
qed (use master_okD [OF assms] in \<open>simp_all add: apply_ingest_batch_def hm_ok_fold_insert_path\<close>)

lemma apply_master_command_ok [inv_intros]:
  assumes "master_ok s" "command_ok c"
  shows "master_ok (apply_master_command c s)"
  using assms
  by (cases c) (simp_all add: apply_rename_file_ok apply_tx_operation_ok apply_split_shard_ok
      apply_ingest_batch_ok, auto simp: master_ok_def split: if_splits)

lemma apply_master_commands_ok:
  "master_ok s \<Longrightarrow> \<forall>c \<in> set cs. command_ok c \<Longrightarrow> master_ok (fold apply_master_command cs s)"
  by (induction cs arbitrary: s) (simp_all add: apply_master_command_ok)

subsection \<open>Properties\<close>

text \<open>C3. Every sequence of replicated master commands keeps the metadata consistent: the tables stay maps,
  every file is stored under its own path and every transaction under its own id, provided the
  transactions it applies create files under the path in their metadata.\<close>

theorem master_commands_keep_metadata:
  assumes "master_ok s" "\<forall>c \<in> set cs. command_ok c"
  shows "master_ok (fold apply_master_command cs s)"
  using assms by (rule apply_master_commands_ok)

text \<open>C11. Completing a file without reported checksums distributes the size over the blocks without loss:
  the file has the size, its block sizes add up to it, and the blocks are the allocated ones.\<close>

theorem complete_file_sizes:
  assumes "hm_get (files s) p = Some f" "blocks f \<noteq> []"
    and "s' = apply_master_command (CompleteFile p sz etag created []) s"
  shows "\<exists>f'. hm_get (files s') p = Some f' \<and> file_size f' = sz \<and>
    sum_list (map block_size (blocks f')) = sz \<and> map block_id (blocks f') = map block_id (blocks f)"
  using assms
  by (simp add: apply_complete_file_def complete_metadata_def Let_def sum_distribute_size
      distribute_size_ids split: option.splits)


text \<open>The blocks that the files of a master refer to.\<close>

definition all_blocks :: "MasterState \<Rightarrow> BlockInfo multiset" where
  "all_blocks s = mset (concat (map blocks (hm_values (files s))))"

lemma all_blocks_alt: "all_blocks s = (\<Sum>e \<in># mset (files s). mset (blocks (snd e)))"
  by (simp add: all_blocks_def hm_values_def mset_concat comp_def flip: sum_mset_sum_list mset_map)

text \<open>C10. A rename inside a shard loses no data: with a free destination it moves the metadata, the files
  refer to the same blocks as before, and every third file is untouched.\<close>

theorem rename_file_conserves_blocks:
  assumes "master_ok s" "hm_get (files s) b = None" "hm_get (files s) a = Some f"
  shows "all_blocks (apply_rename_file a b s) = all_blocks s \<and>
    hm_get (files (apply_rename_file a b s)) = (hm_get (files s))(a := None, b \<mapsto> f\<lparr>path := b\<rparr>)"
proof
  have "b \<notin> set (hm_keys (hm_remove a (files s)))" using assms(2) by (simp add: set_hm_keys domIff)
  then have ins: "files (apply_rename_file a b s) = hm_remove a (files s) @ [(b, f\<lparr>path := b\<rparr>)]"
    using assms(3) by (simp add: apply_rename_file_def hm_insert_new)
  have "mset (files s) = add_mset (a, f) (mset (hm_remove a (files s)))"
    using assms master_okD(1) by (intro mset_hm_remove) simp_all
  then show "all_blocks (apply_rename_file a b s) = all_blocks s"
    by (simp add: all_blocks_alt ins)
  show "hm_get (files (apply_rename_file a b s)) = (hm_get (files s))(a := None, b \<mapsto> f\<lparr>path := b\<rparr>)"
    using assms by (auto simp: apply_rename_file_def)
qed


subsection \<open>Concrete inputs\<close>

definition init_master :: MasterState where
  "init_master =
     \<lparr>files = [], transaction_records = [], shuffling_prefixes = [], chunk_servers = [],
      pending_commands = [], safe_mode = False, safe_mode_entered_at = 0,
      safe_mode_min_chunkservers = 0, expected_block_count = 0, reported_block_count = 0,
      safe_mode_threshold = 0, safe_mode_manual = False, bad_block_locations = []\<rparr>"

lemma init_master_ok [simp]: "master_ok init_master"
  by (simp add: master_ok_def init_master_def)

text \<open>One file with three blocks.\<close>

definition example_master :: MasterState where
  "example_master = fold apply_master_command
     [CreateFile ''/a'' 0 0, AllocateBlock ''/a'' ''b1'' [''cs1''], AllocateBlock ''/a'' ''b2'' [''cs2''],
      AllocateBlock ''/a'' ''b3'' [''cs3'']] init_master"

lemma example_master_ok: "master_ok example_master"
  unfolding example_master_def by (rule apply_master_commands_ok) simp_all

lemma example_master_file:
  "hm_get (files example_master) ''/a'' =
     Some ((empty_file ''/a'' 0 0)\<lparr>blocks :=
       map (\<lambda>(b, c). \<lparr>block_id = b, block_size = 0, locations = [c], checksum_crc32c = 0,
         block_ec_data_shards = 0, block_ec_parity_shards = 0, original_size = 0\<rparr>)
       [(''b1'', ''cs1''), (''b2'', ''cs2''), (''b3'', ''cs3'')]\<rparr>)"
  by (simp add: example_master_def apply_create_file_def apply_allocate_block_def init_master_def
      empty_file_def)

theorem master_commands_keep_metadata_witness:
  "master_ok (fold apply_master_command [CreateFile ''/a'' 0 0, RenameFile ''/a'' ''/b''] init_master)"
  by (rule master_commands_keep_metadata) simp_all

theorem complete_file_sizes_witness:
  "\<exists>f'. hm_get (files (apply_master_command (CompleteFile ''/a'' 100 None None []) example_master)) ''/a'' = Some f' \<and>
     sum_list (map block_size (blocks f')) = 100 \<and> map block_id (blocks f') = [''b1'', ''b2'', ''b3'']"
  using complete_file_sizes [OF example_master_file, of _ 100 None None] by fastforce

theorem rename_file_conserves_blocks_witness:
  "all_blocks (apply_rename_file ''/a'' ''/b'' example_master) = all_blocks example_master"
proof -
  have "hm_get (files example_master) ''/b'' = None" by code_simp
  from rename_file_conserves_blocks [OF example_master_ok this example_master_file] show ?thesis
    by simp
qed


end
