(* ===== verification/ShardMap.thy ===== *)
theory ShardMap
  imports Prelude
begin

section \<open>The shard map (dfs/common/src/sharding.rs)\<close>

text \<open>
  The map from file paths to shards: consistent hashing over a ring, or range partitioning
  over boundary keys. \<open>crc\<close> is the CRC-32 of the crate \<open>crc32fast\<close>, a parameter. The
  statements are about routing (\<open>get_shard\<close>): which boundary owns a key, and how each
  reconfiguration changes the owner of each key.
\<close>

type_synonym ShardId = string
type_synonym crc_fn = "string \<Rightarrow> u64"

definition hash_key :: "crc_fn \<Rightarrow> string \<Rightarrow> u64" where
  "hash_key crc key = crc key"

datatype ShardingStrategy =
    ConsistentHash "(u64, ShardId) btreemap" usize
  | Range "(string, ShardId) btreemap"

record ShardMap =
  strategy :: ShardingStrategy
  shards :: "ShardId hashset"
  shard_peers :: "(ShardId, string list) hashmap"

definition new_consistent_hash :: "usize \<Rightarrow> ShardMap" where
  "new_consistent_hash virtual_nodes =
     \<lparr>strategy = ConsistentHash [] virtual_nodes, shards = [], shard_peers = []\<rparr>"

definition new_range :: ShardMap where
  "new_range = \<lparr>strategy = Range [], shards = [], shard_peers = []\<rparr>"

text \<open>The string \<open>"\u{10FFFF}"\<close>, in UTF-8.\<close>

definition max_key :: string where
  "max_key = [CHR 0xF4, CHR 0x8F, CHR 0xBF, CHR 0xBF]"

fun add_virtual_nodes :: "crc_fn \<Rightarrow> ShardId \<Rightarrow> nat list \<Rightarrow> (u64, ShardId) btreemap \<Rightarrow> (u64, ShardId) btreemap" where
  "add_virtual_nodes crc shard_id [] ring = ring"
| "add_virtual_nodes crc shard_id (i # is) ring =
     add_virtual_nodes crc shard_id is
       (bt_insert (hash_key crc (shard_id @ '':'' @ string_of_nat i)) shard_id ring)"

definition add_range :: "ShardId \<Rightarrow> (string, ShardId) btreemap \<Rightarrow> (string, ShardId) btreemap" where
  "add_range shard_id ranges =
     (case ranges of
        [] \<Rightarrow> bt_insert max_key shard_id ranges
      | [(_, old_shard)] \<Rightarrow> bt_insert max_key old_shard (bt_insert ''/m'' shard_id [])
      | _ \<Rightarrow> bt_insert (''z-'' @ shard_id) shard_id ranges)"

definition add_shard :: "crc_fn \<Rightarrow> ShardId \<Rightarrow> string list \<Rightarrow> ShardMap \<Rightarrow> ShardMap" where
  "add_shard crc shard_id peers m =
     (if shard_id \<in> set (shards m)
      then m\<lparr>shard_peers := hm_insert shard_id peers (shard_peers m)\<rparr>
      else
        let m = m\<lparr>shards := hs_insert shard_id (shards m),
                  shard_peers := hm_insert shard_id peers (shard_peers m)\<rparr>
        in case strategy m of
             ConsistentHash ring virtual_nodes \<Rightarrow>
               m\<lparr>strategy := ConsistentHash
                    (add_virtual_nodes crc shard_id [0..<virtual_nodes] ring) virtual_nodes\<rparr>
           | Range ranges \<Rightarrow> m\<lparr>strategy := Range (add_range shard_id ranges)\<rparr>)"

definition has_shard :: "ShardId \<Rightarrow> ShardMap \<Rightarrow> bool" where
  "has_shard shard_id m = (shard_id \<in> set (shards m))"

definition get_peers :: "ShardId \<Rightarrow> ShardMap \<Rightarrow> string list option" where
  "get_peers shard_id m = hm_get (shard_peers m) shard_id"

definition remove_shard :: "ShardId \<Rightarrow> ShardMap \<Rightarrow> ShardMap" where
  "remove_shard shard_id m =
     (if shard_id \<notin> set (shards m) then m
      else
        let m = m\<lparr>shards := hs_remove shard_id (shards m),
                  shard_peers := hm_remove shard_id (shard_peers m)\<rparr>
        in case strategy m of
             ConsistentHash ring virtual_nodes \<Rightarrow>
               let keys_to_remove = map fst (filter (\<lambda>e. snd e = shard_id) ring)
               in m\<lparr>strategy := ConsistentHash (fold bt_remove keys_to_remove ring) virtual_nodes\<rparr>
           | Range ranges \<Rightarrow>
               let keys_to_remove = map fst (filter (\<lambda>e. snd e = shard_id) ranges)
               in m\<lparr>strategy := Range (fold bt_remove keys_to_remove ranges)\<rparr>)"

definition get_shard :: "crc_fn \<Rightarrow> string \<Rightarrow> ShardMap \<Rightarrow> ShardId option" where
  "get_shard crc key m =
     (case strategy m of
        ConsistentHash ring _ \<Rightarrow>
          if ring = [] then None
          else
            let hash = hash_key crc key;
                entry = (case bt_first (bt_range_from hash ring) of
                           None \<Rightarrow> bt_first ring | Some e \<Rightarrow> Some e)
            in map_option snd entry
      | Range ranges \<Rightarrow>
          if ranges = [] then None
          else map_option snd (bt_first (bt_range_from key ranges)))"

definition split_shard :: "string \<Rightarrow> ShardId \<Rightarrow> string list \<Rightarrow> ShardMap \<Rightarrow> bool \<times> ShardMap" where
  "split_shard split_key new_shard_id peers m =
     (case strategy m of
        Range ranges \<Rightarrow>
          if new_shard_id \<in> set (shards m) then (False, m)
          else if split_key \<in> fst ` set ranges then (False, m)
          else (case map_option fst (bt_first (bt_range_from split_key ranges)) of
                  Some _ \<Rightarrow>
                    (True, m\<lparr>strategy := Range (bt_insert split_key new_shard_id ranges),
                             shards := hs_insert new_shard_id (shards m),
                             shard_peers := hm_insert new_shard_id peers (shard_peers m)\<rparr>)
                | None \<Rightarrow> (False, m))
      | ConsistentHash _ _ \<Rightarrow> (False, m))"

text \<open>\<open>ranges.iter().find(|(_, sid)| sid == s).map(|(k, _)| k)\<close>.\<close>

definition range_key_of :: "ShardId \<Rightarrow> (string, ShardId) btreemap \<Rightarrow> string option" where
  "range_key_of s ranges = map_option fst (find (\<lambda>e. snd e = s) ranges)"

definition merge_ranges :: "string \<Rightarrow> ShardId \<Rightarrow> (string, ShardId) btreemap \<Rightarrow> (string, ShardId) btreemap" where
  "merge_ranges vk retained ranges =
     (let ranges = bt_remove vk ranges
      in if vk = max_key
         then let ranges = (case range_key_of retained ranges of
                              Some rk \<Rightarrow> bt_remove rk ranges | None \<Rightarrow> ranges)
              in bt_insert max_key retained ranges
         else ranges)"

definition merge_shards :: "ShardId \<Rightarrow> ShardId \<Rightarrow> ShardMap \<Rightarrow> bool \<times> ShardMap" where
  "merge_shards victim_shard_id retained_shard_id m =
     (case strategy m of
        Range ranges \<Rightarrow>
          if victim_shard_id \<notin> set (shards m) \<or> retained_shard_id \<notin> set (shards m)
          then (False, m)
          else (case range_key_of victim_shard_id ranges of
                  Some vk \<Rightarrow>
                    (True, m\<lparr>strategy := Range (merge_ranges vk retained_shard_id ranges),
                             shards := hs_remove victim_shard_id (shards m),
                             shard_peers := hm_remove victim_shard_id (shard_peers m)\<rparr>)
                | None \<Rightarrow> (False, m))
      | ConsistentHash _ _ \<Rightarrow> (False, m))"

definition rebalance_boundary :: "string \<Rightarrow> string \<Rightarrow> ShardMap \<Rightarrow> bool \<times> ShardMap" where
  "rebalance_boundary old_key new_key m =
     (case strategy m of
        Range ranges \<Rightarrow>
          (case map_of ranges old_key of
             Some shard_id \<Rightarrow>
               (True, m\<lparr>strategy := Range (bt_insert new_key shard_id (bt_remove old_key ranges))\<rparr>)
           | None \<Rightarrow> (False, m))
      | ConsistentHash _ _ \<Rightarrow> (False, m))"

fun neighbors_loop :: "ShardId \<Rightarrow> ShardId option \<Rightarrow> (string, ShardId) btreemap \<Rightarrow> ShardId option \<times> ShardId option" where
  "neighbors_loop shard_id prev [] = (None, None)"
| "neighbors_loop shard_id prev ((k, sid) # rest) =
     (if sid = shard_id then (prev, map_option snd (bt_first rest))
      else neighbors_loop shard_id (Some sid) rest)"

definition get_neighbors :: "ShardId \<Rightarrow> ShardMap \<Rightarrow> ShardId option \<times> ShardId option" where
  "get_neighbors shard_id m =
     (case strategy m of Range ranges \<Rightarrow> neighbors_loop shard_id None ranges
      | ConsistentHash _ _ \<Rightarrow> (None, None))"

definition get_all_shards :: "ShardMap \<Rightarrow> ShardId list" where
  "get_all_shards m = shards m"

definition get_shard_peers :: "ShardId \<Rightarrow> ShardMap \<Rightarrow> string list option" where
  "get_shard_peers shard_id m = hm_get (shard_peers m) shard_id"

definition get_all_masters :: "ShardMap \<Rightarrow> string list" where
  "get_all_masters m = fold (\<lambda>peers masters. fold hs_insert peers masters) (hm_values (shard_peers m)) []"

definition new :: "usize \<Rightarrow> ShardMap" where
  "new virtual_nodes = new_consistent_hash virtual_nodes"

text \<open>\<open>ShardConfig\<close> and the loading of the initial map. Reading and parsing the file is a
  parameter: \<open>from_file\<close> gives the parsed shards, or \<open>None\<close> on an error.\<close>

type_synonym ShardConfig = "(ShardId, string list) hashmap"

definition to_shard_map :: "crc_fn \<Rightarrow> ShardConfig \<Rightarrow> ShardMap" where
  "to_shard_map crc config =
     fold (\<lambda>(shard_id, peers). add_shard crc shard_id peers) (sort_key fst config) new_range"

definition load_shard_map_from_config ::
    "(string \<Rightarrow> ShardConfig option) \<Rightarrow> crc_fn \<Rightarrow> string option \<Rightarrow> usize \<Rightarrow> ShardMap" where
  "load_shard_map_from_config from_file crc path virtual_nodes =
     (case path of
        None \<Rightarrow> new virtual_nodes
      | Some p \<Rightarrow> (case from_file p of
                    Some config \<Rightarrow> to_shard_map crc config
                  | None \<Rightarrow> new virtual_nodes))"

subsection \<open>Routing and the invariant\<close>

text \<open>The shards a strategy routes to.\<close>

definition routes :: "ShardMap \<Rightarrow> ShardId set" where
  "routes m = (case strategy m of ConsistentHash ring _ \<Rightarrow> snd ` set ring | Range ranges \<Rightarrow> snd ` set ranges)"

definition strategy_ok :: "ShardingStrategy \<Rightarrow> bool" where
  "strategy_ok s =
     (case s of ConsistentHash ring _ \<Rightarrow> bt_ok ring
      | Range ranges \<Rightarrow> bt_ok ranges \<and> distinct (map snd ranges))"

text \<open>The invariant of a shard map: the ordered map is ordered, a shard owns at most one range,
  the peer table has exactly the active shards, and every key is routed to an active shard.\<close>

definition shard_map_ok :: "ShardMap \<Rightarrow> bool" where
  "shard_map_ok m \<longleftrightarrow>
     strategy_ok (strategy m) \<and> distinct (shards m) \<and> hm_ok (shard_peers m) \<and>
     dom (hm_get (shard_peers m)) = set (shards m) \<and> routes m \<subseteq> set (shards m)"

text \<open>The ring entry a hash is routed to: the next entry clockwise, wrapping to the first.\<close>

definition ring_owner :: "u64 \<Rightarrow> (u64, ShardId) btreemap \<Rightarrow> (u64 \<times> ShardId) option" where
  "ring_owner h ring = (case bt_ceiling h ring of None \<Rightarrow> bt_first ring | Some e \<Rightarrow> Some e)"

lemma get_shard_Range:
  "strategy m = Range ranges \<Longrightarrow> get_shard crc key m = map_option snd (bt_ceiling key ranges)"
  by (simp add: get_shard_def bt_ceiling_def bt_range_from_def bt_first_def)

lemma get_shard_ConsistentHash:
  "strategy m = ConsistentHash ring vn \<Longrightarrow>
     get_shard crc key m = map_option snd (ring_owner (hash_key crc key) ring)"
  by (simp add: get_shard_def ring_owner_def bt_ceiling_def bt_range_from_def bt_first_def)

lemmas get_shard_simps = get_shard_Range get_shard_ConsistentHash

lemma ring_owner_Some: "ring \<noteq> [] \<Longrightarrow> ring_owner h ring \<noteq> None"
  by (cases "bt_ceiling h ring"; cases ring) (simp_all add: ring_owner_def bt_first_def)

lemma ring_owner_mem: "ring_owner h ring = Some e \<Longrightarrow> e \<in> set ring"
  by (auto simp: ring_owner_def bt_first_def split: option.splits list.splits dest: bt_ceiling_mem)

lemma get_shard_in_routes: "get_shard crc key m = Some s \<Longrightarrow> s \<in> routes m"
  by (cases "strategy m")
    (auto simp: get_shard_simps routes_def intro!: rev_image_eqI dest: ring_owner_mem bt_ceiling_mem)

lemma shard_map_okI:
  assumes "strategy_ok (strategy m)" "distinct (shards m)" "hm_ok (shard_peers m)"
    "dom (hm_get (shard_peers m)) = set (shards m)" "routes m \<subseteq> set (shards m)"
  shows "shard_map_ok m"
  using assms by (simp add: shard_map_ok_def)

lemma new_range_ok [simp, inv_intros]: "shard_map_ok new_range"
  by (simp add: new_range_def shard_map_ok_def strategy_ok_def routes_def)

lemma new_consistent_hash_ok [simp, inv_intros]: "shard_map_ok (new_consistent_hash vn)"
  by (simp add: new_consistent_hash_def shard_map_ok_def strategy_ok_def routes_def)

subsection \<open>Adding a shard\<close>

lemma bt_ok_add_virtual_nodes [simp]: "bt_ok ring \<Longrightarrow> bt_ok (add_virtual_nodes crc s is ring)"
  by (induction crc s "is" ring rule: add_virtual_nodes.induct) auto

lemma set_add_virtual_nodes:
  "bt_ok ring \<Longrightarrow> snd ` set (add_virtual_nodes crc s is ring) \<subseteq> insert s (snd ` set ring)"
proof (induction crc s "is" ring rule: add_virtual_nodes.induct)
  case (2 crc s i "is" ring)
  then show ?case
    by (force simp: set_bt_insert)
qed auto

lemma distinct_values_bt_insert:
  assumes "bt_ok m" "distinct (map snd m)" "v \<notin> snd ` set m"
  shows "distinct (map snd (bt_insert k v m))"
  using assms
proof (induction k v m rule: bt_insert.induct)
  case (2 k v k' v' m)
  have "snd ` set (bt_insert k v m) \<subseteq> insert v (snd ` set m)"
    using 2 by (auto simp: set_bt_insert)
  with 2 show ?case by auto
qed simp

lemma distinct_filter_values [simp]: "distinct (map snd m) \<Longrightarrow> distinct (map snd (filter P m))"
  by (rule distinct_map_filter)

lemma range_ok_add_range:
  assumes "bt_ok ranges" "distinct (map snd ranges)" "s \<notin> snd ` set ranges"
  shows "bt_ok (add_range s ranges) \<and> distinct (map snd (add_range s ranges)) \<and>
    snd ` set (add_range s ranges) \<subseteq> insert s (snd ` set ranges)"
proof -
  have *: "bt_ok (bt_insert k v m) \<and> distinct (map snd (bt_insert k v m)) \<and>
      snd ` set (bt_insert k v m) \<subseteq> insert v (snd ` set m)"
    if "bt_ok m" "distinct (map snd m)" "v \<notin> snd ` set m" for k v and m :: "(string, ShardId) btreemap"
    using that by (auto simp: distinct_values_bt_insert set_bt_insert)
  show ?thesis
  proof (cases ranges)
    case Nil
    then show ?thesis by (simp add: add_range_def)
  next
    case (Cons e rest)
    show ?thesis
    proof (cases rest)
      case Nil
      with Cons assms show ?thesis
        using * [of "bt_insert ''/m'' s []" "snd e"] by (cases e) (auto simp: add_range_def)
    next
      case (Cons e' rest')
      with \<open>ranges = e # rest\<close> assms * [of ranges s] show ?thesis
        by (cases e) (auto simp: add_range_def)
    qed
  qed
qed

lemma add_shard_ok [inv_intros]:
  assumes "shard_map_ok m"
  shows "shard_map_ok (add_shard crc s peers m)"
proof (cases "s \<in> set (shards m)")
  case True
  with assms show ?thesis
    by (auto simp: add_shard_def shard_map_ok_def routes_def)
next
  case new: False
  show ?thesis
  proof (cases "strategy m")
    case (ConsistentHash ring vn)
    with assms new have "bt_ok ring" "snd ` set ring \<subseteq> set (shards m)"
      by (auto simp: shard_map_ok_def strategy_ok_def routes_def)
    with set_add_virtual_nodes [of ring crc s "[0..<vn]"]
    have "snd ` set (add_virtual_nodes crc s [0..<vn] ring) \<subseteq> insert s (set (shards m))"
      by blast
    with ConsistentHash assms new show ?thesis
      by (simp add: add_shard_def shard_map_ok_def strategy_ok_def routes_def Let_def)
  next
    case (Range ranges)
    with assms new have "bt_ok ranges" "distinct (map snd ranges)" "s \<notin> snd ` set ranges"
      by (auto simp: shard_map_ok_def strategy_ok_def routes_def)
    from assms Range
    have "snd ` set ranges \<subseteq> set (shards m)" by (simp add: shard_map_ok_def routes_def)
    with range_ok_add_range [of ranges s] \<open>bt_ok ranges\<close> \<open>distinct (map snd ranges)\<close>
      \<open>s \<notin> snd ` set ranges\<close>
    have "bt_ok (add_range s ranges)" "distinct (map snd (add_range s ranges))"
      "snd ` set (add_range s ranges) \<subseteq> insert s (set (shards m))"
      by (simp_all, blast)
    with Range assms new show ?thesis
      by (simp add: add_shard_def shard_map_ok_def strategy_ok_def routes_def Let_def)
  qed
qed

lemma add_virtual_nodes_nonempty: "ring \<noteq> [] \<Longrightarrow> add_virtual_nodes crc s is ring \<noteq> []"
proof (induction crc s "is" ring rule: add_virtual_nodes.induct)
  case (2 crc s i "is" ring)
  then show ?case by (cases ring) auto
qed simp

lemma ring_owner_insert:
  assumes "bt_ok ring"
  shows "ring_owner h (bt_insert k v ring) = Some (k, v) \<or>
    ring_owner h (bt_insert k v ring) = ring_owner h ring"
  using bt_first_insert [of k v ring]
  by (auto simp: ring_owner_def bt_ceiling_insert [OF assms] split: option.splits)

lemma ring_owner_add_virtual_nodes:
  assumes "bt_ok ring" "ring_owner h (add_virtual_nodes crc s is ring) = Some e"
  shows "snd e = s \<or> ring_owner h ring = Some e"
  using assms
proof (induction crc s "is" ring rule: add_virtual_nodes.induct)
  case (2 crc s i "is" ring)
  then show ?case
    using ring_owner_insert [of ring h "hash_key crc (s @ '':'' @ string_of_nat i)" s] by fastforce
qed auto

subsection \<open>Removing a shard\<close>

lemma remove_shard_strategy:
  assumes "shard_map_ok m" "s \<in> set (shards m)"
  shows "strategy (remove_shard s m) =
    (case strategy m of
       ConsistentHash ring vn \<Rightarrow> ConsistentHash (filter (\<lambda>e. snd e \<noteq> s) ring) vn
     | Range ranges \<Rightarrow> Range (filter (\<lambda>e. snd e \<noteq> s) ranges))"
  using assms
  by (auto simp: remove_shard_def shard_map_ok_def strategy_ok_def Let_def fold_bt_remove_values
      split: ShardingStrategy.splits)

lemma remove_shard_shards:
  "set (shards (remove_shard s m)) = set (shards m) - {s}"
  by (auto simp: remove_shard_def Let_def split: ShardingStrategy.splits)

lemma remove_shard_peers:
  "s \<in> set (shards m) \<Longrightarrow> shard_peers (remove_shard s m) = hm_remove s (shard_peers m)"
  by (auto simp: remove_shard_def Let_def split: ShardingStrategy.splits)

lemma remove_shard_ok [inv_intros]:
  assumes "shard_map_ok m"
  shows "shard_map_ok (remove_shard s m)"
proof (cases "s \<in> set (shards m)")
  case True
  have "distinct (shards (remove_shard s m))"
    using assms by (auto simp: remove_shard_def shard_map_ok_def Let_def distinct_removeAll
        split: ShardingStrategy.splits)
  with True assms show ?thesis
    by (intro shard_map_okI)
      (auto simp: remove_shard_strategy remove_shard_shards remove_shard_peers shard_map_ok_def
        strategy_ok_def routes_def split: ShardingStrategy.splits)
next
  case False
  with assms show ?thesis by (simp add: remove_shard_def)
qed

lemma bt_first_filter: "bt_first m = Some e \<Longrightarrow> P e \<Longrightarrow> bt_first (filter P m) = Some e"
  by (auto simp: bt_first_def split: list.splits)

lemma ring_owner_filter:
  assumes "bt_ok ring" "ring_owner h ring = Some e" "P e"
  shows "ring_owner h (filter P ring) = Some e"
proof (cases "bt_ceiling h ring")
  case None
  then have "bt_ceiling h (filter P ring) = None" by (auto simp: bt_ceiling_None_iff)
  with None assms show ?thesis by (auto simp: ring_owner_def bt_first_filter)
next
  case (Some e')
  with assms bt_ceiling_filter [of ring h "fst e'" "snd e'" P] show ?thesis
    by (auto simp: ring_owner_def)
qed

subsection \<open>Splitting and merging ranges\<close>

lemma split_shard_True:
  assumes "split_shard k s peers m = (True, m')"
  obtains ranges where "strategy m = Range ranges" "s \<notin> set (shards m)" "k \<notin> fst ` set ranges"
    "bt_ceiling k ranges \<noteq> None"
    "m' = m\<lparr>strategy := Range (bt_insert k s ranges), shards := hs_insert s (shards m),
            shard_peers := hm_insert s peers (shard_peers m)\<rparr>"
  using assms
  by (auto simp: split_shard_def bt_ceiling_def bt_range_from_def bt_first_def
      split: ShardingStrategy.splits if_splits option.splits list.splits)

lemma split_shard_ok [inv_intros]:
  assumes "shard_map_ok m"
  shows "shard_map_ok (snd (split_shard k s peers m))"
proof (cases "split_shard k s peers m")
  case (Pair b m')
  show ?thesis
  proof (cases b)
    case True
    with Pair obtain ranges where r: "strategy m = Range ranges" "s \<notin> set (shards m)"
      "m' = m\<lparr>strategy := Range (bt_insert k s ranges), shards := hs_insert s (shards m),
              shard_peers := hm_insert s peers (shard_peers m)\<rparr>"
      by (auto elim: split_shard_True)
    with assms have "bt_ok ranges" "distinct (map snd ranges)" "snd ` set ranges \<subseteq> set (shards m)"
      by (auto simp: shard_map_ok_def strategy_ok_def routes_def)
    moreover from this r have "distinct (map snd (bt_insert k s ranges))"
      by (intro distinct_values_bt_insert) auto
    ultimately show ?thesis
      using assms r Pair by (auto simp: shard_map_ok_def strategy_ok_def routes_def set_bt_insert)
  next
    case False
    with Pair assms show ?thesis
      by (auto simp: split_shard_def split: ShardingStrategy.splits if_splits option.splits)
  qed
qed

lemma range_key_of_Some:
  assumes "range_key_of s ranges = Some k"
  obtains pre post where "ranges = pre @ (k, s) # post" "s \<notin> snd ` set pre"
proof -
  from assms obtain x where x: "find (\<lambda>e. snd e = s) ranges = Some x" "fst x = k"
    by (auto simp: range_key_of_def)
  then obtain i where i: "i < length ranges" "snd (ranges ! i) = s" "x = ranges ! i"
    "\<forall>j<i. snd (ranges ! j) \<noteq> s"
    by (auto simp: find_Some_iff)
  have "ranges = take i ranges @ (k, s) # drop (Suc i) ranges"
    using i x by (metis id_take_nth_drop prod.collapse)
  moreover have "s \<notin> snd ` set (take i ranges)"
    using i by (force simp: in_set_conv_nth)
  ultimately show ?thesis by (rule that)
qed

lemma range_key_of_None: "range_key_of s ranges = None \<longleftrightarrow> s \<notin> snd ` set ranges"
  by (force simp: range_key_of_def find_None_iff)

lemma merge_ranges_ok:
  assumes "bt_ok ranges" "distinct (map snd ranges)" "range_key_of v ranges = Some vk" "v \<noteq> r"
  shows "bt_ok (merge_ranges vk r ranges) \<and> distinct (map snd (merge_ranges vk r ranges)) \<and>
    snd ` set (merge_ranges vk r ranges) \<subseteq> insert r (snd ` set ranges) - {v}"
proof -
  define rest where "rest = bt_remove vk ranges"
  obtain pre post where pp: "ranges = pre @ (vk, v) # post"
    using assms(3) by (rule range_key_of_Some)
  have ok: "bt_ok rest" "distinct (map snd rest)"
    using assms by (auto simp: rest_def bt_remove_def)
  have "vk \<notin> fst ` set pre" "vk \<notin> fst ` set post"
    using bt_ok_distinct [OF assms(1)] by (auto simp: pp)
  then have "rest = pre @ post" by (simp add: rest_def pp bt_remove_append bt_remove_Cons bt_remove_id)
  with assms(2) have sub: "snd ` set rest \<subseteq> snd ` set ranges - {v}"
    by (auto simp: pp image_iff)
  define rest' where
    "rest' = (case range_key_of r rest of Some rk \<Rightarrow> bt_remove rk rest | None \<Rightarrow> rest)"
  have ok': "bt_ok rest'" "distinct (map snd rest')" and sub': "set rest' \<subseteq> set rest"
    using ok by (auto simp: rest'_def bt_remove_def split: option.splits)
  have "r \<notin> snd ` set rest'"
  proof (cases "range_key_of r rest")
    case None
    then show ?thesis by (simp add: rest'_def flip: range_key_of_None)
  next
    case (Some rk)
    then obtain p q where pq: "rest = p @ (rk, r) # q" by (rule range_key_of_Some)
    with ok(2) have "r \<notin> snd ` set p" "r \<notin> snd ` set q" by (auto simp: image_iff)
    with Some pq show ?thesis by (auto simp: rest'_def bt_remove_def)
  qed
  then have ins: "bt_ok (bt_insert max_key r rest')" "distinct (map snd (bt_insert max_key r rest'))"
    using ok' by (simp_all add: distinct_values_bt_insert)
  have "set (bt_insert max_key r rest') \<subseteq> insert (max_key, r) (set rest')"
    using ok' by (auto simp: set_bt_insert)
  then have "snd ` set (bt_insert max_key r rest') \<subseteq> insert r (snd ` set rest')" by force
  moreover have "snd ` set rest' \<subseteq> snd ` set rest" using sub' by (rule image_mono)
  ultimately have "snd ` set (bt_insert max_key r rest') \<subseteq> insert r (snd ` set ranges) - {v}"
    using sub assms(4) by blast
  moreover have "merge_ranges vk r ranges = (if vk = max_key then bt_insert max_key r rest' else rest)"
    by (simp only: merge_ranges_def Let_def rest'_def flip: rest_def)
  ultimately show ?thesis using ok ins subset_trans [OF sub Diff_mono [OF subset_insertI subset_refl]]
    by (cases "vk = max_key") (simp_all only: if_True if_False simp_thms)
qed

lemma merge_shards_True:
  assumes "merge_shards v r m = (True, m')"
  obtains ranges vk where "strategy m = Range ranges" "v \<in> set (shards m)" "r \<in> set (shards m)"
    "range_key_of v ranges = Some vk"
    "m' = m\<lparr>strategy := Range (merge_ranges vk r ranges), shards := hs_remove v (shards m),
            shard_peers := hm_remove v (shard_peers m)\<rparr>"
  using assms
  by (auto simp: merge_shards_def split: ShardingStrategy.splits if_splits option.splits)

lemma merge_shards_ok [inv_intros]:
  assumes "shard_map_ok m" "v \<noteq> r"
  shows "shard_map_ok (snd (merge_shards v r m))"
proof (cases "fst (merge_shards v r m)")
  case True
  then obtain ranges vk where r: "strategy m = Range ranges" "r \<in> set (shards m)"
    "range_key_of v ranges = Some vk"
    "snd (merge_shards v r m) = m\<lparr>strategy := Range (merge_ranges vk r ranges),
       shards := hs_remove v (shards m), shard_peers := hm_remove v (shard_peers m)\<rparr>"
    by (metis merge_shards_True prod.collapse)
  with assms merge_ranges_ok [of ranges v vk r]
  have "bt_ok (merge_ranges vk r ranges)" "distinct (map snd (merge_ranges vk r ranges))"
    "snd ` set (merge_ranges vk r ranges) \<subseteq> set (shards m) - {v}"
    by (auto simp: shard_map_ok_def strategy_ok_def routes_def)
  with r assms show ?thesis
    by (auto simp: shard_map_ok_def strategy_ok_def routes_def distinct_removeAll)
next
  case False
  with assms show ?thesis
    by (auto simp: merge_shards_def split: ShardingStrategy.splits if_splits option.splits)
qed

lemma rebalance_ranges_ok:
  assumes "bt_ok ranges" "distinct (map snd ranges)" "map_of ranges old = Some s"
  shows "distinct (map snd (bt_insert k s (bt_remove old ranges))) \<and>
    snd ` set (bt_insert k s (bt_remove old ranges)) \<subseteq> snd ` set ranges"
proof
  have mem: "(old, s) \<in> set ranges" using assms by (simp add: map_of_SomeD)
  have "s \<notin> snd ` set (bt_remove old ranges)"
    using assms mem by (force simp: bt_remove_def distinct_map inj_on_def)
  with assms show "distinct (map snd (bt_insert k s (bt_remove old ranges)))"
    by (intro distinct_values_bt_insert) (simp_all add: bt_remove_def)
  have "set (bt_insert k s (bt_remove old ranges)) \<subseteq> insert (k, s) (set ranges)"
    using assms by (auto simp: set_bt_insert bt_remove_def)
  then have "snd ` set (bt_insert k s (bt_remove old ranges)) \<subseteq> insert s (snd ` set ranges)"
    by force
  moreover have "s \<in> snd ` set ranges" using mem by force
  ultimately show "snd ` set (bt_insert k s (bt_remove old ranges)) \<subseteq> snd ` set ranges"
    by blast
qed

lemma rebalance_boundary_ok [inv_intros]:
  assumes "shard_map_ok m"
  shows "shard_map_ok (snd (rebalance_boundary old_key new_key m))"
proof (cases "fst (rebalance_boundary old_key new_key m)")
  case True
  then obtain ranges s where r: "strategy m = Range ranges" "map_of ranges old_key = Some s"
    "snd (rebalance_boundary old_key new_key m) =
       m\<lparr>strategy := Range (bt_insert new_key s (bt_remove old_key ranges))\<rparr>"
    by (auto simp: rebalance_boundary_def split: ShardingStrategy.splits option.splits)
  with assms have ok: "bt_ok ranges" "distinct (map snd ranges)" "snd ` set ranges \<subseteq> set (shards m)"
    by (auto simp: shard_map_ok_def strategy_ok_def routes_def)
  show ?thesis
    using assms ok rebalance_ranges_ok [OF ok(1,2) r(2), of new_key]
    by (intro shard_map_okI)
      (simp_all add: r shard_map_ok_def strategy_ok_def routes_def, blast)
next
  case False
  with assms show ?thesis
    by (auto simp: rebalance_boundary_def split: ShardingStrategy.splits option.splits)
qed

subsection \<open>Ranges as lists of boundaries\<close>

lemma neighbors_loop_append:
  assumes "s \<notin> snd ` set pre"
  shows "neighbors_loop s p (pre @ (k, s) # post) =
    (if pre = [] then p else Some (snd (last pre)), map_option snd (bt_first post))"
  using assms
proof (induction pre arbitrary: p)
  case (Cons e pre)
  then show ?case by (cases e) auto
qed simp

lemma get_neighbors_Range:
  assumes "strategy m = Range ranges" "ranges = pre @ (k, s) # post" "s \<notin> snd ` set pre"
  shows "get_neighbors s m =
    (if pre = [] then None else Some (snd (last pre)), map_option snd (bt_first post))"
  using assms by (simp add: get_neighbors_def neighbors_loop_append)

text \<open>Deleting the boundary of a shard hands its keys to the shard of the next boundary.\<close>

lemma bt_ceiling_delete_boundary:
  assumes "bt_ok (pre @ (k, s) # post)" "distinct (map snd (pre @ (k, s) # post))"
  shows "map_option snd (bt_ceiling x (pre @ post)) =
    (if map_option snd (bt_ceiling x (pre @ (k, s) # post)) = Some s
     then map_option snd (bt_first post)
     else map_option snd (bt_ceiling x (pre @ (k, s) # post)))"
proof (cases "bt_ceiling x pre")
  case None
  show ?thesis
  proof (cases "x \<le> k")
    case True
    with assms(1) have "bt_ceiling x post = bt_first post"
      by (cases post) (auto simp: bt_ok_append bt_ok_Cons bt_first_def)
    with None True show ?thesis by (simp add: bt_ceiling_append)
  next
    case False
    have "snd e \<noteq> s" if "bt_ceiling x post = Some e" for e
      using bt_ceiling_mem [OF that] assms(2) by auto
    with None False show ?thesis by (auto simp: bt_ceiling_append)
  qed
next
  case (Some e)
  with bt_ceiling_mem [OF this] assms(2) show ?thesis
    by (auto simp: bt_ceiling_append)
qed

lemma bt_remove_boundary:
  assumes "bt_ok (pre @ (k, s) # post)"
  shows "bt_remove k (pre @ (k, s) # post) = pre @ post"
proof -
  have "k \<notin> fst ` set pre" "k \<notin> fst ` set post"
    using bt_ok_distinct [OF assms] by auto
  then show ?thesis by (simp add: bt_remove_append bt_remove_Cons bt_remove_id)
qed

lemma merge_shards_routing_not_last:
  assumes ok: "shard_map_ok m"
    and r: "strategy m = Range ranges" "range_key_of v ranges = Some vk" "vk \<noteq> max_key"
    and m': "strategy m' = Range (merge_ranges vk r ranges)"
  shows "get_shard crc x m' =
    (if get_shard crc x m = Some v then snd (get_neighbors v m) else get_shard crc x m)"
proof -
  obtain pre post where pp: "ranges = pre @ (vk, v) # post" "v \<notin> snd ` set pre"
    using r(2) by (rule range_key_of_Some)
  have ok': "bt_ok ranges" "distinct (map snd ranges)"
    using ok r by (auto simp: shard_map_ok_def strategy_ok_def)
  have "merge_ranges vk r ranges = pre @ post"
    using r(3) bt_remove_boundary [OF ok'(1) [unfolded pp(1)]] by (simp add: merge_ranges_def pp(1))
  then show ?thesis
    using bt_ceiling_delete_boundary [OF ok' [unfolded pp(1)], of x] get_neighbors_Range [OF r(1) pp]
    by (simp add: get_shard_Range [OF r(1)] get_shard_Range [OF m'] pp(1))
qed

lemma range_key_of_append:
  "s \<notin> snd ` set pre \<Longrightarrow> range_key_of s (pre @ (k, s) # post) = Some k"
  by (induction pre) (auto simp: range_key_of_def)

lemma merge_ranges_last:
  assumes "bt_ok (pre @ (rk, r) # (max_key, v) # post)"
    "distinct (map snd (pre @ (rk, r) # (max_key, v) # post))"
  shows "merge_ranges max_key r (pre @ (rk, r) # (max_key, v) # post) =
    bt_insert max_key r (pre @ post)"
proof -
  have 1: "bt_remove max_key (pre @ (rk, r) # (max_key, v) # post) = pre @ (rk, r) # post"
    using bt_remove_boundary [of "pre @ [(rk, r)]" max_key v post] assms(1) by simp
  have ok: "bt_ok (pre @ (rk, r) # post)" "distinct (map snd (pre @ (rk, r) # post))"
    using assms by (auto simp: bt_ok_append bt_ok_Cons)
  then have "r \<notin> snd ` set pre" by auto
  with 1 ok show ?thesis by (simp add: merge_ranges_def bt_remove_boundary range_key_of_append)
qed

lemma get_neighbors_prev:
  assumes "strategy m = Range ranges" "range_key_of v ranges = Some vk"
    "fst (get_neighbors v m) = Some r"
  obtains pre rk post where "ranges = pre @ (rk, r) # (vk, v) # post"
proof -
  obtain pre post where pp: "ranges = pre @ (vk, v) # post" "v \<notin> snd ` set pre"
    using assms(2) by (rule range_key_of_Some)
  with assms get_neighbors_Range [OF assms(1) pp] have "pre \<noteq> []" "snd (last pre) = r"
    by (auto split: if_splits)
  then have "ranges = butlast pre @ (fst (last pre), r) # (vk, v) # post"
    using pp(1) by (metis append.assoc append_Cons append_Nil append_butlast_last_id prod.collapse)
  then show ?thesis by (rule that)
qed

lemma merge_shards_routing_last:
  assumes ok: "shard_map_ok m"
    and r: "strategy m = Range ranges" "range_key_of v ranges = Some max_key"
    and nb: "fst (get_neighbors v m) = Some r"
    and m': "strategy m' = Range (merge_ranges max_key r ranges)"
  shows "get_shard crc x m' = (if get_shard crc x m = Some v then Some r else get_shard crc x m)"
proof -
  obtain pre rk post where pp: "ranges = pre @ (rk, r) # (max_key, v) # post"
    using get_neighbors_prev [OF r nb] .
  have ok': "bt_ok ranges" "distinct (map snd ranges)"
    using ok r by (auto simp: shard_map_ok_def strategy_ok_def)
  have new: "merge_ranges max_key r ranges = bt_insert max_key r (pre @ post)"
    using merge_ranges_last ok' by (simp add: pp)
  have get: "get_shard crc x m = map_option snd (bt_ceiling x (pre @ (rk, r) # (max_key, v) # post))"
    "get_shard crc x m' = map_option snd (bt_ceiling x (bt_insert max_key r (pre @ post)))"
    using get_shard_Range [OF r(1)] get_shard_Range [OF m'] by (simp_all add: new) (simp add: pp)
  have okpp: "bt_ok (pre @ post)" using ok'(1) by (auto simp: pp bt_ok_append bt_ok_Cons)
  have post: "\<forall>e \<in> set post. max_key < fst e" using ok'(1) by (auto simp: pp bt_ok_append bt_ok_Cons)
  have rk: "rk < max_key" using ok'(1) by (auto simp: pp bt_ok_append bt_ok_Cons)
  show ?thesis
  proof (cases "bt_ceiling x pre")
    case None
    show ?thesis
    proof (cases "x \<le> max_key")
      case True
      then have "bt_ceiling x (bt_insert max_key r (pre @ post)) = Some (max_key, r)"
        using None post by (fastforce simp: bt_ceiling_insert' [OF okpp] bt_ceiling_append
            dest!: bt_ceiling_mem)
      with None True rk show ?thesis
        by (auto simp: get bt_ceiling_append)
    next
      case False
      have "snd e \<noteq> v" if "bt_ceiling x post = Some e" for e
        using bt_ceiling_mem [OF that] ok'(2) by (auto simp: pp)
      with None False rk show ?thesis
        by (auto simp: get bt_ceiling_append
            bt_ceiling_insert' [OF okpp])
    qed
  next
    case (Some e)
    with bt_ceiling_mem [OF this] ok'(1,2) have "snd e \<noteq> v" "fst e < max_key"
      by (auto simp: pp bt_ok_append bt_ok_Cons)
    with Some show ?thesis
      by (cases e) (auto simp: get bt_ceiling_append
          bt_ceiling_insert' [OF okpp])
  qed
qed

subsection \<open>Properties\<close>


text \<open>A three-way range map, as a concrete input.\<close>

definition example_map :: ShardMap where
  "example_map =
     \<lparr>strategy = Range [(''/g'', ''a''), (''/p'', ''b''), (max_key, ''c'')],
      shards = [''a'', ''b'', ''c''],
      shard_peers = [(''a'', [''h1'']), (''b'', [''h2'']), (''c'', [''h3''])]\<rparr>"

lemma shard_map_ok_code [code]:
  "shard_map_ok m \<longleftrightarrow>
     strategy_ok (strategy m) \<and> distinct (shards m) \<and> hm_ok (shard_peers m) \<and>
     fst ` set (shard_peers m) = set (shards m) \<and> routes m \<subseteq> set (shards m)"
  by (simp add: shard_map_ok_def dom_map_of_conv_image_fst)

lemma example_map_ok: "shard_map_ok example_map"
  by code_simp


text \<open>The boundary a shard owns.\<close>

definition boundary_of :: "ShardId \<Rightarrow> ShardMap \<Rightarrow> string option" where
  "boundary_of s m = (case strategy m of Range ranges \<Rightarrow> range_key_of s ranges | ConsistentHash _ _ \<Rightarrow> None)"

text \<open>C5. Merging into the right neighbour: if the retained shard is the successor of the victim, or its
  predecessor where the victim owns the last range, then after a successful \<open>merge_shards\<close> the retained
  shard owns exactly what the two owned before, and every other key keeps its shard.\<close>

theorem merge_shards_routing:
  assumes "shard_map_ok m" "merge_shards v r m = (True, m')"
    and "if boundary_of v m = Some max_key then fst (get_neighbors v m) = Some r
         else snd (get_neighbors v m) = Some r"
  shows "get_shard crc x m' = (if get_shard crc x m = Some v then Some r else get_shard crc x m)"
proof -
  obtain ranges vk where r: "strategy m = Range ranges" "range_key_of v ranges = Some vk"
    and m': "strategy m' = Range (merge_ranges vk r ranges)"
    using assms(2) by (auto elim!: merge_shards_True)
  show ?thesis
  proof (cases "vk = max_key")
    case True
    with r assms(3) have "fst (get_neighbors v m) = Some r" by (simp add: boundary_of_def)
    from merge_shards_routing_last [OF assms(1) r [unfolded True] this m' [unfolded True]]
    show ?thesis .
  next
    case False
    with r assms(3) have "snd (get_neighbors v m) = Some r" by (simp add: boundary_of_def)
    with merge_shards_routing_not_last [OF assms(1) r False m'] show ?thesis by simp
  qed
qed

theorem merge_shards_routing_witness:
  "get_shard length ''/h'' (snd (merge_shards ''b'' ''c'' example_map)) = Some ''c'' \<and>
   get_shard length ''/a'' (snd (merge_shards ''b'' ''c'' example_map)) = Some ''a''"
proof -
  have 1: "merge_shards ''b'' ''c'' example_map = (True, snd (merge_shards ''b'' ''c'' example_map))"
    by code_simp
  have 2: "if boundary_of ''b'' example_map = Some max_key
    then fst (get_neighbors ''b'' example_map) = Some ''c''
    else snd (get_neighbors ''b'' example_map) = Some ''c''" by code_simp
  have 3: "get_shard length ''/h'' example_map = Some ''b''"
    "get_shard length ''/a'' example_map = Some ''a''" by code_simp+
  show ?thesis
    using merge_shards_routing [OF example_map_ok 1 2, of length "''/h''"]
      merge_shards_routing [OF example_map_ok 1 2, of length "''/a''"] 3 by simp
qed



text \<open>C6. Removing a shard moves only the keys that shard owned, whatever the strategy: a key routed to
  another shard stays there, and no key is routed to the removed shard any more.\<close>

theorem remove_shard_stable:
  assumes "shard_map_ok m"
  shows "get_shard crc x (remove_shard s m) \<noteq> Some s \<and>
    (get_shard crc x m \<noteq> None \<longrightarrow> get_shard crc x m \<noteq> Some s \<longrightarrow>
       get_shard crc x (remove_shard s m) = get_shard crc x m)"
proof
  have "s \<notin> routes (remove_shard s m)"
    using remove_shard_ok [OF assms, of s] remove_shard_shards [of s m] by (auto simp: shard_map_ok_def)
  then show "get_shard crc x (remove_shard s m) \<noteq> Some s" by (auto dest: get_shard_in_routes)
  have "get_shard crc x (remove_shard s m) = Some t" if t: "get_shard crc x m = Some t" "t \<noteq> s" for t
  proof (cases "s \<in> set (shards m)")
    case in_map: True
    show ?thesis
    proof (cases "strategy m")
      case (ConsistentHash ring vn)
      with t assms obtain e where "ring_owner (hash_key crc x) ring = Some e" "snd e = t" "bt_ok ring"
        by (auto simp: get_shard_simps shard_map_ok_def strategy_ok_def)
      with t ring_owner_filter [of ring "hash_key crc x" e "\<lambda>e. snd e \<noteq> s"] show ?thesis
        using remove_shard_strategy [OF assms in_map] by (simp add: ConsistentHash get_shard_ConsistentHash)
    next
      case (Range ranges)
      with t assms obtain b where "bt_ceiling x ranges = Some (b, t)" "bt_ok ranges"
        by (auto simp: get_shard_simps shard_map_ok_def strategy_ok_def)
      with t bt_ceiling_filter [of ranges x b t "\<lambda>e. snd e \<noteq> s"] show ?thesis
        using remove_shard_strategy [OF assms in_map] by (simp add: Range get_shard_Range)
    qed
  qed (use t in \<open>simp add: remove_shard_def\<close>)
  then show "get_shard crc x m \<noteq> None \<longrightarrow> get_shard crc x m \<noteq> Some s \<longrightarrow>
      get_shard crc x (remove_shard s m) = get_shard crc x m"
    by auto
qed

theorem remove_shard_stable_witness:
  "get_shard length ''/a'' (remove_shard ''b'' example_map) = Some ''a''"
proof -
  have "get_shard length ''/a'' example_map = Some ''a''" by code_simp
  with remove_shard_stable [OF example_map_ok, of length "''/a''" "''b''"] show ?thesis by simp
qed

text \<open>C7. Consistent hashing moves keys only to the new shard: after \<open>add_shard\<close> on a hash ring, each key
  is either on the new shard or where it was.\<close>

theorem add_shard_minimal_disruption:
  assumes "shard_map_ok m" "strategy m = ConsistentHash ring vn" "ring \<noteq> []"
  shows "get_shard crc x (add_shard crc s peers m) \<in> {Some s, get_shard crc x m}"
proof (cases "s \<in> set (shards m)")
  case True
  then show ?thesis by (simp add: add_shard_def get_shard_def)
next
  case False
  define ring' where "ring' = add_virtual_nodes crc s [0..<vn] ring"
  have ok: "bt_ok ring" using assms by (simp add: shard_map_ok_def strategy_ok_def)
  have st: "strategy (add_shard crc s peers m) = ConsistentHash ring' vn"
    using assms(2) False by (simp add: add_shard_def ring'_def)
  have "ring' \<noteq> []"
    using assms(3) by (simp add: ring'_def add_virtual_nodes_nonempty)
  then obtain e where e: "ring_owner (hash_key crc x) ring' = Some e"
    using ring_owner_Some by blast
  with ring_owner_add_virtual_nodes [OF ok e [unfolded ring'_def]] show ?thesis
    by (auto simp: ring'_def get_shard_ConsistentHash [OF st] get_shard_ConsistentHash [OF assms(2)])
qed

theorem add_shard_minimal_disruption_witness:
  "get_shard length ''/a'' (add_shard length ''b'' [] (add_shard length ''a'' [] (new 2)))
     \<in> {Some ''b'', Some ''a''}"
proof -
  let ?m = "add_shard length ''a'' [] (new 2)"
  have ok: "shard_map_ok ?m" by (simp add: new_def add_shard_ok)
  have "strategy ?m = ConsistentHash [(3, ''a'')] 2" "get_shard length ''/a'' ?m = Some ''a''"
    by code_simp+
  with add_shard_minimal_disruption [OF ok, of "[(3, ''a'')]" 2 length "''/a''" "''b''" "[]"]
  show ?thesis by simp
qed

end
