(* ===== verification/ConfigState.thy ===== *)
theory ConfigState
  imports Complex_Main ShardMap
begin

section \<open>The replicated state of the config server (simple\_raft.rs, lines 358 to 403 and apply\_command)\<close>

text \<open>
  The shard map and the registered masters, and the effect of every config command when the Raft
  log applies it. \<open>now\<close> is the clock of the applying node in seconds; requests per second are
  rationals. The statements are about sequences of commands: which of them keep the map
  consistent, and which keep every path owned by some shard.
\<close>

record MasterInfo =
  mi_address :: string
  mi_shard_id :: string
  mi_last_heartbeat :: u64
  rps_per_prefix :: "(string, rat) hashmap"

record ConfigStateInner =
  shard_map :: ShardMap
  masters :: "(string, MasterInfo) hashmap"

datatype ConfigCommand =
    AddShard string "string list"
  | RemoveShard string
  | CfgSplitShard string string string "string list"
  | CfgMergeShard string string
  | RebalanceShard string string
  | RegisterMaster string string
  | ShardHeartbeat string "(string, rat) hashmap"

definition apply_register_master :: "crc_fn \<Rightarrow> u64 \<Rightarrow> string \<Rightarrow> string \<Rightarrow> ConfigStateInner \<Rightarrow> ConfigStateInner" where
  "apply_register_master crc now addr shard_id s =
     (let s = (if \<not> has_shard shard_id (shard_map s)
               then s\<lparr>shard_map := add_shard crc shard_id [addr] (shard_map s)\<rparr>
               else let peers = (case get_peers shard_id (shard_map s) of Some p \<Rightarrow> p | None \<Rightarrow> [])
                    in if addr \<notin> set peers
                       then s\<lparr>shard_map := add_shard crc shard_id (peers @ [addr]) (shard_map s)\<rparr>
                       else s)
      in s\<lparr>masters := hm_insert addr
             \<lparr>mi_address = addr, mi_shard_id = shard_id, mi_last_heartbeat = now, rps_per_prefix = []\<rparr>
             (masters s)\<rparr>)"

fun apply_config_command :: "crc_fn \<Rightarrow> u64 \<Rightarrow> ConfigCommand \<Rightarrow> ConfigStateInner \<Rightarrow> ConfigStateInner" where
  "apply_config_command crc now (AddShard shard_id peers) s =
     s\<lparr>shard_map := add_shard crc shard_id peers (shard_map s)\<rparr>"
| "apply_config_command crc now (RemoveShard shard_id) s =
     s\<lparr>shard_map := remove_shard shard_id (shard_map s)\<rparr>"
| "apply_config_command crc now (CfgSplitShard _ split_key new_shard_id peers) s =
     s\<lparr>shard_map := snd (split_shard split_key new_shard_id peers (shard_map s))\<rparr>"
| "apply_config_command crc now (CfgMergeShard victim retained) s =
     s\<lparr>shard_map := snd (merge_shards victim retained (shard_map s))\<rparr>"
| "apply_config_command crc now (RebalanceShard old_key new_key) s =
     s\<lparr>shard_map := snd (rebalance_boundary old_key new_key (shard_map s))\<rparr>"
| "apply_config_command crc now (RegisterMaster addr shard_id) s =
     apply_register_master crc now addr shard_id s"
| "apply_config_command crc now (ShardHeartbeat addr rps) s =
     s\<lparr>masters := hm_modify addr (\<lambda>i. i\<lparr>mi_last_heartbeat := now, rps_per_prefix := rps\<rparr>) (masters s)\<rparr>"

subsection \<open>The shard map under commands\<close>

definition config_state_ok :: "ConfigStateInner \<Rightarrow> bool" where
  "config_state_ok s \<longleftrightarrow> shard_map_ok (shard_map s) \<and> hm_ok (masters s)"

text \<open>A merge of a shard into itself is the one command that breaks the map.\<close>

fun config_command_ok :: "ConfigCommand \<Rightarrow> bool" where
  "config_command_ok (CfgMergeShard victim retained) = (victim \<noteq> retained)"
| "config_command_ok _ = True"

lemma apply_config_command_ok [inv_intros]:
  assumes "config_state_ok s" "config_command_ok c"
  shows "config_state_ok (apply_config_command crc now c s)"
  using assms
  by (cases c) (auto simp: config_state_ok_def apply_register_master_def Let_def add_shard_ok
      remove_shard_ok split_shard_ok merge_shards_ok rebalance_boundary_ok)

text \<open>Every key up to the largest boundary is owned: the last range is there.\<close>

definition covers :: "ShardMap \<Rightarrow> bool" where
  "covers m = (case strategy m of Range ranges \<Rightarrow> max_key \<in> fst ` set ranges | ConsistentHash _ _ \<Rightarrow> False)"

lemma covers_owned:
  assumes "covers m" "x \<le> max_key"
  shows "get_shard crc x m \<noteq> None"
proof -
  obtain ranges where r: "strategy m = Range ranges" "max_key \<in> fst ` set ranges"
    using assms(1) by (auto simp: covers_def split: ShardingStrategy.splits)
  obtain e where "e \<in> set ranges" "fst e = max_key" using r(2) by auto
  then have "bt_ceiling x ranges \<noteq> None"
    using assms(2) bt_ceiling_None_iff [of x ranges] by (metis not_less)
  then show ?thesis by (simp add: get_shard_Range [OF r(1)])
qed

lemma add_range_covers:
  assumes "ranges = [] \<or> max_key \<in> fst ` set ranges"
  shows "max_key \<in> fst ` set (add_range s ranges)"
  using assms
  by (auto simp: add_range_def keys_bt_insert simp del: bt_insert.simps split: list.splits)

lemma add_shard_covers:
  assumes "covers m \<or> m = new_range"
  shows "covers (add_shard crc s peers m)"
proof (cases "s \<in> set (shards m)")
  case True
  with assms show ?thesis by (auto simp: add_shard_def covers_def new_range_def)
next
  case False
  obtain ranges where r: "strategy m = Range ranges" "ranges = [] \<or> max_key \<in> fst ` set ranges"
    using assms by (auto simp: covers_def new_range_def split: ShardingStrategy.splits)
  from add_range_covers [OF r(2)] r(1) False show ?thesis
    by (simp add: add_shard_def covers_def)
qed

lemma split_shard_covers: "covers m \<Longrightarrow> covers (snd (split_shard k s peers m))"
  by (auto simp: split_shard_def covers_def keys_bt_insert split: ShardingStrategy.splits option.splits)

lemma merge_ranges_covers:
  assumes "max_key \<in> fst ` set ranges"
  shows "max_key \<in> fst ` set (merge_ranges vk r ranges)"
  using assms keys_bt_remove [of vk ranges] by (auto simp: merge_ranges_def Let_def keys_bt_insert)

lemma merge_shards_covers: "covers m \<Longrightarrow> covers (snd (merge_shards v r m))"
proof (cases "strategy m")
  case (Range ranges)
  assume "covers m"
  with Range have "max_key \<in> fst ` set ranges" by (simp add: covers_def)
  with Range merge_ranges_covers [of ranges] show ?thesis
    by (simp add: merge_shards_def covers_def split: option.splits)
qed (simp add: merge_shards_def)

lemma rebalance_boundary_covers:
  "covers m \<Longrightarrow> old_key \<noteq> max_key \<Longrightarrow> covers (snd (rebalance_boundary old_key new_key m))"
  by (auto simp: rebalance_boundary_def covers_def keys_bt_insert keys_bt_remove
      split: ShardingStrategy.splits option.splits)

text \<open>The commands that keep the last range: all but the removal of a shard and the move of the last
  boundary.\<close>

fun keeps_last_range :: "ConfigCommand \<Rightarrow> bool" where
  "keeps_last_range (RemoveShard _) = False"
| "keeps_last_range (RebalanceShard old_key _) = (old_key \<noteq> max_key)"
| "keeps_last_range _ = True"

lemma apply_config_command_covers:
  assumes "covers (shard_map s)" "keeps_last_range c"
  shows "covers (shard_map (apply_config_command crc now c s))"
  using assms
  by (cases c) (simp_all add: add_shard_covers split_shard_covers merge_shards_covers
      rebalance_boundary_covers apply_register_master_def Let_def)

definition apply_config_commands :: "crc_fn \<Rightarrow> (u64 \<times> ConfigCommand) list \<Rightarrow> ConfigStateInner \<Rightarrow> ConfigStateInner" where
  "apply_config_commands crc cs s = fold (\<lambda>(now, c). apply_config_command crc now c) cs s"

lemma apply_config_commands_ok:
  "config_state_ok s \<Longrightarrow> \<forall>c \<in> snd ` set cs. config_command_ok c \<Longrightarrow>
     config_state_ok (apply_config_commands crc cs s)"
  unfolding apply_config_commands_def
  by (induction cs arbitrary: s) (auto simp: apply_config_command_ok)

lemma apply_config_commands_covers:
  "covers (shard_map s) \<Longrightarrow> \<forall>c \<in> snd ` set cs. keeps_last_range c \<Longrightarrow>
     covers (shard_map (apply_config_commands crc cs s))"
  unfolding apply_config_commands_def
  by (induction cs arbitrary: s) (auto simp: apply_config_command_covers)

lemma ok_get_shard_peers:
  assumes "shard_map_ok m" "get_shard crc x m = Some sid"
  shows "\<exists>peers. get_shard_peers sid m = Some peers"
  using get_shard_in_routes [OF assms(2)] assms(1)
  by (auto simp: shard_map_ok_def get_shard_peers_def)

subsection \<open>Properties\<close>

text \<open>C8. Routing stays total under reconfiguration: from a consistent range map with a last range, any
  sequence of config commands that does not remove a shard, move the last boundary, or merge a shard
  into itself leaves every path with exactly one owner, which is an active shard with known peers.\<close>

theorem config_commands_keep_routing:
  assumes "config_state_ok s" "covers (shard_map s)"
    and "\<forall>c \<in> snd ` set cs. config_command_ok c \<and> keeps_last_range c" "x \<le> max_key"
  shows "\<exists>sid peers. get_shard crc x (shard_map (apply_config_commands crc cs s)) = Some sid \<and>
    get_shard_peers sid (shard_map (apply_config_commands crc cs s)) = Some peers"
proof -
  let ?m = "shard_map (apply_config_commands crc cs s)"
  have "shard_map_ok ?m"
    using apply_config_commands_ok [OF assms(1)] assms(3) by (simp add: config_state_ok_def)
  moreover have "get_shard crc x ?m \<noteq> None"
    using covers_owned [OF apply_config_commands_covers [OF assms(2)] assms(4)] assms(3) by blast
  ultimately show ?thesis using ok_get_shard_peers by blast
qed

theorem config_commands_keep_routing_witness:
  "\<exists>sid peers. get_shard length ''/h'' (shard_map (apply_config_commands length
       [(1, CfgSplitShard ''b'' ''/k'' ''d'' [''h4'']), (2, CfgMergeShard ''b'' ''c''), (3, RegisterMaster ''h5'' ''e'')]
       \<lparr>shard_map = example_map, masters = []\<rparr>)) = Some sid \<and>
     get_shard_peers sid (shard_map (apply_config_commands length
       [(1, CfgSplitShard ''b'' ''/k'' ''d'' [''h4'']), (2, CfgMergeShard ''b'' ''c''), (3, RegisterMaster ''h5'' ''e'')]
       \<lparr>shard_map = example_map, masters = []\<rparr>)) = Some peers"
proof (rule config_commands_keep_routing)
  show "config_state_ok \<lparr>shard_map = example_map, masters = []\<rparr>"
    using example_map_ok by (simp add: config_state_ok_def)
  show "covers (shard_map \<lparr>shard_map = example_map, masters = []\<rparr>)" by code_simp
  show "''/h'' \<le> max_key" by code_simp
qed simp

lemma shard_peers_add_shard:
  "shard_peers (add_shard crc s p m) = hm_insert s p (shard_peers m)"
  by (auto simp: add_shard_def Let_def split: ShardingStrategy.splits)

lemma to_shard_map_fold:
  assumes "shard_map_ok m"
  shows "shard_map_ok (fold (\<lambda>(s, p). add_shard crc s p) cfg m) \<and>
    shard_peers (fold (\<lambda>(s, p). add_shard crc s p) cfg m) = fold (\<lambda>(s, p). hm_insert s p) cfg (shard_peers m)"
  using assms
  by (induction cfg arbitrary: m) (simp_all add: case_prod_beta add_shard_ok shard_peers_add_shard)

lemma to_shard_map_covers:
  assumes "covers m \<or> m = new_range \<and> cfg \<noteq> []"
  shows "covers (fold (\<lambda>(s, p). add_shard crc s p) cfg m)"
  using assms
proof (induction cfg arbitrary: m)
  case (Cons e cfg)
  then have "covers (add_shard crc (fst e) (snd e) m)" by (intro add_shard_covers) auto
  with Cons.IH show ?case by (simp add: case_prod_beta)
qed simp

lemma get_fold_insert_pairs:
  assumes "distinct (map fst cfg)"
  shows "hm_get (fold (\<lambda>(s, p). hm_insert s p) cfg m) k =
    (case map_of cfg k of Some v \<Rightarrow> Some v | None \<Rightarrow> hm_get m k)"
  using assms
proof (induction cfg arbitrary: m)
  case (Cons e cfg)
  obtain s p where e: "e = (s, p)" by (cases e)
  with Cons.prems have "map_of cfg s = None" by (simp add: map_of_eq_None_iff)
  then show ?case using Cons by (simp add: e split: option.splits)
qed simp

text \<open>C9. The initial map of a shard configuration file is consistent and total: it has exactly the
  configured shards with their configured peers, and every path has an owner.\<close>

theorem to_shard_map_faithful:
  assumes "hm_ok config" "config \<noteq> []" "x \<le> max_key"
  shows "shard_map_ok (to_shard_map crc config) \<and>
    (\<forall>s. get_shard_peers s (to_shard_map crc config) = hm_get config s) \<and>
    get_shard crc x (to_shard_map crc config) \<noteq> None"
proof (intro conjI allI)
  let ?cfg = "sort_key fst config"
  have d: "distinct (map fst ?cfg)"
    using assms(1) by (metis hm_ok_def distinct_map distinct_sort set_sort)
  have fold: "to_shard_map crc config = fold (\<lambda>(s, p). add_shard crc s p) ?cfg new_range"
    by (simp add: to_shard_map_def)
  show "shard_map_ok (to_shard_map crc config)"
    using to_shard_map_fold [OF new_range_ok] by (simp add: fold)
  show "get_shard_peers s (to_shard_map crc config) = hm_get config s" for s
  proof -
    have "map_of ?cfg = hm_get config"
      using assms(1) map_of_inject_set [OF d, of config] by (simp add: hm_ok_def)
    then show ?thesis
      using to_shard_map_fold [OF new_range_ok, of crc ?cfg] get_fold_insert_pairs [OF d]
      by (simp add: fold get_shard_peers_def new_range_def split: option.splits)
  qed
  have "?cfg \<noteq> []" using assms(2) by (metis length_0_conv length_sort)
  then have "covers (to_shard_map crc config)"
    unfolding fold by (intro to_shard_map_covers) simp
  then show "get_shard crc x (to_shard_map crc config) \<noteq> None"
    using assms(3) by (rule covers_owned)
qed

theorem to_shard_map_faithful_witness:
  "get_shard_peers ''s2'' (to_shard_map length [(''s2'', [''h2'']), (''s1'', [''h1''])]) = Some [''h2'']"
proof -
  have "hm_ok [(''s2'', [''h2'']), (''s1'', [''h1''])]" "''/a'' \<le> max_key" by code_simp+
  from to_shard_map_faithful [OF this(1) _ this(2), of length] show ?thesis by simp
qed

end
