(* ===== verification/RaftConfig.thy ===== *)
theory RaftConfig
  imports Prelude
begin

section \<open>Cluster configurations (dfs/metaserver/src/simple_raft.rs, lines 70 to 252)\<close>

text \<open>
  The membership of a Raft group: simple and joint configurations, the majority test that elections
  and commits use, the state of a membership change, and the catch-up record of a server that is
  being added. The interface to the rest of Raft is the locale \<open>quorum_system\<close>: what makes two
  decisions exclusive is that the sets of nodes behind them share a node.
\<close>

type_synonym members = "(usize, string) hashmap"

datatype MembershipCommand =
    AddServer usize string
  | RemoveServer usize
  | AddServers members
  | RemoveServers "usize list"
  | BeginJointConsensus members members u64
  | FinalizeConfiguration members u64

datatype ClusterConfiguration =
    Simple members u64
  | Joint members members u64

fun all_members :: "ClusterConfiguration \<Rightarrow> members" where
  "all_members (Simple ms _) = ms"
| "all_members (Joint old_members new_members _) = fold (\<lambda>(k, v). hm_insert k v) new_members old_members"

text \<open>\<open>acks.iter().filter(|id| members.contains_key(id)).count()\<close>.\<close>

definition ack_count :: "usize set \<Rightarrow> members \<Rightarrow> nat" where
  "ack_count acks ms = card {i \<in> acks. hm_contains i ms}"

fun has_joint_majority :: "ClusterConfiguration \<Rightarrow> usize set \<Rightarrow> bool" where
  "has_joint_majority (Simple ms _) acks = (length ms div 2 < ack_count acks ms)"
| "has_joint_majority (Joint old_members new_members _) acks =
     (length old_members div 2 < ack_count acks old_members \<and>
      length new_members div 2 < ack_count acks new_members)"

fun config_version :: "ClusterConfiguration \<Rightarrow> u64" where
  "config_version (Simple _ v) = v"
| "config_version (Joint _ _ v) = v"

datatype ServerRole = Voting | NonVoting

record CatchUpProgress =
  cu_match_index :: usize
  rounds_caught_up :: usize
  added_at :: u64

definition CatchUpProgress_new :: "u64 \<Rightarrow> CatchUpProgress" where
  "CatchUpProgress_new current_time =
     \<lparr>cu_match_index = 0, rounds_caught_up = 0, added_at = current_time\<rparr>"

definition is_caught_up :: "CatchUpProgress \<Rightarrow> usize \<Rightarrow> bool" where
  "is_caught_up p leader_commit_index \<longleftrightarrow>
     leader_commit_index \<le> cu_match_index p \<and> 10 \<le> rounds_caught_up p"

definition update_progress :: "usize \<Rightarrow> CatchUpProgress \<Rightarrow> CatchUpProgress" where
  "update_progress new_match_index p =
     (if cu_match_index p < new_match_index
      then p\<lparr>cu_match_index := new_match_index, rounds_caught_up := rounds_caught_up p + 1\<rparr>
      else p)"

datatype ConfigChangeState =
    NoChange
  | AddingServers "(usize, string \<times> CatchUpProgress) hashmap" u64
  | InJointConsensus usize members
  | TransferringLeadership usize "usize list"

subsection \<open>Quorum systems\<close>

text \<open>The interface: quorums are upward closed, and quorums of compatible configurations intersect.\<close>

locale quorum_system =
  fixes quorum :: "'c \<Rightarrow> 'n set \<Rightarrow> bool"
    and compat :: "'c \<Rightarrow> 'c \<Rightarrow> bool"
  assumes quorum_mono: "quorum c A \<Longrightarrow> A \<subseteq> B \<Longrightarrow> quorum c B"
    and quorum_inter: "compat c c' \<Longrightarrow> quorum c A \<Longrightarrow> quorum c' B \<Longrightarrow> A \<inter> B \<noteq> {}"
    and compat_sym: "compat c c' \<Longrightarrow> compat c' c"
begin

text \<open>Where each node has at most one choice, two decisions agree.\<close>

lemma decision_unique:
  assumes "compat c c'" "quorum c A" "quorum c' B"
    and "\<And>n. n \<in> A \<Longrightarrow> choice n = Some x" "\<And>n. n \<in> B \<Longrightarrow> choice n = Some y"
  shows "x = y"
proof -
  obtain n where "n \<in> A" "n \<in> B" using quorum_inter [OF assms(1-3)] by blast
  then show ?thesis using assms(4,5) by fastforce
qed

text \<open>What held at every node of a quorum still holds at one node of any later quorum.\<close>

lemma quorum_witness:
  assumes "compat c c'" "quorum c A" "quorum c' B" "\<And>n. n \<in> A \<Longrightarrow> P n"
  obtains n where "n \<in> B" "P n"
  using quorum_inter [OF assms(1-3)] assms(4) by blast

end

subsection \<open>Majorities\<close>

definition majority :: "members \<Rightarrow> usize set \<Rightarrow> bool" where
  "majority ms acks \<longleftrightarrow> length ms div 2 < ack_count acks ms"

lemma has_joint_majority_alt:
  "has_joint_majority c acks =
     (case c of Simple ms _ \<Rightarrow> majority ms acks
      | Joint old_members new_members _ \<Rightarrow> majority old_members acks \<and> majority new_members acks)"
  by (cases c) (simp_all add: majority_def)

lemma ack_count_alt: "ack_count acks ms = card (acks \<inter> set (hm_keys ms))"
  by (simp add: ack_count_def Int_def)

lemma ack_count_mono: "A \<subseteq> B \<Longrightarrow> ack_count A ms \<le> ack_count B ms"
  unfolding ack_count_alt by (rule card_mono) auto

lemma majority_mono: "majority ms A \<Longrightarrow> A \<subseteq> B \<Longrightarrow> majority ms B"
  using ack_count_mono [of A B ms] by (simp add: majority_def)

text \<open>Two majorities of nearly the same members intersect: the sizes of the two ack sets add up to
  more than the size of the union of the two memberships.\<close>

lemma overlap:
  assumes "majority ms A" "majority ms' B"
    and "card (set (hm_keys ms) \<union> set (hm_keys ms')) < length ms div 2 + length ms' div 2 + 2"
  shows "A \<inter> B \<noteq> {}"
proof
  assume "A \<inter> B = {}"
  let ?X = "A \<inter> set (hm_keys ms)" and ?Y = "B \<inter> set (hm_keys ms')"
  have "card ?X + card ?Y = card (?X \<union> ?Y)"
    using \<open>A \<inter> B = {}\<close> by (intro card_Un_disjoint [symmetric]) auto
  also have "\<dots> \<le> card (set (hm_keys ms) \<union> set (hm_keys ms'))"
    by (rule card_mono) auto
  finally show False
    using assms by (simp add: majority_def ack_count_alt)
qed

subsection \<open>The quorum system of configurations\<close>

definition config_ok :: "ClusterConfiguration \<Rightarrow> bool" where
  "config_ok c = (case c of Simple ms _ \<Rightarrow> hm_ok ms | Joint o1 n _ \<Rightarrow> hm_ok o1 \<and> hm_ok n)"

fun voter_groups :: "ClusterConfiguration \<Rightarrow> members set" where
  "voter_groups (Simple ms _) = {ms}"
| "voter_groups (Joint old_members new_members _) = {old_members, new_members}"

text \<open>Memberships that differ by at most one server; the addresses do not matter.\<close>

definition adjacent :: "members \<Rightarrow> members \<Rightarrow> bool" where
  "adjacent ms ms' \<longleftrightarrow> hm_ok ms \<and> hm_ok ms' \<and>
     (\<exists>k. set (hm_keys ms) - {k} = set (hm_keys ms') - {k})"

text \<open>Two configurations are compatible if some group of voters of the one is adjacent to one of the
  other: the old and the new members with their joint configuration, or single-server changes.\<close>

definition compatible :: "ClusterConfiguration \<Rightarrow> ClusterConfiguration \<Rightarrow> bool" where
  "compatible c c' \<longleftrightarrow> (\<exists>ms \<in> voter_groups c. \<exists>ms' \<in> voter_groups c'. adjacent ms ms')"

lemma adjacent_sym: "adjacent ms ms' \<Longrightarrow> adjacent ms' ms"
  by (auto simp: adjacent_def)

lemma adjacent_inter:
  assumes "adjacent ms ms'" "majority ms A" "majority ms' B"
  shows "A \<inter> B \<noteq> {}"
proof (rule overlap [OF assms(2,3)])
  let ?X = "set (hm_keys ms)" and ?Y = "set (hm_keys ms')"
  obtain k where k: "?X - {k} = ?Y - {k}" using assms(1) by (auto simp: adjacent_def)
  have len: "length ms = card ?X" "length ms' = card ?Y"
    using assms(1) by (simp_all add: adjacent_def card_hm_keys)
  consider "?X = ?Y" | "k \<notin> ?X" "?Y = insert k ?X" | "k \<notin> ?Y" "?X = insert k ?Y"
    using k by blast
  then show "card (?X \<union> ?Y) < length ms div 2 + length ms' div 2 + 2"
    unfolding len by cases (simp_all add: Un_absorb1 Un_absorb2 subset_insertI)
qed

lemma voter_groups_majority:
  "has_joint_majority c A \<longleftrightarrow> (\<forall>ms \<in> voter_groups c. majority ms A)"
  by (cases c) (simp_all add: majority_def)

lemma compatible_refl: "config_ok c \<Longrightarrow> compatible c c"
  by (cases c) (auto simp: compatible_def config_ok_def adjacent_def)

interpretation majority: quorum_system has_joint_majority compatible
proof
  fix c c' :: ClusterConfiguration and A B :: "usize set"
  show "has_joint_majority c B" if "has_joint_majority c A" "A \<subseteq> B"
    using that by (auto simp: voter_groups_majority intro: majority_mono)
  show "A \<inter> B \<noteq> {}" if "compatible c c'" "has_joint_majority c A" "has_joint_majority c' B"
    using that adjacent_inter by (simp add: compatible_def voter_groups_majority) blast
  show "compatible c' c" if "compatible c c'"
    using that adjacent_sym unfolding compatible_def by blast
qed

end
