(* ===== verification/AppState.thy ===== *)
theory AppState
  imports MasterState ConfigState RaftConfig
begin

section \<open>Commands, log entries and the application state (simple\_raft.rs)\<close>

text \<open>
  What the Raft log carries and the state machine it drives: a master or a config server. A snapshot
  is the JSON of the application state; \<open>serde_restore\<close> is the state that decoding it gives, in which
  the fields of the master state that are marked \<open>serde(skip)\<close> have their defaults.
\<close>

datatype Command =
    MasterCmd MasterCommand
  | ConfigCmd ConfigCommand
  | Membership MembershipCommand
  | NoOp

record LogEntry =
  entry_term :: u64
  entry_command :: Command

datatype AppState =
    MasterApp MasterState
  | ConfigApp ConfigStateInner

fun is_safe_mode :: "AppState \<Rightarrow> bool" where
  "is_safe_mode (MasterApp m) = is_in_safe_mode m"
| "is_safe_mode (ConfigApp _) = False"

fun serde_restore :: "AppState \<Rightarrow> AppState" where
  "serde_restore (MasterApp m) =
     MasterApp (init_master\<lparr>files := files m, transaction_records := transaction_records m,
                            shuffling_prefixes := shuffling_prefixes m\<rparr>)"
| "serde_restore (ConfigApp c) = ConfigApp c"

fun apply_command :: "crc_fn \<Rightarrow> u64 \<Rightarrow> Command \<Rightarrow> AppState \<Rightarrow> AppState" where
  "apply_command crc now (MasterCmd c) (MasterApp m) = MasterApp (apply_master_command c m)"
| "apply_command crc now (MasterCmd c) (ConfigApp s) = ConfigApp s"
| "apply_command crc now (ConfigCmd c) (ConfigApp s) = ConfigApp (apply_config_command crc now c s)"
| "apply_command crc now (ConfigCmd c) (MasterApp m) = MasterApp m"
| "apply_command crc now (Membership c) s = s"
| "apply_command crc now NoOp s = s"

lemma serde_restore_idem [simp]: "serde_restore (serde_restore s) = serde_restore s"
  by (cases s) (simp_all add: init_master_def)

text \<open>What a snapshot keeps is what the log determines: restoring commutes with applying commands, up to
  the fields that are local to a node.\<close>

definition replicated :: "MasterState \<Rightarrow> MasterState" where
  "replicated m = init_master\<lparr>files := files m, transaction_records := transaction_records m,
     shuffling_prefixes := shuffling_prefixes m\<rparr>"

lemma replicated_sel [simp]:
  "files (replicated m) = files m" "transaction_records (replicated m) = transaction_records m"
  "shuffling_prefixes (replicated m) = shuffling_prefixes m"
  by (simp_all add: replicated_def)

lemma serde_restore_MasterApp: "serde_restore (MasterApp m) = MasterApp (replicated m)"
  by (simp add: replicated_def)

lemma replicated_apply_master_command:
  "replicated (apply_master_command mc (replicated m)) = replicated (apply_master_command mc m)"
proof (cases mc)
  case (RenameFile a b)
  then show ?thesis
    by (cases "hm_get (files m) a") (simp_all add: apply_rename_file_def replicated_def)
next
  case (ApplyTransactionOperation t oper)
  then show ?thesis
    by (cases "op_type oper") (simp_all add: apply_tx_operation_def replicated_def)
qed (simp_all add: apply_create_file_def apply_allocate_block_def apply_split_shard_def
    apply_ingest_batch_def apply_complete_file_def Let_def, simp_all add: replicated_def)

lemma serde_restore_apply_command:
  "serde_restore (apply_command crc now c (serde_restore s)) = serde_restore (apply_command crc now c s)"
  by (cases s; cases c)
    (simp_all add: serde_restore_MasterApp replicated_apply_master_command del: serde_restore.simps(1),
     simp_all add: replicated_def)

end
