(* ===== verification/RaftNode.thy ===== *)
theory RaftNode
  imports AppState
begin

section \<open>A Raft node (dfs/metaserver/src/simple\_raft.rs)\<close>

text \<open>
  The state of a node, its persistence and every handler, one definition per function or message of
  the source. A handler takes the node and returns the updated node with the error or the result:
  where the source leaves a function with \<open>?\<close>, what was changed before stays changed
  (\<open>and_then\<close>). What a handler sends, to peers over HTTP and to waiting clients over one-shot
  channels, is appended to \<open>outbox\<close>; a channel is a number.

  RocksDB is a parameter: an opaque store \<open>'d\<close> and its operations, each of which may fail. Keys and
  values are typed, since the bytes under each key are written and read with the same codec.
  \<open>db_bound\<close> is a bound on the log indices in the store. The clock and the CRC are parameters too.
  The election timer is an input of \<open>tick\<close>: whether it has run out.
\<close>

datatype Role = Follower | Candidate | Leader

record Snapshot =
  snap_index :: usize
  snap_term :: u64
  snap_data :: AppState

record RequestVoteArgs =
  rv_term :: u64
  candidate_id :: usize
  last_log_index :: usize
  last_log_term :: u64

record RequestVoteReply =
  rvr_term :: u64
  vote_granted :: bool
  rvr_peer_id :: usize

record AppendEntriesArgs =
  ae_term :: u64
  ae_leader_id :: usize
  prev_log_index :: usize
  prev_log_term :: u64
  entries :: "LogEntry list"
  leader_commit :: usize
  leader_address :: string

record AppendEntriesReply =
  aer_term :: u64
  aer_success :: bool
  aer_match_index :: usize
  aer_peer_id :: usize

record InstallSnapshotArgs =
  is_term :: u64
  is_leader_id :: usize
  is_last_included_index :: usize
  is_last_included_term :: u64
  is_data :: AppState

record InstallSnapshotReply =
  isr_term :: u64
  isr_last_included_index :: usize
  isr_peer_id :: usize

record TimeoutNowArgs =
  tn_term :: u64
  sender_id :: usize

record TimeoutNowReply =
  tnr_term :: u64
  tnr_success :: bool

datatype RpcMessage =
    RequestVote RequestVoteArgs
  | RequestVoteResponse RequestVoteReply
  | AppendEntries AppendEntriesArgs
  | AppendEntriesResponse AppendEntriesReply
  | InstallSnapshot InstallSnapshotArgs
  | InstallSnapshotResponse InstallSnapshotReply
  | TimeoutNow TimeoutNowArgs
  | TimeoutNowResponse TimeoutNowReply

type_synonym reply_tx = nat

record ReadIndexRequest =
  read_index :: usize
  rd_term :: u64
  rd_acks :: "usize set"
  majority_confirmed :: bool
  rd_reply_tx :: reply_tx

record ClusterInfo =
  ci_node_id :: usize
  ci_role :: Role
  ci_current_term :: u64
  ci_leader_id :: "usize option"
  ci_leader_address :: "string option"
  ci_peers :: "string list"
  ci_commit_index :: usize
  ci_last_applied :: usize
  ci_log_len :: usize
  ci_votes_received :: usize
  ci_cluster_config :: ClusterConfiguration
  ci_config_change_state :: ConfigChangeState
  ci_is_safe_mode :: bool

datatype Event =
    Rpc RpcMessage "reply_tx option"
  | ClientRequest Command reply_tx
  | GetLeaderInfo reply_tx
  | GetClusterInfo reply_tx
  | GetReadIndex reply_tx

text \<open>What a node sends: requests to the address of a peer, and replies on a channel.\<close>

datatype Output =
    SendVote string RequestVoteArgs
  | SendAppend string AppendEntriesArgs
  | SendSnapshot string InstallSnapshotArgs
  | SendTimeoutNow string TimeoutNowArgs
  | ReplyRpc reply_tx RpcMessage
  | ReplyClient reply_tx "string option + unit"
  | ReplyLeader reply_tx "string option"
  | ReplyInfo reply_tx ClusterInfo
  | ReplyRead reply_tx "string option + usize"

datatype RaftError = DbError | IndexPanic | Failed string

datatype DbKey = KTerm | KVote | KSnapshotMeta | KSnapshotData | KLog usize | KConfig | KChangeState

datatype DbVal =
    VTerm u64
  | VVote usize
  | VMeta usize u64
  | VData AppState
  | VEntry LogEntry
  | VConfig ClusterConfiguration
  | VChange ConfigChangeState

record 'd env =
  db_get :: "DbKey \<Rightarrow> 'd \<Rightarrow> DbVal option option"
  db_put :: "DbKey \<Rightarrow> DbVal \<Rightarrow> 'd \<Rightarrow> bool \<times> 'd"
  db_delete :: "DbKey \<Rightarrow> 'd \<Rightarrow> bool \<times> 'd"
  db_write :: "(DbKey \<times> DbVal) list \<Rightarrow> 'd \<Rightarrow> bool \<times> 'd"
  db_bound :: "'d \<Rightarrow> usize"
  env_crc :: crc_fn
  env_now :: u64

record 'd RaftNode =
  node_id :: usize
  peers :: "string list"
  client_address :: string
  role :: Role
  current_term :: u64
  voted_for :: "usize option"
  log :: "LogEntry list"
  commit_index :: usize
  last_applied :: usize
  next_index :: "usize list"
  match_index :: "usize list"
  current_leader :: "usize option"
  current_leader_address :: "string option"
  last_included_index :: usize
  last_included_term :: u64
  app_state :: AppState
  votes_received :: usize
  voters :: "usize set"
  db :: 'd
  pending_read_indices :: "ReadIndexRequest list"
  pending_replies :: "(usize, reply_tx) hashmap"
  cluster_config :: ClusterConfiguration
  server_roles :: "(usize, ServerRole) hashmap"
  config_change_state :: ConfigChangeState
  non_voting_members :: members
  catch_up_progress :: "(usize, CatchUpProgress) hashmap"
  last_committed_config_index :: usize
  monotonic_time :: u64
  outbox :: "Output list"

type_synonym ('d, 'a) res = "(RaftError + 'a) \<times> 'd RaftNode"

text \<open>The operator \<open>?\<close>: go on with the result, or leave with the error and the state so far.\<close>

definition and_then :: "('d, 'a) res \<Rightarrow> ('a \<Rightarrow> 'd RaftNode \<Rightarrow> ('d, 'b) res) \<Rightarrow> ('d, 'b) res" where
  "and_then r f = (case r of (Inl e, n) \<Rightarrow> (Inl e, n) | (Inr a, n) \<Rightarrow> f a n)"

definition emit :: "Output list \<Rightarrow> 'd RaftNode \<Rightarrow> 'd RaftNode" where
  "emit os n = n\<lparr>outbox := outbox n @ os\<rparr>"

text \<open>\<open>self.log.len() - 1 + self.last_included_index\<close>.\<close>

definition last_index :: "'d RaftNode \<Rightarrow> usize" where
  "last_index n = length (log n) - 1 + last_included_index n"

subsection \<open>Persistence\<close>

definition save_term :: "'d env \<Rightarrow> 'd RaftNode \<Rightarrow> ('d, unit) res" where
  "save_term E n =
     (let (ok, d) = db_put E KTerm (VTerm (current_term n)) (db n)
      in (if ok then Inr () else Inl DbError, n\<lparr>db := d\<rparr>))"

definition save_vote :: "'d env \<Rightarrow> 'd RaftNode \<Rightarrow> ('d, unit) res" where
  "save_vote E n =
     (let (ok, d) = (case voted_for n of Some v \<Rightarrow> db_put E KVote (VVote v) (db n)
                                       | None \<Rightarrow> db_delete E KVote (db n))
      in (if ok then Inr () else Inl DbError, n\<lparr>db := d\<rparr>))"

definition save_log_entry :: "'d env \<Rightarrow> usize \<Rightarrow> LogEntry \<Rightarrow> 'd RaftNode \<Rightarrow> ('d, unit) res" where
  "save_log_entry E index entry n =
     (let (ok, d) = db_put E (KLog index) (VEntry entry) (db n)
      in (if ok then Inr () else Inl DbError, n\<lparr>db := d\<rparr>))"

definition save_log_entries_batch :: "'d env \<Rightarrow> (usize \<times> LogEntry) list \<Rightarrow> 'd RaftNode \<Rightarrow> ('d, unit) res" where
  "save_log_entries_batch E es n =
     (if es = [] then (Inr (), n)
      else let (ok, d) = db_write E (map (\<lambda>(i, e). (KLog i, VEntry e)) es) (db n)
           in (if ok then Inr () else Inl DbError, n\<lparr>db := d\<rparr>))"

definition save_config :: "'d env \<Rightarrow> 'd RaftNode \<Rightarrow> ('d, unit) res" where
  "save_config E n =
     (let (ok, d) = db_put E KConfig (VConfig (cluster_config n)) (db n)
      in if \<not> ok then (Inl DbError, n\<lparr>db := d\<rparr>)
         else let (ok, d) = db_put E KChangeState (VChange (config_change_state n)) d
              in (if ok then Inr () else Inl DbError, n\<lparr>db := d\<rparr>))"

definition load_config :: "'d env \<Rightarrow> 'd \<Rightarrow> ClusterConfiguration \<times> ConfigChangeState" where
  "load_config E d =
     (case db_get E KConfig d of Some (Some (VConfig c)) \<Rightarrow> c | _ \<Rightarrow> Simple [] 0,
      case db_get E KChangeState d of Some (Some (VChange s)) \<Rightarrow> s | _ \<Rightarrow> NoChange)"

text \<open>The loop that reads \<open>log:i\<close> until a key is missing, over the indices up to the bound of the store.\<close>

fun load_log_loop :: "'d env \<Rightarrow> 'd \<Rightarrow> usize list \<Rightarrow> LogEntry list" where
  "load_log_loop E d [] = []"
| "load_log_loop E d (index # rest) =
     (case db_get E (KLog index) d of
        Some (Some (VEntry e)) \<Rightarrow> e # load_log_loop E d rest
      | _ \<Rightarrow> [])"

definition load_state :: "'d env \<Rightarrow> 'd \<Rightarrow> AppState \<Rightarrow>
    u64 \<times> usize option \<times> LogEntry list \<times> usize \<times> u64 \<times> AppState" where
  "load_state E d app =
     (let term' = (case db_get E KTerm d of Some (Some (VTerm t)) \<Rightarrow> t | _ \<Rightarrow> 0);
          vote = (case db_get E KVote d of Some (Some (VVote v)) \<Rightarrow> Some v | _ \<Rightarrow> None);
          (li, lt, app) = (case db_get E KSnapshotMeta d of
              Some (Some (VMeta li lt)) \<Rightarrow>
                (li, lt, case db_get E KSnapshotData d of
                           Some (Some (VData s)) \<Rightarrow> serde_restore s | _ \<Rightarrow> app)
            | _ \<Rightarrow> (0, 0, app));
          l = \<lparr>entry_term = lt, entry_command = NoOp\<rparr> # load_log_loop E d [li + 1..<db_bound E d]
      in (term', vote, l, li, lt, app))"

fun delete_log_loop :: "'d env \<Rightarrow> usize list \<Rightarrow> 'd RaftNode \<Rightarrow> ('d, unit) res" where
  "delete_log_loop E [] n = (Inr (), n)"
| "delete_log_loop E (index # rest) n =
     (case db_get E (KLog index) (db n) of
        None \<Rightarrow> (Inl DbError, n)
      | Some None \<Rightarrow> (Inr (), n)
      | Some (Some _) \<Rightarrow>
          (let (ok, d) = db_delete E (KLog index) (db n)
           in if ok then delete_log_loop E rest (n\<lparr>db := d\<rparr>) else (Inl DbError, n\<lparr>db := d\<rparr>)))"

definition delete_log_entries_from :: "'d env \<Rightarrow> usize \<Rightarrow> 'd RaftNode \<Rightarrow> ('d, unit) res" where
  "delete_log_entries_from E start_index n = delete_log_loop E [start_index..<db_bound E (db n)] n"

subsection \<open>Creating a node\<close>

text \<open>\<open>address.find(pattern)\<close>: what follows the first occurrence of the pattern.\<close>

fun find_after :: "string \<Rightarrow> string \<Rightarrow> string option" where
  "find_after pat s =
     (if prefix pat s then Some (drop (length pat) s)
      else case s of [] \<Rightarrow> None | _ # s' \<Rightarrow> find_after pat s')"

declare find_after.simps [simp del]

definition is_ascii_digit :: "char \<Rightarrow> bool" where
  "is_ascii_digit c \<longleftrightarrow> CHR ''0'' \<le> c \<and> c \<le> CHR ''9''"

text \<open>\<open>str::parse::<usize>()\<close> on a string of digits: no digits, or a value that does not fit, is an error.\<close>

definition parse_usize :: "string \<Rightarrow> usize option" where
  "parse_usize ds =
     (let v = fold (\<lambda>c v. 10 * v + (of_char c - 48)) ds 0
      in if ds \<noteq> [] \<and> v < 2 ^ 64 then Some v else None)"

fun extract_loop :: "string \<Rightarrow> string list \<Rightarrow> usize option" where
  "extract_loop address [] = None"
| "extract_loop address (pat # pats) =
     (case find_after pat address of
        Some after \<Rightarrow>
          (case parse_usize (takeWhile is_ascii_digit after) of
             Some index \<Rightarrow> Some ((index + 1) mod 2 ^ 64)
           | None \<Rightarrow> extract_loop address pats)
      | None \<Rightarrow> extract_loop address pats)"

definition extract_node_id_from_address :: "string \<Rightarrow> usize option" where
  "extract_node_id_from_address address = extract_loop address [''configserver-'', ''metaserver-'']"

definition initial_members :: "usize \<Rightarrow> string list \<Rightarrow> string \<Rightarrow> members" where
  "initial_members i ps client_addr =
     hm_insert i client_addr
       (fold (\<lambda>peer ms. case extract_node_id_from_address peer of
                          Some pid \<Rightarrow> hm_insert pid peer ms | None \<Rightarrow> ms) ps [])"

definition RaftNode_new :: "'d env \<Rightarrow> usize \<Rightarrow> string list \<Rightarrow> string \<Rightarrow> AppState \<Rightarrow> 'd \<Rightarrow> 'd RaftNode" where
  "RaftNode_new E i ps client_addr app d =
     (let (term', vote, l, li, lt, app) = load_state E d app;
          (loaded_config, change) = load_config E d;
          config = (case loaded_config of
                      Simple ms _ \<Rightarrow> if ms = [] then Simple (initial_members i ps client_addr) 0
                                    else loaded_config
                    | Joint _ _ _ \<Rightarrow> loaded_config)
      in \<lparr>node_id = i, peers = ps, client_address = client_addr, role = Follower,
          current_term = term', voted_for = vote, log = l, commit_index = li, last_applied = li,
          next_index = [], match_index = [], current_leader = None, current_leader_address = None,
          last_included_index = li, last_included_term = lt, app_state = app, votes_received = 0,
          voters = {}, db = d, pending_read_indices = [], pending_replies = [],
          cluster_config = config,
          server_roles = map (\<lambda>m. (m, Voting)) (hm_keys (all_members config)),
          config_change_state = change, non_voting_members = [], catch_up_progress = [],
          last_committed_config_index = 0, monotonic_time = 0, outbox = []\<rparr>)"

text \<open>What \<open>run\<close> does before its loop.\<close>

definition run_init :: "'d RaftNode \<Rightarrow> 'd RaftNode" where
  "run_init n =
     n\<lparr>next_index := replicate (length (peers n)) (length (log n) + last_included_index n),
       match_index := replicate (length (peers n)) (last_included_index n)\<rparr>"

subsection \<open>Applying the log\<close>

text \<open>The satisfied requests are collected in order and answered from the last one.\<close>

definition check_read_indices :: "'d RaftNode \<Rightarrow> 'd RaftNode" where
  "check_read_indices n =
     (let satisfied = (\<lambda>req. majority_confirmed req \<and> read_index req \<le> last_applied n)
      in emit (map (\<lambda>req. ReplyRead (rd_reply_tx req) (Inr (read_index req)))
                 (rev (filter satisfied (pending_read_indices n))))
           (n\<lparr>pending_read_indices := filter (\<lambda>req. \<not> satisfied req) (pending_read_indices n)\<rparr>))"

text \<open>\<open>Vec::resize\<close>.\<close>

definition vec_resize :: "nat \<Rightarrow> 'a \<Rightarrow> 'a list \<Rightarrow> 'a list" where
  "vec_resize k x xs = take k xs @ replicate (k - length xs) x"

definition update_peer_tracking :: "'d RaftNode \<Rightarrow> 'd RaftNode" where
  "update_peer_tracking n =
     (let ps = map snd (filter (\<lambda>(i, _). i \<noteq> node_id n) (all_members (cluster_config n)));
          new_size = length ps;
          default_next = length (log n) + last_included_index n
      in n\<lparr>peers := ps, next_index := vec_resize new_size default_next (next_index n),
           match_index := vec_resize new_size (last_included_index n) (match_index n)\<rparr>)"

text \<open>\<open>Vec::remove\<close>; the source panics out of range, and the tracking arrays have an entry per peer.\<close>

definition vec_remove :: "nat \<Rightarrow> 'a list \<Rightarrow> 'a list" where
  "vec_remove i xs = take i xs @ drop (Suc i) xs"

fun apply_membership_command :: "'d env \<Rightarrow> MembershipCommand \<Rightarrow> 'd RaftNode \<Rightarrow> 'd RaftNode" where
  "apply_membership_command E (BeginJointConsensus old_members new_members version) n =
     snd (save_config E (update_peer_tracking (n\<lparr>cluster_config := Joint old_members new_members version\<rparr>)))"
| "apply_membership_command E (FinalizeConfiguration new_members version) n =
     snd (save_config E
       ((update_peer_tracking (n\<lparr>cluster_config := Simple new_members version\<rparr>))
          \<lparr>config_change_state := NoChange\<rparr>))"
| "apply_membership_command E (AddServer server_id server_address) n =
     (if server_address \<in> set (peers n) then n
      else n\<lparr>peers := peers n @ [server_address],
             next_index := next_index n @ [length (log n) + last_included_index n],
             match_index := match_index n @ [last_included_index n]\<rparr>)"
| "apply_membership_command E (RemoveServer server_id) n =
     (if server_id < length (peers n)
      then n\<lparr>peers := vec_remove server_id (peers n), next_index := vec_remove server_id (next_index n),
             match_index := vec_remove server_id (match_index n)\<rparr>
      else n)"
| "apply_membership_command E (AddServers _) n = n"
| "apply_membership_command E (RemoveServers _) n = n"

text \<open>One round of the loop of \<open>apply_logs\<close>.\<close>

definition apply_next :: "'d env \<Rightarrow> 'd RaftNode \<Rightarrow> 'd RaftNode" where
  "apply_next E n =
     (let n = n\<lparr>last_applied := last_applied n + 1\<rparr>;
          log_index = u64_sub (last_applied n) (last_included_index n);
          n = (if log_index < length (log n)
               then let n = (case entry_command (log n ! log_index) of
                               Membership c \<Rightarrow> apply_membership_command E c n
                             | c \<Rightarrow> n\<lparr>app_state := apply_command (env_crc E) (env_now E) c (app_state n)\<rparr>)
                    in check_read_indices n
               else n)
      in case hm_get (pending_replies n) (last_applied n) of
           Some tx \<Rightarrow> emit [ReplyClient tx (Inr ())]
                       (n\<lparr>pending_replies := hm_remove (last_applied n) (pending_replies n)\<rparr>)
         | None \<Rightarrow> n)"

lemma apply_membership_command_indices:
  "commit_index (apply_membership_command E c n) = commit_index n \<and>
   last_applied (apply_membership_command E c n) = last_applied n"
  by (cases c)
    (auto simp: save_config_def update_peer_tracking_def Let_def split: prod.splits if_splits)

lemma apply_next_indices [simp]:
  "commit_index (apply_next E n) = commit_index n"
  "last_applied (apply_next E n) = Suc (last_applied n)"
  by (auto simp: apply_next_def Let_def emit_def check_read_indices_def
      apply_membership_command_indices split: option.splits Command.splits)

function apply_logs :: "'d env \<Rightarrow> 'd RaftNode \<Rightarrow> 'd RaftNode" where
  "apply_logs E n = (if last_applied n < commit_index n then apply_logs E (apply_next E n) else n)"
  by auto
termination
  by (relation "measure (\<lambda>(E, n). commit_index n - last_applied n)") auto

declare apply_logs.simps [simp del]

subsection \<open>Snapshots\<close>

fun delete_log_keys :: "'d env \<Rightarrow> usize list \<Rightarrow> 'd RaftNode \<Rightarrow> ('d, unit) res" where
  "delete_log_keys E [] n = (Inr (), n)"
| "delete_log_keys E (i # is) n =
     (let (ok, d) = db_delete E (KLog i) (db n)
      in if ok then delete_log_keys E is (n\<lparr>db := d\<rparr>) else (Inl DbError, n\<lparr>db := d\<rparr>))"

definition put_snapshot :: "'d env \<Rightarrow> usize \<Rightarrow> u64 \<Rightarrow> AppState \<Rightarrow> 'd RaftNode \<Rightarrow> ('d, unit) res" where
  "put_snapshot E index term' data n =
     (let (ok, d) = db_put E KSnapshotMeta (VMeta index term') (db n)
      in if \<not> ok then (Inl DbError, n\<lparr>db := d\<rparr>)
         else let (ok, d) = db_put E KSnapshotData (VData data) d
              in (if ok then Inr () else Inl DbError, n\<lparr>db := d\<rparr>))"

definition snapshot_entry_term :: "'d RaftNode \<Rightarrow> u64" where
  "snapshot_entry_term n =
     (if last_included_index n \<le> last_applied n
      then let index = last_applied n - last_included_index n
           in if index < length (log n) then entry_term (log n ! index) else last_included_term n
      else last_included_term n)"

definition create_snapshot :: "'d env \<Rightarrow> 'd RaftNode \<Rightarrow> ('d, unit) res" where
  "create_snapshot E n =
     (let term' = snapshot_entry_term n
      in and_then (put_snapshot E (last_applied n) term' (app_state n) n) (\<lambda>_ n.
         and_then (delete_log_keys E [last_included_index n + 1..<last_applied n + 1] n) (\<lambda>_ n.
           let n = n\<lparr>last_included_term := term'\<rparr>;
               new_log_start = u64_sub (last_applied n) (last_included_index n) + 1
           in if length (log n) < new_log_start then (Inl IndexPanic, n)
              else (Inr (), n\<lparr>log := \<lparr>entry_term = term', entry_command = NoOp\<rparr> # drop new_log_start (log n),
                             last_included_index := last_applied n\<rparr>))))"

definition install_snapshot :: "'d env \<Rightarrow> Snapshot \<Rightarrow> 'd RaftNode \<Rightarrow> ('d, unit) res" where
  "install_snapshot E s n =
     and_then (put_snapshot E (snap_index s) (snap_term s) (snap_data s) n) (\<lambda>_ n.
       let n = n\<lparr>app_state := serde_restore (snap_data s)\<rparr>
       in and_then (delete_log_keys E [last_included_index n + 1..<snap_index s + 1] n) (\<lambda>_ n.
            (Inr (), n\<lparr>last_included_index := snap_index s, last_included_term := snap_term s,
                       log := [\<lparr>entry_term = snap_term s, entry_command = NoOp\<rparr>],
                       commit_index := snap_index s, last_applied := snap_index s\<rparr>)))"

subsection \<open>Elections and leadership\<close>

definition become_leader :: "'d env \<Rightarrow> 'd RaftNode \<Rightarrow> 'd RaftNode" where
  "become_leader E n =
     (let n = n\<lparr>role := Leader, current_leader := Some (node_id n),
                current_leader_address := Some (client_address n)\<rparr>;
          entry = \<lparr>entry_term = current_term n, entry_command = NoOp\<rparr>;
          n = n\<lparr>log := log n @ [entry]\<rparr>;
          absolute_index = last_index n;
          n = snd (save_log_entry E absolute_index entry n);
          n = n\<lparr>next_index := replicate (length (peers n)) (length (log n) + last_included_index n),
                match_index := replicate (length (peers n)) (last_included_index n)\<rparr>
      in if peers n = [] \<and> commit_index n < absolute_index
         then apply_logs E (n\<lparr>commit_index := absolute_index\<rparr>)
         else n)"

definition vote_args :: "'d RaftNode \<Rightarrow> RequestVoteArgs" where
  "vote_args n = \<lparr>rv_term = current_term n, candidate_id = node_id n, last_log_index = last_index n,
                  last_log_term = entry_term (last (log n))\<rparr>"

definition start_election :: "'d env \<Rightarrow> 'd RaftNode \<Rightarrow> ('d, unit) res" where
  "start_election E n =
     (let n = n\<lparr>role := Candidate, current_term := current_term n + 1\<rparr>
      in and_then (save_term E n) (\<lambda>_ n.
         and_then (save_vote E (n\<lparr>voted_for := Some (node_id n)\<rparr>)) (\<lambda>_ n.
           let n = n\<lparr>votes_received := 1, voters := {node_id n}\<rparr>
           in if length (all_members (cluster_config n)) = 1 then (Inr (), become_leader E n)
              else (Inr (), emit (map (\<lambda>peer. SendVote peer (vote_args n)) (peers n)) n))))"

definition step_down_to_follower :: "'d env \<Rightarrow> u64 \<Rightarrow> string option \<Rightarrow> 'd RaftNode \<Rightarrow> 'd RaftNode" where
  "step_down_to_follower E term' leader_hint n =
     (let was_leader = (role n = Leader);
          n = n\<lparr>role := Follower\<rparr>;
          n = (if current_term n < term'
               then snd (save_vote E (snd (save_term E (n\<lparr>current_term := term', voted_for := None\<rparr>))))
               else n);
          n = (case leader_hint of Some hint \<Rightarrow> n\<lparr>current_leader_address := Some hint\<rparr> | None \<Rightarrow> n)
      in if was_leader
         then emit (map (\<lambda>(_, tx). ReplyClient tx (Inl leader_hint)) (pending_replies n) @
                    map (\<lambda>req. ReplyRead (rd_reply_tx req) (Inl leader_hint)) (pending_read_indices n))
                (n\<lparr>pending_replies := [], pending_read_indices := []\<rparr>)
         else n)"

text \<open>A higher term in a reply: step down and forget the leader.\<close>

definition adopt_term :: "'d env \<Rightarrow> u64 \<Rightarrow> 'd RaftNode \<Rightarrow> 'd RaftNode" where
  "adopt_term E term' n =
     (step_down_to_follower E term' None n)\<lparr>current_leader := None, current_leader_address := None\<rparr>"

subsection \<open>Replication\<close>

text \<open>\<open>iter().position(|p| p == x)\<close>.\<close>

fun position_of :: "'a \<Rightarrow> 'a list \<Rightarrow> nat option" where
  "position_of x [] = None"
| "position_of x (y # ys) = (if y = x then Some 0 else map_option Suc (position_of x ys))"

definition snapshot_args :: "'d RaftNode \<Rightarrow> InstallSnapshotArgs" where
  "snapshot_args n = \<lparr>is_term = current_term n, is_leader_id = node_id n,
     is_last_included_index = last_included_index n, is_last_included_term = last_included_term n,
     is_data = app_state n\<rparr>"

definition append_args :: "usize \<Rightarrow> 'd RaftNode \<Rightarrow> AppendEntriesArgs" where
  "append_args i n =
     (let absolute_prev_index = next_index n ! i - 1;
          next_log_index = next_index n ! i - last_included_index n
      in \<lparr>ae_term = current_term n, ae_leader_id = node_id n, prev_log_index = absolute_prev_index,
          prev_log_term = entry_term (log n ! (absolute_prev_index - last_included_index n)),
          entries = drop next_log_index (log n), leader_commit = commit_index n,
          leader_address = client_address n\<rparr>)"

text \<open>The body of the loop over the members; \<open>peer_idx\<close> is the position in the combined list.\<close>

definition heartbeat_to :: "nat \<times> usize \<times> string \<times> bool \<Rightarrow> 'd RaftNode \<Rightarrow> 'd RaftNode" where
  "heartbeat_to p n =
     (case p of (peer_idx, server_id, peer, is_voting) \<Rightarrow>
       let io = (if is_voting
                 then Some (case position_of peer (peers n) of Some i \<Rightarrow> i | None \<Rightarrow> peer_idx)
                 else if peer_idx < length (next_index n) then Some peer_idx else None)
       in case io of
            None \<Rightarrow> n
          | Some i \<Rightarrow>
              if length (next_index n) \<le> i then n
              else if next_index n ! i \<le> last_included_index n
              then emit [SendSnapshot peer (snapshot_args n)] n
              else if next_index n ! i - 1 < last_included_index n
              then n\<lparr>next_index := (next_index n)[i := last_included_index n]\<rparr>
              else if length (log n) \<le> next_index n ! i - 1 - last_included_index n
              then n\<lparr>next_index := (next_index n)[i := length (log n) + last_included_index n]\<rparr>
              else emit [SendAppend peer (append_args i n)] n)"

definition combined_peers :: "'d RaftNode \<Rightarrow> (usize \<times> string \<times> bool) list" where
  "combined_peers n =
     map (\<lambda>(i, addr). (i, addr, True)) (filter (\<lambda>(i, _). i \<noteq> node_id n) (all_members (cluster_config n))) @
     map (\<lambda>(i, addr). (i, addr, False)) (non_voting_members n)"

definition send_heartbeats :: "'d RaftNode \<Rightarrow> 'd RaftNode" where
  "send_heartbeats n = fold heartbeat_to (enumerate 0 (combined_peers n)) n"

subsection \<open>Handling RPCs\<close>

definition log_is_up_to_date :: "RequestVoteArgs \<Rightarrow> 'd RaftNode \<Rightarrow> bool" where
  "log_is_up_to_date args n \<longleftrightarrow>
     entry_term (last (log n)) < last_log_term args \<or>
     last_log_term args = entry_term (last (log n)) \<and> last_index n \<le> last_log_index args"

definition vote_reply :: "bool \<Rightarrow> 'd RaftNode \<Rightarrow> RpcMessage" where
  "vote_reply granted n =
     RequestVoteResponse \<lparr>rvr_term = current_term n, vote_granted = granted, rvr_peer_id = node_id n\<rparr>"

definition handle_request_vote :: "'d env \<Rightarrow> RequestVoteArgs \<Rightarrow> 'd RaftNode \<Rightarrow> ('d, RpcMessage) res" where
  "handle_request_vote E args n =
     (if current_term n \<le> rv_term args
      then let n = (if current_term n < rv_term args then adopt_term E (rv_term args) n else n)
           in if (voted_for n = None \<or> voted_for n = Some (candidate_id args)) \<and> log_is_up_to_date args n
              then and_then (save_vote E (n\<lparr>voted_for := Some (candidate_id args)\<rparr>)) (\<lambda>_ n.
                     (Inr (vote_reply True n), n))
              else (Inr (vote_reply False n), n)
      else (Inr (vote_reply False n), n))"

definition handle_request_vote_response :: "'d env \<Rightarrow> RequestVoteReply \<Rightarrow> 'd RaftNode \<Rightarrow> ('d, RpcMessage) res" where
  "handle_request_vote_response E reply n =
     (let n = (if role n = Candidate \<and> current_term n = rvr_term reply \<and> vote_granted reply
               then let n = n\<lparr>votes_received := votes_received n + 1,
                              voters := insert (rvr_peer_id reply) (voters n)\<rparr>
                    in if has_joint_majority (cluster_config n) (voters n) then become_leader E n else n
               else if current_term n < rvr_term reply then adopt_term E (rvr_term reply) n
               else n)
      in (Inr (RequestVoteResponse reply), n))"

text \<open>The loop of the branch at the snapshot point: conflicts are replaced as they are met.\<close>

fun append_at_snapshot :: "'d env \<Rightarrow> usize \<Rightarrow> LogEntry list \<Rightarrow> (usize \<times> LogEntry) list \<Rightarrow> 'd RaftNode \<Rightarrow>
    ('d, (usize \<times> LogEntry) list) res" where
  "append_at_snapshot E absolute_index [] batch n = (Inr batch, n)"
| "append_at_snapshot E absolute_index (entry # es) batch n =
     (let log_index = absolute_index - last_included_index n
      in if log_index < length (log n)
         then if entry_term (log n ! log_index) \<noteq> entry_term entry
              then and_then (delete_log_entries_from E absolute_index (n\<lparr>log := take log_index (log n)\<rparr>)) (\<lambda>_ n.
                     append_at_snapshot E (absolute_index + 1) es (batch @ [(absolute_index, entry)])
                       (n\<lparr>log := log n @ [entry]\<rparr>))
              else append_at_snapshot E (absolute_index + 1) es batch n
         else append_at_snapshot E (absolute_index + 1) es (batch @ [(absolute_index, entry)])
                (n\<lparr>log := log n @ [entry]\<rparr>))"

text \<open>The two loops of the normal branch: truncate at the first conflict, then append what is missing.\<close>

fun truncate_conflict :: "'d env \<Rightarrow> usize \<Rightarrow> LogEntry list \<Rightarrow> 'd RaftNode \<Rightarrow> ('d, unit) res" where
  "truncate_conflict E absolute_index [] n = (Inr (), n)"
| "truncate_conflict E absolute_index (entry # es) n =
     (let log_index = absolute_index - last_included_index n
      in if log_index < length (log n)
         then if entry_term (log n ! log_index) \<noteq> entry_term entry
              then delete_log_entries_from E absolute_index (n\<lparr>log := take log_index (log n)\<rparr>)
              else truncate_conflict E (absolute_index + 1) es n
         else (Inr (), n))"

fun append_missing :: "usize \<Rightarrow> LogEntry list \<Rightarrow> (usize \<times> LogEntry) list \<Rightarrow> 'd RaftNode \<Rightarrow>
    (usize \<times> LogEntry) list \<times> 'd RaftNode" where
  "append_missing absolute_index [] batch n = (batch, n)"
| "append_missing absolute_index (entry # es) batch n =
     (let log_index = absolute_index - last_included_index n
      in if length (log n) \<le> log_index
         then append_missing (absolute_index + 1) es (batch @ [(absolute_index, entry)])
                (n\<lparr>log := log n @ [entry]\<rparr>)
         else append_missing (absolute_index + 1) es batch n)"

text \<open>The log part of \<open>AppendEntries\<close>: whether the entries were taken, and the match index.\<close>

definition append_to_log :: "'d env \<Rightarrow> AppendEntriesArgs \<Rightarrow> 'd RaftNode \<Rightarrow> ('d, bool \<times> usize) res" where
  "append_to_log E args n =
     (if prev_log_index args < last_included_index n then (Inr (False, last_included_index n), n)
      else if prev_log_index args = last_included_index n
      then if prev_log_term args = last_included_term n
           then and_then (if log n \<noteq> [] \<and> entry_term (log n ! 0) \<noteq> prev_log_term args
                          then delete_log_entries_from E (last_included_index n + 1) (n\<lparr>log := []\<rparr>)
                          else (Inr (), n)) (\<lambda>_ n.
                and_then (append_at_snapshot E (prev_log_index args + 1) (entries args) [] n) (\<lambda>batch n.
                and_then (save_log_entries_batch E batch n) (\<lambda>_ n.
                  (Inr (True, prev_log_index args + length (entries args)), n))))
           else (Inr (False, 0), n)
      else let local = prev_log_index args - last_included_index n
           in if local < length (log n) \<and> entry_term (log n ! local) = prev_log_term args
              then and_then (truncate_conflict E (prev_log_index args + 1) (entries args) n) (\<lambda>_ n.
                     case append_missing (prev_log_index args + 1) (entries args) [] n of (batch, n) \<Rightarrow>
                     and_then (save_log_entries_batch E batch n) (\<lambda>_ n.
                       (Inr (True, prev_log_index args + length (entries args)), n)))
              else (Inr (False, if local < length (log n) then last_included_index n + local
                                else last_included_index n), n))"

definition append_reply :: "bool \<Rightarrow> usize \<Rightarrow> 'd RaftNode \<Rightarrow> RpcMessage" where
  "append_reply ok mi n =
     AppendEntriesResponse \<lparr>aer_term = current_term n, aer_success = ok, aer_match_index = mi,
                            aer_peer_id = node_id n\<rparr>"

definition handle_append_entries :: "'d env \<Rightarrow> AppendEntriesArgs \<Rightarrow> 'd RaftNode \<Rightarrow> ('d, RpcMessage) res" where
  "handle_append_entries E args n =
     (if current_term n \<le> ae_term args
      then let n = (step_down_to_follower E (ae_term args) (Some (leader_address args)) n)
                     \<lparr>current_leader := Some (ae_leader_id args)\<rparr>
           in and_then (append_to_log E args n) (\<lambda>(ok, mi) n.
                let n = (if ok \<and> commit_index n < leader_commit args
                         then apply_logs E (n\<lparr>commit_index := min (leader_commit args) (last_index n)\<rparr>)
                         else n)
                in (Inr (append_reply ok mi n), n))
      else (Inr (append_reply False 0 n), n))"

text \<open>The address of a member, and its position among the peers.\<close>

definition peer_index :: "usize \<Rightarrow> 'd RaftNode \<Rightarrow> nat option" where
  "peer_index pid n =
     (case hm_get (all_members (cluster_config n)) pid of
        Some addr \<Rightarrow> position_of addr (peers n)
      | None \<Rightarrow> None)"

definition ack_read_indices :: "usize \<Rightarrow> 'd RaftNode \<Rightarrow> 'd RaftNode" where
  "ack_read_indices pid n =
     check_read_indices (n\<lparr>pending_read_indices :=
       map (\<lambda>req. if rd_term req = current_term n
                  then let req = req\<lparr>rd_acks := insert pid (rd_acks req)\<rparr>
                       in if has_joint_majority (cluster_config n) (rd_acks req)
                          then req\<lparr>majority_confirmed := True\<rparr> else req
                  else req) (pending_read_indices n)\<rparr>)"

definition server_match_indices :: "'d RaftNode \<Rightarrow> (usize, usize) hashmap" where
  "server_match_indices n =
     fold (\<lambda>(server_id, addr) ms.
             if server_id \<noteq> node_id n
             then (case position_of addr (peers n) of
                     Some peer_idx \<Rightarrow>
                       if peer_idx < length (match_index n)
                       then hm_insert server_id (match_index n ! peer_idx) ms else ms
                   | None \<Rightarrow> ms)
             else ms)
       (all_members (cluster_config n)) [(node_id n, last_index n)]"

text \<open>\<open>acks\<close> of the loop: the servers whose match index reaches the candidate.\<close>

definition acks_for :: "usize \<Rightarrow> (usize, usize) hashmap \<Rightarrow> usize set" where
  "acks_for candidate_index ms = set (map fst (filter (\<lambda>(_, mi). candidate_index \<le> mi) ms))"

fun majority_loop :: "ClusterConfiguration \<Rightarrow> (usize, usize) hashmap \<Rightarrow> usize \<Rightarrow> usize list \<Rightarrow> usize" where
  "majority_loop c ms fallback [] = fallback"
| "majority_loop c ms fallback (candidate_index # cs) =
     (if has_joint_majority c (acks_for candidate_index ms) then candidate_index
      else majority_loop c ms fallback cs)"

definition advance_commit_index :: "'d env \<Rightarrow> 'd RaftNode \<Rightarrow> 'd RaftNode" where
  "advance_commit_index E n =
     (let ms = server_match_indices n;
          candidate_indices = rev (sort (hm_values ms));
          majority_match_index = majority_loop (cluster_config n) ms (commit_index n) candidate_indices
      in if commit_index n < majority_match_index
         then let log_index_relative = u64_sub majority_match_index (last_included_index n)
              in if log_index_relative < length (log n) \<and>
                    entry_term (log n ! log_index_relative) = current_term n
                 then apply_logs E (n\<lparr>commit_index := majority_match_index\<rparr>)
                 else n
         else n)"

text \<open>The source indexes the tracking arrays without a check; out of range is a panic.\<close>

definition record_append_reply :: "nat \<Rightarrow> AppendEntriesReply \<Rightarrow> 'd RaftNode \<Rightarrow> ('d, unit) res" where
  "record_append_reply peer_idx reply n =
     (if length (next_index n) \<le> peer_idx \<or> aer_success reply \<and> length (match_index n) \<le> peer_idx
      then (Inl IndexPanic, n)
      else if aer_success reply
      then let n = n\<lparr>next_index := (next_index n)[peer_idx := aer_match_index reply + 1],
                     match_index := (match_index n)[peer_idx := aer_match_index reply],
                     catch_up_progress := hm_modify (aer_peer_id reply)
                       (update_progress (aer_match_index reply)) (catch_up_progress n)\<rparr>
           in (Inr (), ack_read_indices (aer_peer_id reply) n)
      else if last_included_index n + 1 < next_index n ! peer_idx
      then (Inr (), n\<lparr>next_index := (next_index n)[peer_idx := next_index n ! peer_idx - 1]\<rparr>)
      else (Inr (), n))"

definition handle_append_entries_response :: "'d env \<Rightarrow> AppendEntriesReply \<Rightarrow> 'd RaftNode \<Rightarrow> ('d, RpcMessage) res" where
  "handle_append_entries_response E reply n =
     (if role n = Leader \<and> aer_term reply = current_term n
      then and_then (case peer_index (aer_peer_id reply) n of
                       Some peer_idx \<Rightarrow> record_append_reply peer_idx reply n
                     | None \<Rightarrow> (Inr (), n)) (\<lambda>_ n.
             (Inr (AppendEntriesResponse reply), advance_commit_index E n))
      else if current_term n < aer_term reply
      then (Inr (AppendEntriesResponse reply), adopt_term E (aer_term reply) n)
      else (Inr (AppendEntriesResponse reply), n))"

definition handle_install_snapshot :: "'d env \<Rightarrow> InstallSnapshotArgs \<Rightarrow> 'd RaftNode \<Rightarrow> ('d, RpcMessage) res" where
  "handle_install_snapshot E args n =
     and_then (if current_term n \<le> is_term args
               then let n = (step_down_to_follower E (is_term args) None n)
                              \<lparr>current_leader := Some (is_leader_id args)\<rparr>
                    in if last_included_index n < is_last_included_index args
                       then install_snapshot E \<lparr>snap_index = is_last_included_index args,
                              snap_term = is_last_included_term args, snap_data = is_data args\<rparr> n
                       else (Inr (), n)
               else (Inr (), n)) (\<lambda>_ n.
       (Inr (InstallSnapshotResponse \<lparr>isr_term = current_term n,
               isr_last_included_index = last_included_index n, isr_peer_id = node_id n\<rparr>), n))"

text \<open>The peer is looked up by the decimal id as a substring of its address.\<close>

definition snapshot_peer_index :: "usize \<Rightarrow> 'd RaftNode \<Rightarrow> nat option" where
  "snapshot_peer_index pid n =
     (case filter (\<lambda>i. contains_str (string_of_nat pid) (peers n ! i)) [0..<length (peers n)] of
        [] \<Rightarrow> None | i # _ \<Rightarrow> Some i)"

definition handle_install_snapshot_response :: "'d env \<Rightarrow> InstallSnapshotReply \<Rightarrow> 'd RaftNode \<Rightarrow> ('d, RpcMessage) res" where
  "handle_install_snapshot_response E reply n =
     (if role n = Leader \<and> isr_term reply = current_term n
      then (case snapshot_peer_index (isr_peer_id reply) n of
              Some peer_idx \<Rightarrow>
                if length (next_index n) \<le> peer_idx \<or> length (match_index n) \<le> peer_idx
                then (Inl IndexPanic, n)
                else (Inr (InstallSnapshotResponse reply),
                      ack_read_indices (isr_peer_id reply)
                        (n\<lparr>next_index := (next_index n)[peer_idx := isr_last_included_index reply + 1],
                           match_index := (match_index n)[peer_idx := isr_last_included_index reply]\<rparr>))
            | None \<Rightarrow> (Inr (InstallSnapshotResponse reply), n))
      else if current_term n < isr_term reply
      then (Inr (InstallSnapshotResponse reply), adopt_term E (isr_term reply) n)
      else (Inr (InstallSnapshotResponse reply), n))"

definition handle_timeout_now :: "'d env \<Rightarrow> TimeoutNowArgs \<Rightarrow> 'd RaftNode \<Rightarrow> ('d, RpcMessage) res" where
  "handle_timeout_now E args n =
     (if tn_term args < current_term n
      then (Inr (TimeoutNowResponse \<lparr>tnr_term = current_term n, tnr_success = False\<rparr>), n)
      else let n = (if current_term n < tn_term args then step_down_to_follower E (tn_term args) None n else n);
               n = n\<lparr>role := Candidate, current_term := current_term n + 1\<rparr>
           in and_then (save_term E n) (\<lambda>_ n.
              and_then (save_vote E (n\<lparr>voted_for := Some (node_id n)\<rparr>)) (\<lambda>_ n.
                (Inr (TimeoutNowResponse \<lparr>tnr_term = current_term n, tnr_success = True\<rparr>),
                 n\<lparr>votes_received := 1, voters := {node_id n}\<rparr>))))"

fun handle_rpc :: "'d env \<Rightarrow> RpcMessage \<Rightarrow> 'd RaftNode \<Rightarrow> ('d, RpcMessage) res" where
  "handle_rpc E (RequestVote args) n = handle_request_vote E args n"
| "handle_rpc E (RequestVoteResponse reply) n = handle_request_vote_response E reply n"
| "handle_rpc E (AppendEntries args) n = handle_append_entries E args n"
| "handle_rpc E (AppendEntriesResponse reply) n = handle_append_entries_response E reply n"
| "handle_rpc E (InstallSnapshot args) n = handle_install_snapshot E args n"
| "handle_rpc E (InstallSnapshotResponse reply) n = handle_install_snapshot_response E reply n"
| "handle_rpc E (TimeoutNow args) n = handle_timeout_now E args n"
| "handle_rpc E (TimeoutNowResponse reply) n = (Inr (TimeoutNowResponse reply), n)"

subsection \<open>Events and the clock\<close>

definition handle_client_request :: "'d env \<Rightarrow> Command \<Rightarrow> reply_tx \<Rightarrow> 'd RaftNode \<Rightarrow> ('d, unit) res" where
  "handle_client_request E command tx n =
     (if role n \<noteq> Leader then (Inr (), emit [ReplyClient tx (Inl (current_leader_address n))] n)
      else let entry = \<lparr>entry_term = current_term n, entry_command = command\<rparr>;
               n = n\<lparr>log := log n @ [entry]\<rparr>;
               absolute_index = last_index n
           in and_then (save_log_entry E absolute_index entry n) (\<lambda>_ n.
                let n = (if peers n = [] \<and> commit_index n < absolute_index
                         then apply_logs E (n\<lparr>commit_index := absolute_index\<rparr>) else n);
                    n = n\<lparr>pending_replies := hm_insert absolute_index tx (pending_replies n)\<rparr>
                in (Inr (), if peers n \<noteq> [] then send_heartbeats n else n)))"

definition cluster_info :: "'d RaftNode \<Rightarrow> ClusterInfo" where
  "cluster_info n =
     \<lparr>ci_node_id = node_id n, ci_role = role n, ci_current_term = current_term n,
      ci_leader_id = current_leader n, ci_leader_address = current_leader_address n, ci_peers = peers n,
      ci_commit_index = commit_index n, ci_last_applied = last_applied n,
      ci_log_len = length (log n) + last_included_index n, ci_votes_received = votes_received n,
      ci_cluster_config = cluster_config n, ci_config_change_state = config_change_state n,
      ci_is_safe_mode = is_safe_mode (app_state n)\<rparr>"

definition handle_get_read_index :: "reply_tx \<Rightarrow> 'd RaftNode \<Rightarrow> 'd RaftNode" where
  "handle_get_read_index tx n =
     (if role n \<noteq> Leader then emit [ReplyRead tx (Inl (current_leader_address n))] n
      else let acks = {node_id n};
               confirmed = has_joint_majority (cluster_config n) acks;
               n = n\<lparr>pending_read_indices := pending_read_indices n @
                      [\<lparr>read_index = commit_index n, rd_term = current_term n, rd_acks = acks,
                        majority_confirmed = confirmed, rd_reply_tx = tx\<rparr>]\<rparr>;
               n = (if confirmed then check_read_indices n else n)
           in if peers n \<noteq> [] then send_heartbeats n else n)"

fun handle_event :: "'d env \<Rightarrow> Event \<Rightarrow> 'd RaftNode \<Rightarrow> ('d, unit) res" where
  "handle_event E (Rpc msg tx) n =
     and_then (handle_rpc E msg n) (\<lambda>response n.
       (Inr (), case tx of Some tx \<Rightarrow> emit [ReplyRpc tx response] n | None \<Rightarrow> n))"
| "handle_event E (ClientRequest command tx) n = handle_client_request E command tx n"
| "handle_event E (GetLeaderInfo tx) n = (Inr (), emit [ReplyLeader tx (current_leader_address n)] n)"
| "handle_event E (GetClusterInfo tx) n = (Inr (), emit [ReplyInfo tx (cluster_info n)] n)"
| "handle_event E (GetReadIndex tx) n = (Inr (), handle_get_read_index tx n)"

fun handle_events :: "'d env \<Rightarrow> Event list \<Rightarrow> 'd RaftNode \<Rightarrow> ('d, unit) res" where
  "handle_events E [] n = (Inr (), n)"
| "handle_events E (e # es) n = and_then (handle_event E e n) (\<lambda>_ n. handle_events E es n)"

fun is_client_request :: "Event \<Rightarrow> bool" where
  "is_client_request (ClientRequest _ _) = True"
| "is_client_request _ = False"

fun request_of :: "Event \<Rightarrow> (Command \<times> reply_tx) option" where
  "request_of (ClientRequest c tx) = Some (c, tx)"
| "request_of _ = None"

text \<open>The batched client requests: append all, persist all at once, roll back in memory if that fails.\<close>

fun push_requests :: "(Command \<times> reply_tx) list \<Rightarrow> 'd RaftNode \<Rightarrow>
    (usize \<times> LogEntry) list \<times> (usize \<times> reply_tx) list \<times> 'd RaftNode" where
  "push_requests [] n = ([], [], n)"
| "push_requests ((command, tx) # rs) n =
     (let entry = \<lparr>entry_term = current_term n, entry_command = command\<rparr>;
          n = n\<lparr>log := log n @ [entry]\<rparr>;
          absolute_index = last_included_index n + length (log n) - 1;
          (es, txs, n) = push_requests rs n
      in ((absolute_index, entry) # es, (absolute_index, tx) # txs, n))"

definition handle_client_batch :: "'d env \<Rightarrow> (Command \<times> reply_tx) list \<Rightarrow> 'd RaftNode \<Rightarrow> ('d, unit) res" where
  "handle_client_batch E rs n =
     (if role n \<noteq> Leader
      then (Inr (), emit (map (\<lambda>(_, tx). ReplyClient tx (Inl (current_leader_address n))) rs) n)
      else let pre_batch_len = length (log n);
               (es, txs, n) = push_requests rs n
           in case save_log_entries_batch E es n of
                (Inl e, n) \<Rightarrow>
                  (Inl e, emit (map (\<lambda>(_, tx). ReplyClient tx (Inl None)) txs)
                            (n\<lparr>log := take pre_batch_len (log n)\<rparr>))
              | (Inr _, n) \<Rightarrow>
                  (let n = n\<lparr>pending_replies := fold (\<lambda>(i, tx). hm_insert i tx) txs (pending_replies n)\<rparr>;
                       last_idx = last_included_index n + length (log n) - 1;
                       n = (if peers n = [] \<and> commit_index n < last_idx
                            then apply_logs E (n\<lparr>commit_index := last_idx\<rparr>) else n)
                   in (Inr (), send_heartbeats n)))"

definition handle_event_batch :: "'d env \<Rightarrow> Event list \<Rightarrow> 'd RaftNode \<Rightarrow> ('d, unit) res" where
  "handle_event_batch E evs n =
     and_then (handle_events E (filter (\<lambda>e. \<not> is_client_request e) evs) n) (\<lambda>_ n.
       let rs = List.map_filter request_of evs
       in if rs = [] then (Inr (), n) else handle_client_batch E rs n)"

subsection \<open>Membership changes\<close>

text \<open>Append a membership command of the current term and persist it.\<close>

definition append_membership :: "'d env \<Rightarrow> MembershipCommand \<Rightarrow> 'd RaftNode \<Rightarrow> ('d, usize) res" where
  "append_membership E c n =
     (let entry = \<lparr>entry_term = current_term n, entry_command = Membership c\<rparr>;
          n = n\<lparr>log := log n @ [entry]\<rparr>;
          absolute_index = last_index n
      in and_then (save_log_entry E absolute_index entry n) (\<lambda>_ n. (Inr absolute_index, n)))"

definition promote_non_voting_members :: "'d env \<Rightarrow> 'd RaftNode \<Rightarrow> ('d, unit) res" where
  "promote_non_voting_members E n =
     (case config_change_state n of
        AddingServers servers _ \<Rightarrow>
          (case cluster_config n of
             Simple old_members v \<Rightarrow>
               let new_members = fold (\<lambda>(i, addr, _). hm_insert i addr) servers old_members
               in and_then (append_membership E (BeginJointConsensus old_members new_members (v + 1)) n)
                    (\<lambda>joint_index n.
                      (Inr (), n\<lparr>config_change_state := InJointConsensus joint_index new_members,
                                 non_voting_members := [], catch_up_progress := []\<rparr>))
           | Joint _ _ _ \<Rightarrow> (Inl (Failed ''Cannot promote: already in joint consensus''), n))
      | _ \<Rightarrow> (Inr (), n))"

definition check_promote_non_voting_members :: "'d env \<Rightarrow> 'd RaftNode \<Rightarrow> ('d, unit) res" where
  "check_promote_non_voting_members E n =
     (case config_change_state n of
        AddingServers servers _ \<Rightarrow>
          if list_all (\<lambda>(_, _, progress). is_caught_up progress (commit_index n)) servers
          then promote_non_voting_members E n else (Inr (), n)
      | _ \<Rightarrow> (Inr (), n))"

definition check_finalize_joint_consensus :: "'d env \<Rightarrow> 'd RaftNode \<Rightarrow> ('d, unit) res" where
  "check_finalize_joint_consensus E n =
     (case config_change_state n of
        InJointConsensus joint_config_index target_config \<Rightarrow>
          if joint_config_index \<le> commit_index n
          then and_then (append_membership E
                  (FinalizeConfiguration target_config (config_version (cluster_config n) + 1)) n)
                 (\<lambda>_ n. (Inr (), n))
          else (Inr (), n)
      | _ \<Rightarrow> (Inr (), n))"

text \<open>The wait of \<open>initiate_leader_transfer\<close>: heartbeats until the target has caught up, at most
  \<open>attempts\<close> times. The node is not scheduled in between, so no reply is handled.\<close>

fun transfer_wait :: "nat \<Rightarrow> nat \<Rightarrow> 'd RaftNode \<Rightarrow> ('d, unit) res" where
  "transfer_wait target_peer_idx attempts n =
     (if match_index n ! target_peer_idx < last_index n
      then case attempts of
             0 \<Rightarrow> (Inl (Failed ''Timeout waiting for target server to catch up''), n)
           | Suc k \<Rightarrow> transfer_wait target_peer_idx k (send_heartbeats n)
      else (Inr (), n))"

declare transfer_wait.simps [simp del]

definition initiate_leader_transfer :: "'d env \<Rightarrow> usize \<Rightarrow> 'd RaftNode \<Rightarrow> ('d, unit) res" where
  "initiate_leader_transfer E target_id n =
     (case hm_get (all_members (cluster_config n)) target_id of
        None \<Rightarrow> (Inl (Failed ''Target server not found in cluster''), n)
      | Some target_addr \<Rightarrow>
          (case position_of target_addr (peers n) of
             None \<Rightarrow> (Inl (Failed ''Target server not in peers list''), n)
           | Some target_peer_idx \<Rightarrow>
               if length (match_index n) \<le> target_peer_idx then (Inl IndexPanic, n)
               else and_then (transfer_wait target_peer_idx 50 n) (\<lambda>_ n.
                 let n = emit [SendTimeoutNow target_addr \<lparr>tn_term = current_term n, sender_id = node_id n\<rparr>] n;
                     n = step_down_to_follower E (current_term n) None n
                 in (Inr (), n\<lparr>current_leader := None, current_leader_address := None\<rparr>))))"

definition handle_add_servers_request :: "members \<Rightarrow> 'd RaftNode \<Rightarrow> ('d, unit) res" where
  "handle_add_servers_request servers n =
     (if role n \<noteq> Leader then (Inl (Failed ''Not the leader''), n)
      else if config_change_state n \<noteq> NoChange
      then (Inl (Failed ''Configuration change already in progress''), n)
      else if servers = [] then (Inl (Failed ''No servers to add''), n)
      else if list_ex (\<lambda>i. hm_contains i (all_members (cluster_config n))) (hm_keys servers)
      then (Inl (Failed ''Server already exists''), n)
      else (Inr (), n\<lparr>config_change_state := AddingServers
                        (map (\<lambda>(i, addr). (i, addr, CatchUpProgress_new (monotonic_time n))) servers)
                        (monotonic_time n),
               non_voting_members := fold (\<lambda>(i, addr). hm_insert i addr) servers (non_voting_members n),
               server_roles := fold (\<lambda>i. hm_insert i NonVoting) (hm_keys servers) (server_roles n),
               catch_up_progress := fold (\<lambda>i. hm_insert i (CatchUpProgress_new (monotonic_time n)))
                                      (hm_keys servers) (catch_up_progress n),
               next_index := next_index n @
                 replicate (length servers) (length (log n) + last_included_index n),
               match_index := match_index n @ replicate (length servers) (last_included_index n)\<rparr>))"

definition begin_remove_servers_joint_consensus :: "'d env \<Rightarrow> usize list \<Rightarrow> 'd RaftNode \<Rightarrow> ('d, unit) res" where
  "begin_remove_servers_joint_consensus E server_ids n =
     (case cluster_config n of
        Simple old_members v \<Rightarrow>
          let new_members = fold hm_remove server_ids old_members
          in and_then (append_membership E (BeginJointConsensus old_members new_members (v + 1)) n)
               (\<lambda>joint_index n. (Inr (), n\<lparr>config_change_state := InJointConsensus joint_index new_members\<rparr>))
      | Joint _ _ _ \<Rightarrow> (Inl (Failed ''Invalid state''), n))"

definition handle_remove_servers_request :: "'d env \<Rightarrow> usize list \<Rightarrow> 'd RaftNode \<Rightarrow> ('d, unit) res" where
  "handle_remove_servers_request E server_ids n =
     (if role n \<noteq> Leader then (Inl (Failed ''Not the leader''), n)
      else if config_change_state n \<noteq> NoChange
      then (Inl (Failed ''Configuration change already in progress''), n)
      else if server_ids = [] then (Inl (Failed ''No servers to remove''), n)
      else case cluster_config n of
          Joint _ _ _ \<Rightarrow> (Inl (Failed ''Cannot remove servers during joint consensus''), n)
        | Simple current_members _ \<Rightarrow>
            if u64_sub (length current_members) (length server_ids) < 1
            then (Inl (Failed ''Cannot remove all servers''), n)
            else if node_id n \<in> set server_ids
            then (case find (\<lambda>i. i \<notin> set server_ids \<and> i \<noteq> node_id n) (hm_keys current_members) of
                    Some target_id \<Rightarrow>
                      initiate_leader_transfer E target_id
                        (n\<lparr>config_change_state := TransferringLeadership target_id server_ids\<rparr>)
                  | None \<Rightarrow> (Inl (Failed ''No suitable target for leader transfer''), n))
            else begin_remove_servers_joint_consensus E server_ids n)"

subsection \<open>The tick\<close>

definition SNAPSHOT_THRESHOLD :: nat where
  "SNAPSHOT_THRESHOLD = 100"

definition tick :: "'d env \<Rightarrow> bool \<Rightarrow> 'd RaftNode \<Rightarrow> ('d, unit) res" where
  "tick E timer_elapsed n =
     (let n = n\<lparr>monotonic_time := monotonic_time n + 1\<rparr>
      in and_then (case role n of
                     Leader \<Rightarrow>
                       and_then (check_promote_non_voting_members E (send_heartbeats n)) (\<lambda>_ n.
                         check_finalize_joint_consensus E n)
                   | _ \<Rightarrow> if timer_elapsed then start_election E n else (Inr (), n)) (\<lambda>_ n.
           let n = apply_logs E n
           in if SNAPSHOT_THRESHOLD < length (log n) \<and> last_included_index n < last_applied n
              then create_snapshot E n else (Inr (), n)))"

end
