(* ===== verification/RaftFrame.thy ===== *)
theory RaftFrame
  imports RaftNode
begin

section \<open>What the parts of a handler leave alone\<close>

text \<open>
  Frame lemmas. Each helper of a Raft node is classified by what it may change: only the store
  (\<open>db_only\<close>), only messages and replication positions (\<open>sent_only\<close>), or what applying the log may
  change (\<open>applied_only\<close>). The fields it keeps are then simplification rules.
\<close>

definition db_only :: "'d RaftNode \<Rightarrow> 'd RaftNode \<Rightarrow> bool" where
  "db_only n n' \<longleftrightarrow> (\<exists>d. n' = n\<lparr>db := d\<rparr>)"

definition sent_only :: "'d RaftNode \<Rightarrow> 'd RaftNode \<Rightarrow> bool" where
  "sent_only n n' \<longleftrightarrow> (\<exists>ni os. n' = n\<lparr>next_index := ni, outbox := os\<rparr>)"

definition applied_only :: "'d RaftNode \<Rightarrow> 'd RaftNode \<Rightarrow> bool" where
  "applied_only n n' \<longleftrightarrow>
    node_id n' = node_id n \<and> client_address n' = client_address n \<and> role n' = role n \<and>
    current_term n' = current_term n \<and> voted_for n' = voted_for n \<and> log n' = log n \<and>
    commit_index n' = commit_index n \<and> current_leader n' = current_leader n \<and>
    current_leader_address n' = current_leader_address n \<and>
    last_included_index n' = last_included_index n \<and>
    last_included_term n' = last_included_term n \<and> votes_received n' = votes_received n \<and>
    voters n' = voters n \<and> server_roles n' = server_roles n \<and>
    non_voting_members n' = non_voting_members n \<and>
    catch_up_progress n' = catch_up_progress n \<and>
    last_committed_config_index n' = last_committed_config_index n \<and>
    monotonic_time n' = monotonic_time n"

lemma db_onlyD:
  assumes "db_only n n'"
  shows
    "node_id n' = node_id n" "peers n' = peers n" "client_address n' = client_address n"
    "role n' = role n" "current_term n' = current_term n" "voted_for n' = voted_for n" "log n' = log n"
    "commit_index n' = commit_index n" "last_applied n' = last_applied n"
    "next_index n' = next_index n" "match_index n' = match_index n"
    "current_leader n' = current_leader n" "current_leader_address n' = current_leader_address n"
    "last_included_index n' = last_included_index n" "last_included_term n' = last_included_term n"
    "app_state n' = app_state n" "votes_received n' = votes_received n" "voters n' = voters n"
    "pending_read_indices n' = pending_read_indices n" "pending_replies n' = pending_replies n"
    "cluster_config n' = cluster_config n" "server_roles n' = server_roles n"
    "config_change_state n' = config_change_state n" "non_voting_members n' = non_voting_members n"
    "catch_up_progress n' = catch_up_progress n"
    "last_committed_config_index n' = last_committed_config_index n"
    "monotonic_time n' = monotonic_time n" "outbox n' = outbox n"
  using assms unfolding db_only_def by auto

lemma sent_onlyD:
  assumes "sent_only n n'"
  shows
    "node_id n' = node_id n" "peers n' = peers n" "client_address n' = client_address n"
    "role n' = role n" "current_term n' = current_term n" "voted_for n' = voted_for n" "log n' = log n"
    "commit_index n' = commit_index n" "last_applied n' = last_applied n"
    "match_index n' = match_index n" "current_leader n' = current_leader n"
    "current_leader_address n' = current_leader_address n"
    "last_included_index n' = last_included_index n" "last_included_term n' = last_included_term n"
    "app_state n' = app_state n" "votes_received n' = votes_received n" "voters n' = voters n"
    "db n' = db n" "pending_read_indices n' = pending_read_indices n"
    "pending_replies n' = pending_replies n" "cluster_config n' = cluster_config n"
    "server_roles n' = server_roles n" "config_change_state n' = config_change_state n"
    "non_voting_members n' = non_voting_members n" "catch_up_progress n' = catch_up_progress n"
    "last_committed_config_index n' = last_committed_config_index n"
    "monotonic_time n' = monotonic_time n"
  using assms unfolding sent_only_def by auto

lemma applied_onlyD:
  assumes "applied_only n n'"
  shows
    "node_id n' = node_id n" "client_address n' = client_address n" "role n' = role n"
    "current_term n' = current_term n" "voted_for n' = voted_for n" "log n' = log n"
    "commit_index n' = commit_index n" "current_leader n' = current_leader n"
    "current_leader_address n' = current_leader_address n"
    "last_included_index n' = last_included_index n" "last_included_term n' = last_included_term n"
    "votes_received n' = votes_received n" "voters n' = voters n" "server_roles n' = server_roles n"
    "non_voting_members n' = non_voting_members n" "catch_up_progress n' = catch_up_progress n"
    "last_committed_config_index n' = last_committed_config_index n"
    "monotonic_time n' = monotonic_time n"
  using assms unfolding applied_only_def by blast+

subsection \<open>Changes of the store\<close>

lemma db_only_refl [simp]: "db_only n n"
  unfolding db_only_def by (rule exI [of _ "db n"]) simp

lemma db_only_upd [simp]: "db_only n (n\<lparr>db := d\<rparr>)"
  unfolding db_only_def by blast

lemma db_only_trans: "db_only n n' \<Longrightarrow> db_only n' n'' \<Longrightarrow> db_only n n''"
  unfolding db_only_def by auto

lemma save_db_only:
  "db_only n (snd (save_term E n))" "db_only n (snd (save_vote E n))"
  "db_only n (snd (save_log_entry E i e n))" "db_only n (snd (save_log_entries_batch E es n))"
  "db_only n (snd (save_config E n))" "db_only n (snd (put_snapshot E i t s n))"
  by (simp_all add: save_term_def save_vote_def save_log_entry_def save_log_entries_batch_def
      save_config_def put_snapshot_def Let_def split: prod.split)

lemma delete_log_keys_db_only: "db_only n (snd (delete_log_keys E is n))"
proof (induction "is" arbitrary: n)
  case (Cons i "is")
  then show ?case
    by (auto split: prod.split intro: db_only_trans [OF db_only_upd])
qed simp

lemma delete_log_loop_db_only: "db_only n (snd (delete_log_loop E is n))"
proof (induction "is" arbitrary: n)
  case (Cons i "is")
  then show ?case
    by (auto split: prod.split option.split intro: db_only_trans [OF db_only_upd])
qed simp

lemma delete_log_entries_from_db_only: "db_only n (snd (delete_log_entries_from E i n))"
  by (simp add: delete_log_entries_from_def delete_log_loop_db_only)

lemmas db_frames [simp] =
  db_onlyD [OF save_db_only(1)] db_onlyD [OF save_db_only(2)] db_onlyD [OF save_db_only(3)]
  db_onlyD [OF save_db_only(4)] db_onlyD [OF save_db_only(5)] db_onlyD [OF save_db_only(6)]
  db_onlyD [OF delete_log_keys_db_only] db_onlyD [OF delete_log_entries_from_db_only]

subsection \<open>Sending\<close>

lemma sent_only_refl [simp]: "sent_only n n"
  unfolding sent_only_def by (rule exI [of _ "next_index n"], rule exI [of _ "outbox n"]) simp

lemma sent_only_trans: "sent_only n n' \<Longrightarrow> sent_only n' n'' \<Longrightarrow> sent_only n n''"
  unfolding sent_only_def by (elim exE) (simp, blast)

lemma emit_sent_only [simp]: "sent_only n (emit os n)"
  unfolding sent_only_def emit_def
  by (rule exI [of _ "next_index n"], rule exI [of _ "outbox n @ os"]) simp

lemma next_index_sent_only [simp]: "sent_only n (n\<lparr>next_index := ni\<rparr>)"
  unfolding sent_only_def by (rule exI [of _ ni], rule exI [of _ "outbox n"]) simp

lemma heartbeat_to_sent_only: "sent_only n (heartbeat_to p n)"
  by (simp add: heartbeat_to_def Let_def split: prod.split option.split)

lemma send_heartbeats_sent_only: "sent_only n (send_heartbeats n)"
proof -
  have "sent_only n (fold heartbeat_to ps n)" for ps
    by (induction ps arbitrary: n) (auto intro: sent_only_trans heartbeat_to_sent_only)
  then show ?thesis by (simp add: send_heartbeats_def)
qed

lemma emit_next_index [simp]: "next_index (emit os n) = next_index n"
  by (simp add: emit_def)

lemma emit_outbox [simp]: "outbox (emit os n) = outbox n @ os"
  by (simp add: emit_def)

lemmas sent_frames [simp] = sent_onlyD [OF emit_sent_only] sent_onlyD [OF send_heartbeats_sent_only]

subsection \<open>Applying\<close>

lemma applied_only_refl [simp]: "applied_only n n"
  by (simp add: applied_only_def)

lemma applied_only_trans: "applied_only n n' \<Longrightarrow> applied_only n' n'' \<Longrightarrow> applied_only n n''"
  unfolding applied_only_def by metis

lemma check_read_indices_applied_only: "applied_only n (check_read_indices n)"
  by (simp add: applied_only_def check_read_indices_def Let_def)

lemma update_peer_tracking_applied_only: "applied_only n (update_peer_tracking n)"
  by (simp add: applied_only_def update_peer_tracking_def Let_def)

lemma apply_membership_command_applied_only: "applied_only n (apply_membership_command E c n)"
  by (cases c) (simp_all add: applied_only_def applied_onlyD [OF update_peer_tracking_applied_only])

lemma apply_next_applied_only: "applied_only n (apply_next E n)"
  by (simp add: applied_only_def apply_next_def Let_def applied_onlyD [OF check_read_indices_applied_only]
      applied_onlyD [OF apply_membership_command_applied_only] split: option.split Command.split)

lemma apply_logs_applied_only: "applied_only n (apply_logs E n)"
proof (induction E n rule: apply_logs.induct)
  case (1 E n)
  then show ?case
    by (subst apply_logs.simps) (auto intro: applied_only_trans apply_next_applied_only)
qed

lemmas applied_frames [simp] =
  applied_onlyD [OF check_read_indices_applied_only] applied_onlyD [OF apply_logs_applied_only]

lemma check_read_indices_frames [simp]:
  "last_applied (check_read_indices n) = last_applied n" "db (check_read_indices n) = db n"
  "cluster_config (check_read_indices n) = cluster_config n" "peers (check_read_indices n) = peers n"
  "next_index (check_read_indices n) = next_index n" "match_index (check_read_indices n) = match_index n"
  "app_state (check_read_indices n) = app_state n" "pending_replies (check_read_indices n) = pending_replies n"
  by (simp_all add: check_read_indices_def Let_def)

lemma last_applied_apply_logs [simp]:
  "last_applied (apply_logs E n) = max (last_applied n) (commit_index n)"
proof (induction E n rule: apply_logs.induct)
  case (1 E n)
  then show ?case by (subst apply_logs.simps) auto
qed

end
