(* ===== verification/RaftVote.thy ===== *)
theory RaftVote
  imports RaftFrame
begin

section \<open>Terms and votes of a node\<close>

text \<open>
  The election part of a node: terms only grow, a node votes at most once per term, what it voted is
  on disk, and it is a candidate or a leader of a term only with its own vote and, as a leader, with a
  majority. The store is assumed to work: \<open>db_laws\<close> states the documented behaviour of RocksDB reads,
  writes, deletes and atomic batches when they succeed.
\<close>

definition contents :: "'d env \<Rightarrow> 'd \<Rightarrow> DbKey \<Rightarrow> DbVal option" where
  "contents E d k = (case db_get E k d of Some v \<Rightarrow> v | None \<Rightarrow> None)"

definition db_laws :: "'d env \<Rightarrow> bool" where
  "db_laws E \<longleftrightarrow>
     (\<forall>k d. db_get E k d \<noteq> None) \<and>
     (\<forall>k v d. fst (db_put E k v d) \<and> contents E (snd (db_put E k v d)) = (contents E d)(k \<mapsto> v)) \<and>
     (\<forall>k d. fst (db_delete E k d) \<and> contents E (snd (db_delete E k d)) = (contents E d)(k := None)) \<and>
     (\<forall>kvs d. fst (db_write E kvs d) \<and>
        contents E (snd (db_write E kvs d)) = fold (\<lambda>(k, v) m. m(k \<mapsto> v)) kvs (contents E d)) \<and>
     (\<forall>i d. contents E d (KLog i) \<noteq> None \<longrightarrow> i < db_bound E d)"

lemma db_lawsD:
  assumes "db_laws E"
  shows "db_get E k d = Some (contents E d k)"
    "fst (db_put E k v d)" "contents E (snd (db_put E k v d)) = (contents E d)(k \<mapsto> v)"
    "fst (db_delete E k d)" "contents E (snd (db_delete E k d)) = (contents E d)(k := None)"
    "fst (db_write E kvs d)"
    "contents E (snd (db_write E kvs d)) = fold (\<lambda>(k, v) m. m(k \<mapsto> v)) kvs (contents E d)"
    "contents E d (KLog i) \<noteq> None \<Longrightarrow> i < db_bound E d"
proof -
  have "db_get E k d \<noteq> None" using assms unfolding db_laws_def by blast
  then show "db_get E k d = Some (contents E d k)" by (auto simp: contents_def)
qed (use assms in \<open>auto simp: db_laws_def\<close>)

text \<open>The term and the vote as \<open>load_state\<close> reads them.\<close>

definition stored_term :: "'d env \<Rightarrow> 'd \<Rightarrow> u64" where
  "stored_term E d = (case contents E d KTerm of Some (VTerm t) \<Rightarrow> t | _ \<Rightarrow> 0)"

definition stored_vote :: "'d env \<Rightarrow> 'd \<Rightarrow> usize option" where
  "stored_vote E d = (case contents E d KVote of Some (VVote v) \<Rightarrow> Some v | _ \<Rightarrow> None)"

definition synced :: "'d env \<Rightarrow> 'd RaftNode \<Rightarrow> bool" where
  "synced E n \<longleftrightarrow> stored_term E (db n) = current_term n \<and> stored_vote E (db n) = voted_for n"

text \<open>The election state, which most helpers keep.\<close>

definition vote_kept :: "'d env \<Rightarrow> 'd RaftNode \<Rightarrow> 'd RaftNode \<Rightarrow> bool" where
  "vote_kept E n n' \<longleftrightarrow> node_id n' = node_id n \<and> current_term n' = current_term n \<and>
     voted_for n' = voted_for n \<and> role n' = role n \<and> voters n' = voters n \<and>
     stored_term E (db n') = stored_term E (db n) \<and> stored_vote E (db n') = stored_vote E (db n)"

lemma vote_kept_refl [simp]: "vote_kept E n n"
  by (simp add: vote_kept_def)

lemma vote_kept_trans [trans]: "vote_kept E n n' \<Longrightarrow> vote_kept E n' n'' \<Longrightarrow> vote_kept E n n''"
  by (simp add: vote_kept_def)

lemma vote_kept_and_then:
  assumes "vote_kept E n (snd r)" "\<And>a. fst r = Inr a \<Longrightarrow> vote_kept E (snd r) (snd (f a (snd r)))"
  shows "vote_kept E n (snd (and_then r f))"
  using assms by (auto simp: and_then_def split: prod.splits sum.splits intro: vote_kept_trans)

lemma sent_only_vote_kept: "sent_only n n' \<Longrightarrow> vote_kept E n n'"
  by (auto simp: vote_kept_def sent_onlyD)

text \<open>Writes to other keys than the term and the vote.\<close>

lemma stored_upd_other:
  assumes "db_laws E" "k \<noteq> KTerm" "k \<noteq> KVote"
  shows "stored_term E (snd (db_put E k v d)) = stored_term E d"
    "stored_vote E (snd (db_put E k v d)) = stored_vote E d"
    "stored_term E (snd (db_delete E k d)) = stored_term E d"
    "stored_vote E (snd (db_delete E k d)) = stored_vote E d"
  using assms by (simp_all add: stored_term_def stored_vote_def db_lawsD)

lemma contents_fold_upd:
  "k \<notin> fst ` set kvs \<Longrightarrow> fold (\<lambda>(k, v) m. m(k \<mapsto> v)) kvs f k = f k"
  by (induction kvs arbitrary: f) auto

lemma vote_kept_db:
  assumes "db_only n n'" "stored_term E (db n') = stored_term E (db n)"
    "stored_vote E (db n') = stored_vote E (db n)"
  shows "vote_kept E n n'"
  using assms by (simp add: vote_kept_def db_onlyD)

lemma save_log_entry_vote_kept: "db_laws E \<Longrightarrow> vote_kept E n (snd (save_log_entry E i e n))"
  by (rule vote_kept_db [OF save_db_only(3)])
    (simp_all add: save_log_entry_def case_prod_beta stored_upd_other)

lemma save_config_vote_kept: "db_laws E \<Longrightarrow> vote_kept E n (snd (save_config E n))"
  by (rule vote_kept_db [OF save_db_only(5)])
    (simp_all add: save_config_def Let_def case_prod_beta stored_upd_other)

lemma put_snapshot_vote_kept: "db_laws E \<Longrightarrow> vote_kept E n (snd (put_snapshot E i t s n))"
  by (rule vote_kept_db [OF save_db_only(6)])
    (simp_all add: put_snapshot_def Let_def case_prod_beta stored_upd_other)

lemma save_batch_vote_kept:
  assumes "db_laws E"
  shows "vote_kept E n (snd (save_log_entries_batch E es n))"
proof (rule vote_kept_db [OF save_db_only(4)])
  let ?kvs = "map (\<lambda>(i, e). (KLog i, VEntry e)) es"
  have "fold (\<lambda>(k, v) m. m(k \<mapsto> v)) ?kvs f k = f k" if "k = KTerm \<or> k = KVote" for k f
    using that by (intro contents_fold_upd) auto
  then show "stored_term E (db (snd (save_log_entries_batch E es n))) = stored_term E (db n)"
    "stored_vote E (db (snd (save_log_entries_batch E es n))) = stored_vote E (db n)"
    using db_lawsD(7) [OF assms, of ?kvs "db n"]
    by (simp_all add: save_log_entries_batch_def stored_term_def stored_vote_def split: prod.split)
      (metis snd_conv)+
qed

lemma delete_log_keys_vote_kept: "db_laws E \<Longrightarrow> vote_kept E n (snd (delete_log_keys E is n))"
proof (induction "is" arbitrary: n)
  case (Cons i "is")
  have "vote_kept E n (n\<lparr>db := snd (db_delete E (KLog i) (db n))\<rparr>)"
    by (rule vote_kept_db) (use Cons in \<open>simp_all add: stored_upd_other\<close>)
  with Cons show ?case by (auto simp: case_prod_beta intro: vote_kept_trans)
qed simp

lemma delete_log_entries_from_vote_kept:
  assumes "db_laws E"
  shows "vote_kept E n (snd (delete_log_entries_from E i n))"
proof -
  have "vote_kept E n (snd (delete_log_loop E is n))" for "is"
  proof (induction "is" arbitrary: n)
    case (Cons i "is")
    have "vote_kept E n (n\<lparr>db := snd (db_delete E (KLog i) (db n))\<rparr>)"
      by (rule vote_kept_db) (use assms in \<open>simp_all add: stored_upd_other\<close>)
    with Cons show ?case by (auto simp: case_prod_beta split: option.split intro: vote_kept_trans)
  qed simp
  then show ?thesis by (simp add: delete_log_entries_from_def)
qed

lemma apply_membership_vote_kept: "db_laws E \<Longrightarrow> vote_kept E n (apply_membership_command E c n)"
proof (cases c)
  case (BeginJointConsensus x y z)
  assume "db_laws E"
  have "vote_kept E n (update_peer_tracking (n\<lparr>cluster_config := Joint x y z\<rparr>))"
    by (simp add: vote_kept_def update_peer_tracking_def Let_def)
  then show ?thesis
    using BeginJointConsensus save_config_vote_kept [OF \<open>db_laws E\<close>] by (auto intro: vote_kept_trans)
next
  case (FinalizeConfiguration x y)
  assume "db_laws E"
  have "vote_kept E n ((update_peer_tracking (n\<lparr>cluster_config := Simple x y\<rparr>))\<lparr>config_change_state := NoChange\<rparr>)"
    by (simp add: vote_kept_def update_peer_tracking_def Let_def)
  then show ?thesis
    using FinalizeConfiguration save_config_vote_kept [OF \<open>db_laws E\<close>] by (auto intro: vote_kept_trans)
qed (simp_all add: vote_kept_def)

lemma apply_logs_vote_kept:
  assumes "db_laws E"
  shows "vote_kept E n (apply_logs E n)"
  using assms
proof (induction E n rule: apply_logs.induct)
  case (1 E n)
  have "vote_kept E n (apply_next E n)"
    using apply_membership_vote_kept [OF 1(2), of "n\<lparr>last_applied := Suc (last_applied n)\<rparr>"]
    by (simp add: vote_kept_def apply_next_def Let_def split: option.split Command.split)
  with 1 show ?case by (subst apply_logs.simps) (auto intro: vote_kept_trans)
qed

subsection \<open>The contract of a handler on terms and votes\<close>

definition vote_inv :: "'d env \<Rightarrow> 'd RaftNode \<Rightarrow> bool" where
  "vote_inv E n \<longleftrightarrow> synced E n \<and> (role n \<noteq> Follower \<longrightarrow> voted_for n = Some (node_id n))"

definition vote_mono :: "'d RaftNode \<Rightarrow> 'd RaftNode \<Rightarrow> bool" where
  "vote_mono n n' \<longleftrightarrow> node_id n' = node_id n \<and>
     (current_term n < current_term n' \<or>
      current_term n' = current_term n \<and> (voted_for n = None \<or> voted_for n' = voted_for n))"

text \<open>A candidate or leader after the step was one before, in the same term, and has at most the votes
  \<open>V\<close> more, or has just voted for itself; a leader was a leader before, or has a majority, or is the
  only member.\<close>

definition campaign :: "usize set \<Rightarrow> 'd RaftNode \<Rightarrow> 'd RaftNode \<Rightarrow> bool" where
  "campaign V n n' \<longleftrightarrow>
     (role n' \<noteq> Follower \<longrightarrow>
        role n \<noteq> Follower \<and> current_term n' = current_term n \<and> voters n' \<subseteq> voters n \<union> V \<or>
        voters n' = {node_id n}) \<and>
     (role n' = Leader \<longrightarrow>
        role n = Leader \<and> current_term n' = current_term n \<and> voters n' = voters n \<or>
        has_joint_majority (cluster_config n) (voters n') \<or>
        length (all_members (cluster_config n)) = 1 \<and> voters n' = {node_id n})"

definition elect_step :: "'d env \<Rightarrow> usize set \<Rightarrow> 'd RaftNode \<Rightarrow> 'd RaftNode \<Rightarrow> bool" where
  "elect_step E V n n' \<longleftrightarrow> vote_inv E n' \<and> vote_mono n n' \<and> campaign V n n'"

lemma elect_step_refl [simp]: "vote_inv E n \<Longrightarrow> elect_step E V n n"
  by (auto simp: elect_step_def vote_mono_def campaign_def)

lemma elect_step_kept: "elect_step E V n n' \<Longrightarrow> vote_kept E n' n'' \<Longrightarrow> elect_step E V n n''"
  by (simp add: elect_step_def vote_inv_def synced_def vote_mono_def campaign_def vote_kept_def)

lemma vote_kept_elect_step: "vote_inv E n \<Longrightarrow> vote_kept E n n' \<Longrightarrow> elect_step E V n n'"
  by (rule elect_step_kept [OF elect_step_refl])

lemma elect_step_Follower:
  assumes "synced E n'" "vote_mono n n'" "role n' = Follower"
  shows "elect_step E V n n'"
  using assms by (simp add: elect_step_def vote_inv_def campaign_def)

lemma save_term_stored:
  assumes "db_laws E"
  shows "fst (save_term E n) = Inr ()"
    "stored_term E (db (snd (save_term E n))) = current_term n"
    "stored_vote E (db (snd (save_term E n))) = stored_vote E (db n)"
  by (simp_all add: save_term_def case_prod_beta stored_term_def stored_vote_def db_lawsD [OF assms])

lemma save_vote_stored:
  assumes "db_laws E"
  shows "fst (save_vote E n) = Inr ()"
    "stored_vote E (db (snd (save_vote E n))) = voted_for n"
    "stored_term E (db (snd (save_vote E n))) = stored_term E (db n)"
  by (cases "voted_for n";
      simp add: save_vote_def case_prod_beta stored_term_def stored_vote_def db_lawsD [OF assms])+

lemma and_then_Inr: "fst r = Inr a \<Longrightarrow> and_then r f = f a (snd r)"
  by (auto simp: and_then_def split: prod.splits)

lemma step_down_vote:
  assumes "db_laws E" "synced E n"
  shows "role (step_down_to_follower E t h n) = Follower"
    "node_id (step_down_to_follower E t h n) = node_id n"
    "synced E (step_down_to_follower E t h n)"
    "current_term (step_down_to_follower E t h n) = max t (current_term n)"
    "voted_for (step_down_to_follower E t h n) = (if current_term n < t then None else voted_for n)"
  using assms
  by (auto simp: step_down_to_follower_def Let_def synced_def save_term_stored save_vote_stored
      split: option.split)

lemma adopt_term_vote:
  assumes "db_laws E" "synced E n"
  shows "role (adopt_term E t n) = Follower" "node_id (adopt_term E t n) = node_id n"
    "synced E (adopt_term E t n)" "current_term (adopt_term E t n) = max t (current_term n)"
    "voted_for (adopt_term E t n) = (if current_term n < t then None else voted_for n)"
  using step_down_vote [OF assms, of t None] by (simp_all add: adopt_term_def synced_def)

lemma step_down_elect_step:
  assumes "db_laws E" "vote_inv E n"
  shows "elect_step E V n (step_down_to_follower E t h n)" "elect_step E V n (adopt_term E t n)"
  using assms
  by (auto intro!: elect_step_Follower simp: step_down_vote adopt_term_vote vote_inv_def vote_mono_def)

lemma become_leader_kept:
  assumes "db_laws E"
  shows "vote_kept E (n\<lparr>role := Leader\<rparr>) (become_leader E n)"
proof -
  let ?m = "n\<lparr>role := Leader, current_leader := Some (node_id n),
    current_leader_address := Some (client_address n),
    log := log n @ [\<lparr>entry_term = current_term n, entry_command = NoOp\<rparr>]\<rparr>"
  let ?s = "snd (save_log_entry E (last_index ?m) \<lparr>entry_term = current_term n, entry_command = NoOp\<rparr> ?m)"
  let ?t = "?s\<lparr>next_index := replicate (length (peers ?s)) (length (log ?s) + last_included_index ?s),
               match_index := replicate (length (peers ?s)) (last_included_index ?s)\<rparr>"
  have "vote_kept E (n\<lparr>role := Leader\<rparr>) ?m" by (simp add: vote_kept_def)
  also have "vote_kept E ?m ?s" by (rule save_log_entry_vote_kept [OF assms])
  also have "vote_kept E ?s ?t" by (simp add: vote_kept_def)
  finally have t: "vote_kept E (n\<lparr>role := Leader\<rparr>) ?t" .
  have "vote_kept E ?t (apply_logs E (?t\<lparr>commit_index := i\<rparr>))" for i
    by (rule vote_kept_trans [OF _ apply_logs_vote_kept [OF assms]]) (simp add: vote_kept_def)
  with t show ?thesis
    by (auto simp: become_leader_def Let_def intro: vote_kept_trans)
qed

lemma start_election_elect_step:
  assumes "db_laws E" "vote_inv E n"
  shows "elect_step E V n (snd (start_election E n))"
proof -
  define n1 where "n1 = snd (save_term E (n\<lparr>role := Candidate, current_term := current_term n + 1\<rparr>))"
  define n2 where "n2 = snd (save_vote E (n1\<lparr>voted_for := Some (node_id n1)\<rparr>))"
  define n3 where "n3 = n2\<lparr>votes_received := 1, voters := {node_id n2}\<rparr>"
  have n3: "node_id n3 = node_id n" "current_term n3 = Suc (current_term n)"
    "voted_for n3 = Some (node_id n)" "voters n3 = {node_id n}" "role n3 = Candidate" "synced E n3"
    "cluster_config n3 = cluster_config n"
    by (simp_all add: n3_def n2_def n1_def synced_def save_term_stored save_vote_stored assms(1))
  then have step: "elect_step E V n n3"
    by (simp add: elect_step_def vote_inv_def vote_mono_def campaign_def)
  have eq: "snd (start_election E n) =
      (if length (all_members (cluster_config n3)) = 1 then become_leader E n3
       else emit (map (\<lambda>peer. SendVote peer (vote_args n3)) (peers n3)) n3)"
    by (simp add: start_election_def Let_def and_then_Inr [OF save_term_stored(1) [OF assms(1)]]
        and_then_Inr [OF save_vote_stored(1) [OF assms(1)]] n1_def n2_def n3_def)
  have "elect_step E V n (n3\<lparr>role := Leader\<rparr>)" if "length (all_members (cluster_config n)) = 1"
    using n3 that by (simp add: elect_step_def vote_inv_def vote_mono_def campaign_def synced_def)
  then show ?thesis
    using step n3(7) become_leader_kept [OF assms(1), of n3]
      elect_step_kept [OF step sent_only_vote_kept [OF emit_sent_only]]
    by (auto simp: eq intro: elect_step_kept)
qed

lemma handle_timeout_now_elect_step:
  assumes "db_laws E" "vote_inv E n"
  shows "elect_step E V n (snd (handle_timeout_now E args n))"
proof (cases "tn_term args < current_term n")
  case False
  define n0 where "n0 = (if current_term n < tn_term args then step_down_to_follower E (tn_term args) None n else n)"
  define n1 where "n1 = snd (save_term E (n0\<lparr>role := Candidate, current_term := current_term n0 + 1\<rparr>))"
  define n2 where "n2 = snd (save_vote E (n1\<lparr>voted_for := Some (node_id n1)\<rparr>))"
  have n0: "node_id n0 = node_id n" "current_term n \<le> current_term n0"
    using assms by (auto simp: n0_def step_down_vote vote_inv_def)
  have "snd (handle_timeout_now E args n) = n2\<lparr>votes_received := 1, voters := {node_id n2}\<rparr>"
    using False
    by (simp add: handle_timeout_now_def Let_def and_then_Inr [OF save_term_stored(1) [OF assms(1)]]
        and_then_Inr [OF save_vote_stored(1) [OF assms(1)]] n0_def n1_def n2_def)
  then show ?thesis
    using n0 by (simp add: elect_step_def vote_inv_def vote_mono_def campaign_def n2_def n1_def
        synced_def save_term_stored save_vote_stored assms(1))
qed (use assms in \<open>simp add: handle_timeout_now_def\<close>)

lemma handle_request_vote_elect_step:
  assumes "db_laws E" "vote_inv E n"
  shows "elect_step E V n (snd (handle_request_vote E args n))"
proof (cases "current_term n \<le> rv_term args")
  case True
  define n1 where "n1 = (if current_term n < rv_term args then adopt_term E (rv_term args) n else n)"
  have n1: "vote_inv E n1" "node_id n1 = node_id n" "current_term n1 = rv_term args"
    "current_term n < rv_term args \<Longrightarrow> role n1 = Follower"
    "current_term n = rv_term args \<Longrightarrow> n1 = n"
    using assms True by (auto simp: n1_def adopt_term_vote vote_inv_def)
  have step: "elect_step E V n n1"
    using assms by (simp add: n1_def step_down_elect_step)
  define n2 where "n2 = snd (save_vote E (n1\<lparr>voted_for := Some (candidate_id args)\<rparr>))"
  have n2: "node_id n2 = node_id n" "current_term n2 = rv_term args" "role n2 = role n1"
    "voters n2 = voters n1" "voted_for n2 = Some (candidate_id args)" "synced E n2"
    using n1(1-3) by (simp_all add: n2_def synced_def vote_inv_def save_vote_stored assms(1))
  have "elect_step E V n n2" if "voted_for n1 = None \<or> voted_for n1 = Some (candidate_id args)"
  proof (cases "current_term n < rv_term args")
    case True
    with n1 n2 show ?thesis by (intro elect_step_Follower) (simp_all add: vote_mono_def)
  next
    case False
    with \<open>current_term n \<le> rv_term args\<close> n1 n2 that assms(2) show ?thesis
      by (auto simp: elect_step_def vote_inv_def vote_mono_def campaign_def)
  qed
  moreover have "snd (handle_request_vote E args n) =
      (if (voted_for n1 = None \<or> voted_for n1 = Some (candidate_id args)) \<and> log_is_up_to_date args n1
       then n2 else n1)"
    using True by (simp add: handle_request_vote_def Let_def
        and_then_Inr [OF save_vote_stored(1) [OF assms(1)]] n1_def n2_def)
  ultimately show ?thesis using step by auto
qed (use assms in \<open>simp add: handle_request_vote_def\<close>)

text \<open>A granted vote: the reply names the term and the voter, and the voter has voted for the candidate.\<close>

lemma handle_request_vote_granted:
  assumes "db_laws E" "handle_request_vote E args n = (Inr (RequestVoteResponse r), n')" "vote_granted r"
  shows "rvr_peer_id r = node_id n' \<and> rvr_term r = current_term n' \<and> voted_for n' = Some (candidate_id args)"
  using assms(2,3)
  by (auto simp: handle_request_vote_def Let_def vote_reply_def
      and_then_Inr [OF save_vote_stored(1) [OF assms(1)]] split: if_splits)

lemma handle_request_vote_response_elect_step:
  assumes "db_laws E" "vote_inv E n"
    and V: "vote_granted reply \<Longrightarrow> current_term n = rvr_term reply \<Longrightarrow> rvr_peer_id reply \<in> V"
  shows "elect_step E V n (snd (handle_request_vote_response E reply n))"
proof (cases "role n = Candidate \<and> current_term n = rvr_term reply \<and> vote_granted reply")
  case True
  define n1 where "n1 = n\<lparr>votes_received := votes_received n + 1, voters := insert (rvr_peer_id reply) (voters n)\<rparr>"
  have n1: "node_id n1 = node_id n" "current_term n1 = current_term n" "voted_for n1 = voted_for n"
    "role n1 = Candidate" "voters n1 = insert (rvr_peer_id reply) (voters n)"
    "cluster_config n1 = cluster_config n" "synced E n1"
    using True assms(2) by (simp_all add: n1_def synced_def vote_inv_def)
  have V: "voters n1 \<subseteq> voters n \<union> V" using V True n1(5) by auto
  have "elect_step E V n n1"
    using n1 V True assms(2) by (simp add: elect_step_def vote_inv_def vote_mono_def campaign_def)
  moreover have "elect_step E V n (become_leader E n1)" if "has_joint_majority (cluster_config n1) (voters n1)"
  proof (rule elect_step_kept [OF _ become_leader_kept [OF assms(1)]])
    show "elect_step E V n (n1\<lparr>role := Leader\<rparr>)"
      using n1 V True assms(2) that
      by (simp add: elect_step_def vote_inv_def vote_mono_def campaign_def synced_def)
  qed
  ultimately show ?thesis
    using True by (simp add: handle_request_vote_response_def Let_def n1_def)
next
  case False
  then have "snd (handle_request_vote_response E reply n) =
      (if current_term n < rvr_term reply then adopt_term E (rvr_term reply) n else n)"
    by (auto simp: handle_request_vote_response_def Let_def)
  with assms(1,2) show ?thesis by (simp add: step_down_elect_step)
qed

lemma append_at_snapshot_vote_kept:
  "db_laws E \<Longrightarrow> vote_kept E n (snd (append_at_snapshot E i es batch n))"
proof (induction es arbitrary: i batch n)
  case (Cons e es)
  have upd: "vote_kept E n (n\<lparr>log := l\<rparr>)" for n l by (simp add: vote_kept_def)
  have app: "vote_kept E n (snd (append_at_snapshot E j es b (n\<lparr>log := l\<rparr>)))" for n l j b
    by (rule vote_kept_trans [OF upd Cons.IH [OF Cons.prems]])
  have "vote_kept E n (snd (delete_log_entries_from E i (n\<lparr>log := l\<rparr>)))" for l
    by (rule vote_kept_trans [OF upd delete_log_entries_from_vote_kept [OF Cons.prems]])
  with app Cons show ?case
    by (auto simp: Let_def intro!: vote_kept_and_then)
qed simp

lemma truncate_conflict_vote_kept: "db_laws E \<Longrightarrow> vote_kept E n (snd (truncate_conflict E i es n))"
proof (induction es arbitrary: i n)
  case (Cons e es)
  have "vote_kept E n (snd (delete_log_entries_from E i (n\<lparr>log := l\<rparr>)))" for l
    by (rule vote_kept_trans [OF _ delete_log_entries_from_vote_kept [OF Cons.prems]])
      (simp add: vote_kept_def)
  with Cons show ?case by (auto simp: Let_def)
qed simp

lemma append_missing_vote_kept: "vote_kept E n (snd (append_missing i es batch n))"
proof (induction es arbitrary: i batch n)
  case (Cons e es)
  have "vote_kept E n (snd (append_missing j es b (n\<lparr>log := l\<rparr>)))" for j b l
    by (rule vote_kept_trans [OF _ Cons.IH]) (simp add: vote_kept_def)
  with Cons.IH show ?case by (auto simp: Let_def)
qed simp

lemma append_to_log_vote_kept:
  assumes "db_laws E"
  shows "vote_kept E n (snd (append_to_log E args n))"
proof -
  note kept = vote_kept_and_then append_at_snapshot_vote_kept [OF assms] save_batch_vote_kept [OF assms]
    truncate_conflict_vote_kept [OF assms]
  have "vote_kept E n (snd (delete_log_entries_from E i (n\<lparr>log := l\<rparr>)))" for i l
    by (rule vote_kept_trans [OF _ delete_log_entries_from_vote_kept [OF assms]])
      (simp add: vote_kept_def)
  moreover have "vote_kept E m (snd (case append_missing i es [] m of (batch, m) \<Rightarrow>
      and_then (save_log_entries_batch E batch m) (\<lambda>_ m. (Inr r, m))))" for m i es r
    using append_missing_vote_kept [of E m i es "[]"]
    by (auto simp: case_prod_beta intro!: kept intro: vote_kept_trans)
  ultimately show ?thesis
    by (auto simp: append_to_log_def Let_def intro!: kept)
qed

lemma handle_append_entries_elect_step:
  assumes "db_laws E" "vote_inv E n"
  shows "elect_step E V n (snd (handle_append_entries E args n))"
proof (cases "current_term n \<le> ae_term args")
  case True
  define n1 where "n1 = (step_down_to_follower E (ae_term args) (Some (leader_address args)) n)
    \<lparr>current_leader := Some (ae_leader_id args)\<rparr>"
  have "vote_kept E (step_down_to_follower E (ae_term args) (Some (leader_address args)) n) n1"
    by (simp add: n1_def vote_kept_def)
  with step_down_elect_step(1) [OF assms] have n1: "elect_step E V n n1" by (rule elect_step_kept)
  have "vote_kept E m (apply_logs E (m\<lparr>commit_index := i\<rparr>))" for m i
    by (rule vote_kept_trans [OF _ apply_logs_vote_kept [OF assms(1)]]) (simp add: vote_kept_def)
  then have "vote_kept E n1 (snd (and_then (append_to_log E args n1) (\<lambda>(ok, mi) n.
      let n = (if ok \<and> commit_index n < leader_commit args
               then apply_logs E (n\<lparr>commit_index := min (leader_commit args) (last_index n)\<rparr>)
               else n)
      in (Inr (append_reply ok mi n), n))))"
    by (intro vote_kept_and_then append_to_log_vote_kept [OF assms(1)]) (auto simp: Let_def)
  with n1 True show ?thesis
    by (simp add: handle_append_entries_def elect_step_kept flip: n1_def)
qed (use assms in \<open>simp add: handle_append_entries_def\<close>)

lemma check_read_indices_vote_kept: "vote_kept E n (check_read_indices n)"
  by (simp add: vote_kept_def)

lemma ack_read_indices_vote_kept: "vote_kept E n (ack_read_indices i n)"
  by (simp add: vote_kept_def ack_read_indices_def)

lemma record_append_reply_vote_kept: "vote_kept E n (snd (record_append_reply i r n))"
  by (simp add: record_append_reply_def Let_def vote_kept_def ack_read_indices_def)

lemma advance_commit_index_vote_kept:
  assumes "db_laws E"
  shows "vote_kept E n (advance_commit_index E n)"
proof -
  have "vote_kept E n (apply_logs E (n\<lparr>commit_index := i\<rparr>))" for i
    by (rule vote_kept_trans [OF _ apply_logs_vote_kept [OF assms]]) (simp add: vote_kept_def)
  then show ?thesis by (simp add: advance_commit_index_def Let_def)
qed

lemma handle_append_entries_response_elect_step:
  assumes "db_laws E" "vote_inv E n"
  shows "elect_step E V n (snd (handle_append_entries_response E reply n))"
proof -
  have "vote_kept E n (snd (and_then (case peer_index (aer_peer_id reply) n of
        Some peer_idx \<Rightarrow> record_append_reply peer_idx reply n | None \<Rightarrow> (Inr (), n))
      (\<lambda>_ n. (Inr (AppendEntriesResponse reply), advance_commit_index E n))))"
    by (intro vote_kept_and_then)
      (simp_all add: record_append_reply_vote_kept advance_commit_index_vote_kept assms(1)
        split: option.split)
  then show ?thesis
    using assms by (simp add: handle_append_entries_response_def step_down_elect_step vote_kept_elect_step)
qed

lemma install_snapshot_vote_kept:
  assumes "db_laws E"
  shows "vote_kept E n (snd (install_snapshot E s n))"
proof -
  have *: "vote_kept E m (snd (and_then (delete_log_keys E is (m\<lparr>app_state := a\<rparr>)) (\<lambda>_ m.
      (Inr (), m\<lparr>last_included_index := i, last_included_term := t, log := l,
                 commit_index := i, last_applied := i\<rparr>))))" for m "is" a i t l
    by (intro vote_kept_and_then vote_kept_trans [OF _ delete_log_keys_vote_kept [OF assms]])
      (simp_all add: vote_kept_def)
  show ?thesis
    unfolding install_snapshot_def Let_def
    by (rule vote_kept_and_then [OF put_snapshot_vote_kept [OF assms]]) (rule *)
qed

lemma handle_install_snapshot_elect_step:
  assumes "db_laws E" "vote_inv E n"
  shows "elect_step E V n (snd (handle_install_snapshot E args n))"
proof (cases "current_term n \<le> is_term args")
  case True
  define n1 where "n1 = (step_down_to_follower E (is_term args) None n)
    \<lparr>current_leader := Some (is_leader_id args)\<rparr>"
  have "vote_kept E (step_down_to_follower E (is_term args) None n) n1"
    by (simp add: n1_def vote_kept_def)
  with step_down_elect_step(1) [OF assms] have n1: "elect_step E V n n1" by (rule elect_step_kept)
  have "vote_kept E n1 (snd (handle_install_snapshot E args n))"
    using True
    by (auto simp: handle_install_snapshot_def Let_def install_snapshot_vote_kept assms(1)
        simp flip: n1_def intro!: vote_kept_and_then)
  with n1 show ?thesis by (rule elect_step_kept)
qed (use assms in \<open>simp add: handle_install_snapshot_def and_then_def\<close>)

lemma handle_install_snapshot_response_elect_step:
  assumes "db_laws E" "vote_inv E n"
  shows "elect_step E V n (snd (handle_install_snapshot_response E reply n))"
proof -
  have "vote_kept E n (ack_read_indices i (n\<lparr>next_index := ni, match_index := mi\<rparr>))" for i ni mi
    by (rule vote_kept_trans [OF _ ack_read_indices_vote_kept]) (simp add: vote_kept_def)
  then show ?thesis
    using assms
    by (simp add: handle_install_snapshot_response_def step_down_elect_step vote_kept_elect_step
        split: option.split)
qed

text \<open>Every RPC, where \<open>V\<close> contains the voter of a granted vote of the current term.\<close>

lemma handle_rpc_elect_step:
  assumes "db_laws E" "vote_inv E n"
    and "\<And>r. msg = RequestVoteResponse r \<Longrightarrow> vote_granted r \<Longrightarrow> current_term n = rvr_term r \<Longrightarrow>
      rvr_peer_id r \<in> V"
  shows "elect_step E V n (snd (handle_rpc E msg n))"
  using assms
  by (cases msg) (simp_all add: handle_request_vote_elect_step handle_request_vote_response_elect_step
      handle_append_entries_elect_step handle_append_entries_response_elect_step
      handle_install_snapshot_elect_step handle_install_snapshot_response_elect_step
      handle_timeout_now_elect_step)

subsection \<open>Client requests, ticks and restarts\<close>

lemma push_requests_vote_kept:
  "vote_kept E n (snd (snd (push_requests rs n)))"
proof (induction rs arbitrary: n)
  case (Cons r rs)
  have "vote_kept E n (snd (snd (push_requests rs (n\<lparr>log := l\<rparr>))))" for l
    by (rule vote_kept_trans [OF _ Cons.IH]) (simp add: vote_kept_def)
  then show ?case by (cases r) (simp add: Let_def case_prod_beta)
qed simp

lemma apply_commit_vote_kept: "db_laws E \<Longrightarrow> vote_kept E n (apply_logs E (n\<lparr>commit_index := i\<rparr>))"
  by (rule vote_kept_trans [OF _ apply_logs_vote_kept]) (simp_all add: vote_kept_def)

lemma send_heartbeats_vote_kept: "vote_kept E n m \<Longrightarrow> vote_kept E n (send_heartbeats m)"
  by (simp add: vote_kept_def)

lemma handle_client_batch_vote_kept:
  assumes "db_laws E"
  shows "vote_kept E n (snd (handle_client_batch E rs n))"
proof (cases "role n = Leader")
  case True
  define m where "m = snd (snd (push_requests rs n))"
  define k where "k = snd (save_log_entries_batch E (fst (push_requests rs n)) m)"
  have k: "vote_kept E n k"
    unfolding k_def m_def by (rule vote_kept_trans [OF push_requests_vote_kept save_batch_vote_kept [OF assms]])
  have "vote_kept E k (k\<lparr>pending_replies := p\<rparr>)" "vote_kept E k (emit os (k\<lparr>log := l\<rparr>))" for p os l
    by (simp_all add: vote_kept_def)
  moreover have "vote_kept E k (apply_logs E (k\<lparr>pending_replies := p, commit_index := i\<rparr>))" for p i
    by (rule vote_kept_trans [OF _ apply_logs_vote_kept [OF assms]]) (simp add: vote_kept_def)
  ultimately have "vote_kept E k (snd (handle_client_batch E rs n))"
    using True
    by (cases "push_requests rs n"; cases "save_log_entries_batch E (fst (push_requests rs n)) m")
      (auto simp: handle_client_batch_def Let_def m_def k_def case_prod_beta split: sum.split
        intro!: send_heartbeats_vote_kept)
  with k show ?thesis by (rule vote_kept_trans)
qed (simp add: handle_client_batch_def vote_kept_def)

lemma handle_get_read_index_vote_kept: "vote_kept E n (handle_get_read_index tx n)"
  by (simp add: handle_get_read_index_def Let_def vote_kept_def)

lemma append_membership_vote_kept: "db_laws E \<Longrightarrow> vote_kept E n (snd (append_membership E c n))"
  unfolding append_membership_def Let_def
  by (intro vote_kept_and_then vote_kept_trans [OF _ save_log_entry_vote_kept]) (simp_all add: vote_kept_def)

lemma check_promote_vote_kept:
  assumes "db_laws E"
  shows "vote_kept E n (snd (check_promote_non_voting_members E n))"
proof -
  have "vote_kept E n (snd (and_then (append_membership E c n) (\<lambda>i m.
      (Inr (), m\<lparr>config_change_state := f i, non_voting_members := [], catch_up_progress := []\<rparr>))))" for c f
    by (intro vote_kept_and_then append_membership_vote_kept [OF assms]) (simp add: vote_kept_def)
  then show ?thesis
    by (simp add: check_promote_non_voting_members_def promote_non_voting_members_def Let_def
        split: ConfigChangeState.split ClusterConfiguration.split)
qed

lemma check_finalize_vote_kept:
  assumes "db_laws E"
  shows "vote_kept E n (snd (check_finalize_joint_consensus E n))"
proof -
  have "vote_kept E n (snd (and_then (append_membership E c n) (\<lambda>_ m. (Inr (), m))))" for c
    by (intro vote_kept_and_then append_membership_vote_kept [OF assms]) simp
  then show ?thesis
    by (simp add: check_finalize_joint_consensus_def split: ConfigChangeState.split)
qed

lemma create_snapshot_vote_kept:
  assumes "db_laws E"
  shows "vote_kept E n (snd (create_snapshot E n))"
  unfolding create_snapshot_def Let_def
  by (intro vote_kept_and_then put_snapshot_vote_kept [OF assms] delete_log_keys_vote_kept [OF assms])
    (simp add: vote_kept_def)

lemma elect_step_and_then:
  assumes "elect_step E V n (snd r)" "\<And>a. fst r = Inr a \<Longrightarrow> vote_kept E (snd r) (snd (f a (snd r)))"
  shows "elect_step E V n (snd (and_then r f))"
  using assms by (auto simp: and_then_def split: prod.splits sum.splits intro: elect_step_kept)

lemma tick_elect_step:
  assumes "db_laws E" "vote_inv E n"
  shows "elect_step E V n (snd (tick E elapsed n))"
proof -
  define m where "m = n\<lparr>monotonic_time := monotonic_time n + 1\<rparr>"
  have m: "vote_inv E m" "vote_kept E n m"
    using assms(2) by (simp_all add: m_def vote_inv_def synced_def vote_kept_def)
  let ?r = "case role m of
      Leader \<Rightarrow> and_then (check_promote_non_voting_members E (send_heartbeats m)) (\<lambda>_ n.
        check_finalize_joint_consensus E n)
    | _ \<Rightarrow> if elapsed then start_election E m else (Inr (), m)"
  have "vote_kept E m (snd (and_then (check_promote_non_voting_members E (send_heartbeats m)) (\<lambda>_ n.
      check_finalize_joint_consensus E n)))"
    by (intro vote_kept_and_then check_finalize_vote_kept [OF assms(1)]
        vote_kept_trans [OF _ check_promote_vote_kept [OF assms(1)]])
      (simp add: vote_kept_def)
  then have r: "elect_step E V m (snd ?r)"
    using m(1) assms(1)
    by (cases "role m") (simp_all add: vote_kept_elect_step start_election_elect_step)
  have "elect_step E V m (snd (tick E elapsed n))"
    unfolding tick_def Let_def m_def [symmetric]
    by (rule elect_step_and_then [OF r])
      (auto intro: vote_kept_trans [OF apply_logs_vote_kept [OF assms(1)]] create_snapshot_vote_kept [OF assms(1)]
        simp: apply_logs_vote_kept [OF assms(1)])
  then show ?thesis
    by (simp add: elect_step_def vote_mono_def campaign_def m_def)
qed

text \<open>A restart reads back the term and the vote.\<close>

lemma restart_vote:
  assumes "db_laws E"
  shows "node_id (run_init (RaftNode_new E i ps addr app d)) = i"
    "current_term (run_init (RaftNode_new E i ps addr app d)) = stored_term E d"
    "voted_for (run_init (RaftNode_new E i ps addr app d)) = stored_vote E d"
    "role (run_init (RaftNode_new E i ps addr app d)) = Follower"
    "db (run_init (RaftNode_new E i ps addr app d)) = d"
  by (simp_all add: run_init_def RaftNode_new_def load_state_def Let_def case_prod_beta
      stored_term_def stored_vote_def db_lawsD(1) [OF assms])

lemma restart_elect_step:
  assumes "db_laws E" "vote_inv E n"
  shows "elect_step E V n (run_init (RaftNode_new E (node_id n) ps addr app (db n)))"
  using assms(2)
  by (intro elect_step_Follower)
    (simp_all add: vote_inv_def synced_def vote_mono_def restart_vote [OF assms(1)])

text \<open>The clock of the environment does not matter to the store.\<close>

lemma env_now_irrelevant [simp]:
  "contents (E\<lparr>env_now := t\<rparr>) = contents E" "db_laws (E\<lparr>env_now := t\<rparr>) = db_laws E"
  "vote_inv (E\<lparr>env_now := t\<rparr>) n = vote_inv E n" "elect_step (E\<lparr>env_now := t\<rparr>) V n n' = elect_step E V n n'"
proof -
  show *: "contents (E\<lparr>env_now := t\<rparr>) = contents E" by (simp add: contents_def fun_eq_iff)
  show "db_laws (E\<lparr>env_now := t\<rparr>) = db_laws E" by (simp add: db_laws_def *)
  show v: "vote_inv (E\<lparr>env_now := t\<rparr>) n = vote_inv E n" for n
    by (simp add: vote_inv_def synced_def stored_term_def stored_vote_def *)
  show "elect_step (E\<lparr>env_now := t\<rparr>) V n n' = elect_step E V n n'" by (simp add: elect_step_def v)
qed

end
