(* ===== verification/RaftExample.thy ===== *)
theory RaftExample
  imports RaftVote
begin

section \<open>A concrete store and a concrete group\<close>

text \<open>A store in memory, and a group of three nodes that start on empty stores and elect the first.\<close>

type_synonym mem_db = "(DbKey \<times> DbVal) list"

fun log_bound :: "mem_db \<Rightarrow> usize" where
  "log_bound [] = 0"
| "log_bound ((k, v) # d) = (case k of KLog i \<Rightarrow> max (i + 1) (log_bound d) | _ \<Rightarrow> log_bound d)"

definition mem_env :: "mem_db env" where
  "mem_env =
     \<lparr>db_get = \<lambda>k d. Some (map_of d k), db_put = \<lambda>k v d. (True, (k, v) # d),
      db_delete = \<lambda>k d. (True, filter (\<lambda>kv. fst kv \<noteq> k) d), db_write = \<lambda>kvs d. (True, rev kvs @ d),
      db_bound = log_bound, env_crc = \<lambda>_. 0, env_now = 0\<rparr>"

definition address_of :: "usize \<Rightarrow> string" where
  "address_of i = (if i = 1 then ''http://dfs-metaserver-0:8080'' else
     if i = 2 then ''http://dfs-metaserver-1:8080'' else ''http://dfs-metaserver-2:8080'')"

definition boot :: "usize \<Rightarrow> mem_db RaftNode" where
  "boot i = run_init (RaftNode_new mem_env i (map address_of (filter (\<lambda>j. j \<noteq> i) [1, 2, 3]))
     (address_of i) (ConfigApp \<lparr>shard_map = new_range, masters = []\<rparr>) [])"

definition example_vote :: RequestVoteArgs where
  "example_vote = \<lparr>rv_term = 1, candidate_id = 1, last_log_index = 0, last_log_term = 0\<rparr>"

definition example_candidate :: "mem_db RaftNode" where
  "example_candidate = snd (tick mem_env True (boot 1))"

definition example_voter :: "(RaftError + RpcMessage) \<times> mem_db RaftNode" where
  "example_voter = handle_rpc mem_env (RequestVote example_vote) (boot 2)"

definition example_reply :: RequestVoteReply where
  "example_reply = \<lparr>rvr_term = 1, vote_granted = True, rvr_peer_id = 2\<rparr>"

definition example_leader :: "mem_db RaftNode" where
  "example_leader = snd (handle_rpc mem_env (RequestVoteResponse example_reply) example_candidate)"

lemma log_bound_map_of: "map_of d (KLog i) \<noteq> None \<Longrightarrow> i < log_bound d"
proof (induction d rule: log_bound.induct)
  case (2 k v d)
  then show ?case by (cases k) (simp_all split: if_splits)
qed simp

lemma map_add_rev: "m ++ map_of (rev kvs) = fold (\<lambda>(k, v) m. m(k \<mapsto> v)) kvs m"
proof (induction kvs arbitrary: m)
  case (Cons kv kvs)
  have "m ++ map_of (rev (kv # kvs)) = m(fst kv \<mapsto> snd kv) ++ map_of (rev kvs)"
    by (cases kv) (simp add: fun_eq_iff map_add_def split: option.splits)
  with Cons show ?case by (simp add: case_prod_beta)
qed simp

lemma db_laws_mem_env: "db_laws mem_env"
proof -
  have c: "contents mem_env d = map_of d" for d by (simp add: contents_def mem_env_def fun_eq_iff)
  have del: "map_of (filter (\<lambda>kv. fst kv \<noteq> k) d) = (map_of d)(k := None)" for k and d :: mem_db
    by (induction d) auto
  show ?thesis
    unfolding db_laws_def c using log_bound_map_of by (auto simp: mem_env_def del map_add_rev)
qed

lemma address_ids:
  "extract_node_id_from_address (address_of 1) = Some 1"
  "extract_node_id_from_address (address_of 2) = Some 2"
  "extract_node_id_from_address (address_of 3) = Some 3"
  by (simp_all add: address_of_def extract_node_id_from_address_def find_after.simps parse_usize_def
      is_ascii_digit_def less_eq_char_def)

lemmas boot_defs = boot_def RaftNode_new_def initial_members_def address_ids load_state_def
  load_config_def mem_env_def run_init_def

lemmas election_defs = tick_def start_election_def vote_args_def handle_request_vote_def
  handle_request_vote_response_def adopt_term_def step_down_to_follower_def log_is_up_to_date_def
  vote_reply_def save_term_def save_vote_def save_log_entry_def become_leader_def and_then_def
  SNAPSHOT_THRESHOLD_def apply_logs.simps last_index_def Let_def emit_def

lemma boot_ids: "node_id (boot i) = i"
  by (simp add: boot_def run_init_def RaftNode_new_def Let_def case_prod_beta)

lemma example_candidate_eval:
  "role example_candidate = Candidate" "current_term example_candidate = 1"
  "voters example_candidate = {1}" "cluster_config example_candidate = cluster_config (boot 1)"
  "node_id example_candidate = 1"
  by (simp_all add: example_candidate_def boot_defs election_defs del: One_nat_def)

lemma example_voter_eval:
  "fst example_voter = Inr (RequestVoteResponse example_reply)"
  "cluster_config (snd example_voter) = cluster_config (boot 2)" "node_id (snd example_voter) = 2"
  by (simp_all add: example_voter_def example_vote_def example_reply_def boot_defs election_defs del: One_nat_def)

lemma example_leader_eval:
  "role example_leader = Leader" "current_term example_leader = 1"
  "cluster_config example_leader = cluster_config (boot 1)" "node_id example_leader = 1"
  by (simp_all add: example_leader_def example_candidate_def example_reply_def boot_defs election_defs
     ack_count_alt hm_keys_def del: One_nat_def)

lemma example_leader_state:
  "cluster_config example_leader = Simple [(2, address_of 2), (3, address_of 3), (1, address_of 1)] 0"
  "peers example_leader = [address_of 2, address_of 3]" "last_included_index example_leader = 0"
  "log example_leader = [\<lparr>entry_term = 0, entry_command = NoOp\<rparr>, \<lparr>entry_term = 1, entry_command = NoOp\<rparr>]"
  "commit_index example_leader = 0" "last_applied example_leader = 0"
  "length (next_index example_leader) = 2" "length (match_index example_leader) = 2"
  "catch_up_progress example_leader = []"
  by (simp_all add: example_leader_def example_candidate_def example_reply_def boot_defs election_defs
     ack_count_alt hm_keys_def del: One_nat_def)

lemma address_of_neq: "address_of 2 \<noteq> address_of 3" "address_of 1 \<noteq> address_of 2" "address_of 1 \<noteq> address_of 3"
  by (simp_all add: address_of_def)

end
