(* ===== verification/RaftCluster.thy ===== *)
theory RaftCluster
  imports RaftExample
begin

section \<open>A group of Raft nodes\<close>

text \<open>
  The composition of nodes: any node may tick, handle a request or reply, take client requests, answer
  reads, or crash and restart from its store, in any order. Requests are arbitrary, so that they may be
  lost, delayed, duplicated and reordered; the one message whose origin matters is the reply to a vote
  request, which the HTTP exchange returns to the candidate that asked. \<open>ballots\<close> and \<open>elected\<close> are
  history variables: the votes cast and the leaders elected so far. Memberships may differ between
  nodes and change: a run is considered as long as every node that acts is a member of its own
  configuration, and that is one of the pairwise compatible configurations \<open>C\<close>.
\<close>

record 'd cluster =
  nodes :: "usize \<Rightarrow> 'd RaftNode"
  vote_replies :: "(usize \<times> RequestVoteReply) set"
  ballots :: "usize \<Rightarrow> u64 \<Rightarrow> usize option"
  elected :: "(u64 \<times> usize) set"

text \<open>The reply that goes back to a candidate.\<close>

fun new_replies :: "RpcMessage \<Rightarrow> RaftError + RpcMessage \<Rightarrow> (usize \<times> RequestVoteReply) set" where
  "new_replies (RequestVote args) (Inr (RequestVoteResponse r)) = {(candidate_id args, r)}"
| "new_replies _ _ = {}"

definition update_node :: "usize \<Rightarrow> 'd RaftNode \<Rightarrow> (usize \<times> RequestVoteReply) set \<Rightarrow> 'd cluster \<Rightarrow> 'd cluster" where
  "update_node i n rs s =
     \<lparr>nodes = (nodes s)(i := n), vote_replies = vote_replies s \<union> rs,
      ballots = (ballots s)(i := (ballots s i)(current_term n := voted_for n)),
      elected = elected s \<union> (if role n = Leader then {(current_term n, i)} else {})\<rparr>"

definition member_of :: "ClusterConfiguration set \<Rightarrow> 'd RaftNode \<Rightarrow> bool" where
  "member_of C n \<longleftrightarrow> cluster_config n \<in> C \<and> node_id n \<in> set (hm_keys (all_members (cluster_config n)))"

inductive cluster_step :: "'d env \<Rightarrow> usize set \<Rightarrow> ClusterConfiguration set \<Rightarrow> 'd cluster \<Rightarrow> 'd cluster \<Rightarrow> bool"
  for E ids C where
  deliver: "\<lbrakk>i \<in> ids; \<And>r. msg = RequestVoteResponse r \<Longrightarrow> (i, r) \<in> vote_replies s;
     handle_rpc (E\<lparr>env_now := t\<rparr>) msg (nodes s i) = (res, n); member_of C n\<rbrakk>
     \<Longrightarrow> cluster_step E ids C s (update_node i n (new_replies msg res) s)"
| client: "\<lbrakk>i \<in> ids; handle_client_batch (E\<lparr>env_now := t\<rparr>) rs (nodes s i) = (res, n); member_of C n\<rbrakk>
     \<Longrightarrow> cluster_step E ids C s (update_node i n {} s)"
| read: "\<lbrakk>i \<in> ids; n = handle_get_read_index tx (nodes s i); member_of C n\<rbrakk>
     \<Longrightarrow> cluster_step E ids C s (update_node i n {} s)"
| clock: "\<lbrakk>i \<in> ids; tick (E\<lparr>env_now := t\<rparr>) elapsed (nodes s i) = (res, n); member_of C n\<rbrakk>
     \<Longrightarrow> cluster_step E ids C s (update_node i n {} s)"
| restart: "\<lbrakk>i \<in> ids; n = run_init (RaftNode_new E i ps addr app (db (nodes s i))); member_of C n\<rbrakk>
     \<Longrightarrow> cluster_step E ids C s (update_node i n {} s)"

definition cluster_init :: "'d env \<Rightarrow> usize set \<Rightarrow> ClusterConfiguration set \<Rightarrow> 'd cluster \<Rightarrow> bool" where
  "cluster_init E ids C s \<longleftrightarrow>
     (\<forall>i \<in> ids. \<exists>ps addr app d. nodes s i = run_init (RaftNode_new E i ps addr app d) \<and>
        member_of C (nodes s i)) \<and>
     vote_replies s = {} \<and> elected s = {} \<and>
     ballots s = (\<lambda>i t. if t = current_term (nodes s i) then voted_for (nodes s i) else None)"

inductive cluster_reach :: "'d env \<Rightarrow> usize set \<Rightarrow> ClusterConfiguration set \<Rightarrow> 'd cluster \<Rightarrow> bool"
  for E ids C where
  init: "cluster_init E ids C s \<Longrightarrow> cluster_reach E ids C s"
| step: "cluster_reach E ids C s \<Longrightarrow> cluster_step E ids C s s' \<Longrightarrow> cluster_reach E ids C s'"

text \<open>Any two configurations are compatible, and all the members of one are a majority of it: no group
  of voters is empty.\<close>

definition cluster_ok :: "ClusterConfiguration set \<Rightarrow> bool" where
  "cluster_ok C \<longleftrightarrow> (\<forall>c \<in> C. \<forall>c' \<in> C. compatible c c') \<and>
     (\<forall>c \<in> C. hm_ok (all_members c) \<and> has_joint_majority c (set (hm_keys (all_members c))))"

subsection \<open>The invariant\<close>

definition node_inv :: "'d env \<Rightarrow> ClusterConfiguration set \<Rightarrow> (usize \<Rightarrow> u64 \<Rightarrow> usize option) \<Rightarrow> usize \<Rightarrow> 'd RaftNode \<Rightarrow> bool" where
  "node_inv E C B i n \<longleftrightarrow> node_id n = i \<and> member_of C n \<and> vote_inv E n \<and>
     B i (current_term n) = voted_for n \<and> (\<forall>t > current_term n. B i t = None) \<and>
     (role n \<noteq> Follower \<longrightarrow> (\<forall>p \<in> voters n. B p (current_term n) = Some i)) \<and>
     (role n = Leader \<longrightarrow> (\<exists>c \<in> C. has_joint_majority c (voters n)))"

definition cluster_inv :: "'d env \<Rightarrow> usize set \<Rightarrow> ClusterConfiguration set \<Rightarrow> 'd cluster \<Rightarrow> bool" where
  "cluster_inv E ids C s \<longleftrightarrow>
     (\<forall>i \<in> ids. node_inv E C (ballots s) i (nodes s i)) \<and>
     (\<forall>(i, r) \<in> vote_replies s. vote_granted r \<longrightarrow> ballots s (rvr_peer_id r) (rvr_term r) = Some i) \<and>
     (\<forall>(t, i) \<in> elected s. \<exists>c \<in> C. \<exists>Q. has_joint_majority c Q \<and> (\<forall>p \<in> Q. ballots s p t = Some i))"

lemma single_member_majority:
  assumes "cluster_ok C" "member_of C n" "length (all_members (cluster_config n)) = 1"
  shows "has_joint_majority (cluster_config n) {node_id n}"
proof -
  let ?ids = "set (hm_keys (all_members (cluster_config n)))"
  have "hm_ok (all_members (cluster_config n))" "has_joint_majority (cluster_config n) ?ids"
    using assms(1,2) by (auto simp: cluster_ok_def member_of_def)
  moreover have "node_id n \<in> ?ids" using assms(2) by (simp add: member_of_def)
  ultimately have "?ids = {node_id n}"
    using card_hm_keys [of "all_members (cluster_config n)"] assms(3) by (auto simp: card_1_singleton_iff)
  with \<open>has_joint_majority (cluster_config n) ?ids\<close> show ?thesis by simp
qed

lemma new_replies_iff:
  "(j, r) \<in> new_replies msg res \<longleftrightarrow>
     (\<exists>args. msg = RequestVote args \<and> res = Inr (RequestVoteResponse r) \<and> j = candidate_id args)"
  by (cases "(msg, res)" rule: new_replies.cases) auto

text \<open>The ballots only grow.\<close>

lemma ballots_grow:
  assumes "node_inv E C B i n" "vote_mono n n'" "B p t = Some x"
  shows "(B(i := (B i)(current_term n' := voted_for n'))) p t = Some x"
  using assms by (auto simp: node_inv_def vote_mono_def)

lemma update_node_inv:
  assumes ok: "cluster_ok C" and inv: "cluster_inv E ids C s" and i: "i \<in> ids"
    and step: "elect_step E V (nodes s i) n'" and c: "member_of C n'"
    and V: "\<And>p. p \<in> V \<Longrightarrow> ballots s p (current_term (nodes s i)) = Some i"
    and rs: "\<And>j r. (j, r) \<in> rs \<Longrightarrow> vote_granted r \<Longrightarrow>
      rvr_peer_id r = i \<and> rvr_term r = current_term n' \<and> voted_for n' = Some j"
  shows "cluster_inv E ids C (update_node i n' rs s)"
proof -
  let ?n = "nodes s i"
  define B where "B = (ballots s)(i := (ballots s i)(current_term n' := voted_for n'))"
  have ni: "node_inv E C (ballots s) i ?n" using inv i by (simp add: cluster_inv_def)
  have mono: "vote_mono ?n n'" and vi: "vote_inv E n'" and camp: "campaign V ?n n'"
    using step by (auto simp: elect_step_def)
  have grow: "B p t = Some x" if "ballots s p t = Some x" for p t x
    unfolding B_def by (rule ballots_grow [OF ni mono that])
  have id: "node_id n' = i" using ni mono by (simp add: node_inv_def vote_mono_def)
  have Bi: "B i (current_term n') = voted_for n'" by (simp add: B_def)
  have future: "B i t = None" if "current_term n' < t" for t
    using that ni mono by (auto simp: B_def node_inv_def vote_mono_def)
  have voters: "B p (current_term n') = Some i" if p: "role n' \<noteq> Follower" "p \<in> voters n'" for p
  proof -
    consider (old) "role ?n \<noteq> Follower" "current_term n' = current_term ?n" "p \<in> voters ?n \<union> V"
      | (self) "p = node_id ?n"
      using camp p unfolding campaign_def by blast
    then show ?thesis
    proof cases
      case old
      then have "ballots s p (current_term ?n) = Some i" using V ni by (auto simp: node_inv_def)
      with old(2) grow show ?thesis by simp
    next
      case self
      with ni have "p = i" by (simp add: node_inv_def)
      with Bi vi id p(1) show ?thesis by (simp add: vote_inv_def)
    qed
  qed
  have "member_of C ?n" using ni by (simp add: node_inv_def)
  then have "cluster_config ?n \<in> C" by (simp add: member_of_def)
  then have maj: "\<exists>c \<in> C. has_joint_majority c (voters n')" if "role n' = Leader"
    using camp that ni single_member_majority [OF ok \<open>member_of C ?n\<close>]
    unfolding campaign_def node_inv_def by metis
  have new: "node_inv E C B i n'"
    using id c vi Bi future voters maj by (simp add: node_inv_def)
  have old: "node_inv E C B j (nodes s j)" if "j \<in> ids" "j \<noteq> i" for j
    using inv that grow by (auto simp: cluster_inv_def node_inv_def B_def)
  have replies: "B (rvr_peer_id r) (rvr_term r) = Some j"
    if "(j, r) \<in> vote_replies s \<union> rs" "vote_granted r" for j r
  proof (cases "(j, r) \<in> rs")
    case True
    with rs that(2) Bi show ?thesis by simp
  next
    case False
    with that inv have "ballots s (rvr_peer_id r) (rvr_term r) = Some j"
      by (auto simp: cluster_inv_def)
    then show ?thesis by (rule grow)
  qed
  have leaders: "\<exists>c \<in> C. \<exists>Q. has_joint_majority c Q \<and> (\<forall>p \<in> Q. B p t = Some j)"
    if "(t, j) \<in> elected s \<or> role n' = Leader \<and> t = current_term n' \<and> j = i" for t j
    using that
  proof
    assume "(t, j) \<in> elected s"
    then obtain c Q where "c \<in> C" "has_joint_majority c Q" "\<forall>p \<in> Q. ballots s p t = Some j"
      using inv by (auto simp: cluster_inv_def)
    with grow show ?thesis by blast
  next
    assume "role n' = Leader \<and> t = current_term n' \<and> j = i"
    with voters maj show ?thesis by auto
  qed
  show ?thesis
    unfolding cluster_inv_def update_node_def cluster.simps B_def [symmetric]
  proof (intro conjI ballI)
    show "node_inv E C B j (((nodes s)(i := n')) j)" if "j \<in> ids" for j
      using new old that by simp
    show "case x of (j, r) \<Rightarrow> vote_granted r \<longrightarrow> B (rvr_peer_id r) (rvr_term r) = Some j"
      if "x \<in> vote_replies s \<union> rs" for x
      using replies that by (cases x) auto
    show "case x of (t, j) \<Rightarrow> \<exists>c \<in> C. \<exists>Q. has_joint_majority c Q \<and> (\<forall>p \<in> Q. B p t = Some j)"
      if "x \<in> elected s \<union> (if role n' = Leader then {(current_term n', i)} else {})" for x
      using leaders that by (cases x) (auto split: if_splits)
  qed
qed

lemma cluster_init_inv:
  assumes "db_laws E" "cluster_init E ids C s"
  shows "cluster_inv E ids C s"
  unfolding cluster_inv_def
proof (intro conjI ballI)
  show "node_inv E C (ballots s) i (nodes s i)" if "i \<in> ids" for i
    using assms(2) that
    by (auto simp: cluster_init_def node_inv_def vote_inv_def synced_def restart_vote [OF assms(1)])
qed (use assms(2) in \<open>auto simp: cluster_init_def\<close>)

lemma cluster_step_inv:
  assumes "db_laws E" "cluster_ok C" "cluster_inv E ids C s" "cluster_step E ids C s s'"
  shows "cluster_inv E ids C s'"
  using assms(4)
proof cases
  case (deliver i msg t res n)
  let ?n = "nodes s i"
  let ?V = "{rvr_peer_id r | r. msg = RequestVoteResponse r \<and> vote_granted r \<and> current_term ?n = rvr_term r}"
  have ni: "node_inv E C (ballots s) i ?n" using assms(3) deliver by (simp add: cluster_inv_def)
  have "elect_step (E\<lparr>env_now := t\<rparr>) ?V ?n (snd (handle_rpc (E\<lparr>env_now := t\<rparr>) msg ?n))"
    using assms(1) ni by (intro handle_rpc_elect_step) (auto simp: node_inv_def)
  then have step: "elect_step E ?V ?n n" using deliver by simp
  have V: "ballots s p (current_term ?n) = Some i" if "p \<in> ?V" for p
    using that deliver assms(3) by (fastforce simp: cluster_inv_def)
  have "node_id n = i"
    using step ni by (simp add: elect_step_def vote_mono_def node_inv_def)
  then have rs: "rvr_peer_id r = i \<and> rvr_term r = current_term n \<and> voted_for n = Some j"
    if "(j, r) \<in> new_replies msg res" "vote_granted r" for j r
  proof -
    obtain args where "msg = RequestVote args" "res = Inr (RequestVoteResponse r)" "j = candidate_id args"
      using \<open>(j, r) \<in> new_replies msg res\<close> by (auto simp: new_replies_iff)
    then show ?thesis
      using handle_request_vote_granted [of "E\<lparr>env_now := t\<rparr>" args ?n r n] deliver(4) assms(1)
        \<open>vote_granted r\<close> \<open>node_id n = i\<close> by simp
  qed
  show ?thesis unfolding deliver(1)
    by (rule update_node_inv [OF assms(2,3) deliver(2) step deliver(5)]) (use V rs in auto)
next
  case (client i t rs res n)
  have "vote_inv E (nodes s i)" using assms(3) client by (simp add: cluster_inv_def node_inv_def)
  then have "elect_step E {} (nodes s i) n"
    using handle_client_batch_vote_kept [of "E\<lparr>env_now := t\<rparr>" "nodes s i" rs] assms(1) client
      vote_kept_elect_step [of "E\<lparr>env_now := t\<rparr>"] by simp
  then show ?thesis unfolding client(1)
    by (intro update_node_inv [OF assms(2,3) client(2)]) (use client in auto)
next
  case (read i n tx)
  have "vote_inv E (nodes s i)" using assms(3) read by (simp add: cluster_inv_def node_inv_def)
  then have "elect_step E {} (nodes s i) n"
    using handle_get_read_index_vote_kept read vote_kept_elect_step by blast
  then show ?thesis unfolding read(1)
    by (intro update_node_inv [OF assms(2,3) read(2)]) (use read in auto)
next
  case (clock i t elapsed res n)
  have "vote_inv E (nodes s i)" using assms(3) clock by (simp add: cluster_inv_def node_inv_def)
  then have "elect_step E {} (nodes s i) n"
    using tick_elect_step [of "E\<lparr>env_now := t\<rparr>" "nodes s i" "{}" elapsed] assms(1) clock by simp
  then show ?thesis unfolding clock(1)
    by (intro update_node_inv [OF assms(2,3) clock(2)]) (use clock in auto)
next
  case (restart i n ps addr app)
  have "vote_inv E (nodes s i)" "node_id (nodes s i) = i"
    using assms(3) restart by (simp_all add: cluster_inv_def node_inv_def)
  then have "elect_step E {} (nodes s i) n"
    using restart_elect_step [OF assms(1), of "nodes s i" "{}" ps addr app] restart by simp
  then show ?thesis unfolding restart(1)
    by (intro update_node_inv [OF assms(2,3) restart(2)]) (use restart in auto)
qed

lemma cluster_reach_inv:
  assumes "db_laws E" "cluster_ok C" "cluster_reach E ids C s"
  shows "cluster_inv E ids C s"
  using assms(3) by induction (auto intro: cluster_init_inv cluster_step_inv assms)

subsection \<open>A concrete group\<close>

definition boot_cluster :: "mem_db cluster" where
  "boot_cluster =
     \<lparr>nodes = boot, vote_replies = {},
      ballots = (\<lambda>i t. if t = current_term (boot i) then voted_for (boot i) else None), elected = {}\<rparr>"

definition example_cluster :: "mem_db cluster" where
  "example_cluster =
     update_node 1 example_leader {} (update_node 2 (snd example_voter) {(1, example_reply)}
       (update_node 1 example_candidate {} boot_cluster))"

definition example_configs :: "ClusterConfiguration set" where
  "example_configs = {c. \<exists>ms v. c = Simple ms v \<and> hm_ok ms \<and> set (hm_keys ms) = {1, 2, 3}}"

lemma boot_member: "i \<in> {1, 2, 3} \<Longrightarrow> member_of example_configs (boot i)"
  by (auto simp: member_of_def example_configs_def boot_defs hm_keys_def hm_ok_def simp del: One_nat_def)

lemma example_configs_ok: "cluster_ok example_configs"
proof -
  have m: "length ms = 3" if "hm_ok ms" "set (hm_keys ms) = {1, 2, 3}" for ms :: members
    using card_hm_keys [OF that(1)] that(2) by simp
  show ?thesis
    by (auto simp: cluster_ok_def example_configs_def compatible_def adjacent_def ack_count_alt m
        simp del: One_nat_def)
qed

lemma example_cluster_reach: "cluster_reach mem_env {1, 2, 3} example_configs example_cluster"
proof -
  let ?reach = "cluster_reach mem_env {1, 2, 3} example_configs"
  let ?s1 = "update_node 1 example_candidate {} boot_cluster"
  let ?s2 = "update_node 2 (snd example_voter) {(1, example_reply)} ?s1"
  have now: "mem_env\<lparr>env_now := 0\<rparr> = mem_env" by (simp add: mem_env_def)
  have members: "member_of example_configs example_candidate" "member_of example_configs (snd example_voter)"
    "member_of example_configs example_leader"
    using boot_member [of 1] boot_member [of 2]
    by (simp_all add: member_of_def example_candidate_eval example_voter_eval example_leader_eval boot_ids)
  have "cluster_init mem_env {1, 2, 3} example_configs boot_cluster"
    using boot_member by (force simp: cluster_init_def boot_cluster_def boot_def)
  then have "?reach boot_cluster" by (rule cluster_reach.init)
  moreover have "cluster_step mem_env {1, 2, 3} example_configs boot_cluster ?s1"
    using members(1)
      cluster_step.clock [where E = mem_env and ids = "{1, 2, 3}" and i = 1 and t = 0 and elapsed = True
        and s = boot_cluster and n = example_candidate and C = example_configs
        and res = "fst (tick mem_env True (boot 1))"]
    by (simp add: now example_candidate_def boot_cluster_def)
  ultimately have "?reach ?s1" by (rule cluster_reach.step)
  moreover have "cluster_step mem_env {1, 2, 3} example_configs ?s1 ?s2"
  proof -
    have "handle_rpc (mem_env\<lparr>env_now := 0\<rparr>) (RequestVote example_vote) (nodes ?s1 2) = example_voter"
      by (simp add: now example_voter_def boot_cluster_def update_node_def)
    moreover have "new_replies (RequestVote example_vote) (fst example_voter) = {(1, example_reply)}"
      by (simp add: example_voter_eval example_vote_def)
    ultimately show ?thesis
      using cluster_step.deliver [where i = 2 and t = 0 and s = ?s1 and msg = "RequestVote example_vote"
        and res = "fst example_voter" and n = "snd example_voter"] members(2) by fastforce
  qed
  ultimately have "?reach ?s2" by (rule cluster_reach.step)
  moreover have "cluster_step mem_env {1, 2, 3} example_configs ?s2 example_cluster"
  proof -
    let ?r = "handle_rpc mem_env (RequestVoteResponse example_reply) example_candidate"
    have "handle_rpc (mem_env\<lparr>env_now := 0\<rparr>) (RequestVoteResponse example_reply) (nodes ?s2 1) = ?r"
      by (simp add: now boot_cluster_def update_node_def)
    moreover have "(1, example_reply) \<in> vote_replies ?s2" by (simp add: update_node_def)
    ultimately show ?thesis
      using cluster_step.deliver [where i = 1 and t = 0 and s = ?s2 and n = "snd ?r" and res = "fst ?r"
        and msg = "RequestVoteResponse example_reply"] members(3)
      unfolding example_cluster_def example_leader_def by fastforce
  qed
  ultimately show ?thesis by (rule cluster_reach.step)
qed

subsection \<open>Properties\<close>

text \<open>C1. Election safety: in every run of a group whose memberships are pairwise compatible (they differ by
  at most one server, or overlap through a joint configuration), with arbitrary message loss,
  delay, duplication and reordering, crashes and restarts between events, and a store that keeps what is
  written, at most one node is ever elected leader of a term.\<close>

theorem election_safety:
  assumes "db_laws E" "cluster_ok C" "cluster_reach E ids C s"
    and "(t, i) \<in> elected s" "(t, j) \<in> elected s"
  shows "i = j"
proof -
  have inv: "cluster_inv E ids C s" by (rule cluster_reach_inv [OF assms(1-3)])
  obtain c Q where Q: "c \<in> C" "has_joint_majority c Q" "\<forall>p \<in> Q. ballots s p t = Some i"
    using inv assms(4) by (auto simp: cluster_inv_def)
  obtain c' R where R: "c' \<in> C" "has_joint_majority c' R" "\<forall>p \<in> R. ballots s p t = Some j"
    using inv assms(5) by (auto simp: cluster_inv_def)
  have "compatible c c'" using assms(2) Q(1) R(1) by (simp add: cluster_ok_def)
  from majority.decision_unique [OF this Q(2) R(2), of "\<lambda>p. ballots s p t"] Q(3) R(3)
  show ?thesis by blast
qed

theorem election_safety_witness:
  "db_laws mem_env \<and> cluster_ok example_configs \<and>
   cluster_reach mem_env {1, 2, 3} example_configs example_cluster \<and>
   {i. (1, i) \<in> elected example_cluster} = {1}"
proof -
  have "(1, 1) \<in> elected example_cluster"
    by (simp add: example_cluster_def update_node_def example_leader_eval)
  with election_safety [OF db_laws_mem_env example_configs_ok example_cluster_reach]
  have "{i. (1, i) \<in> elected example_cluster} = {1}" by blast
  with db_laws_mem_env example_configs_ok example_cluster_reach show ?thesis by blast
qed

end
