(* ===== verification/RaftLog.thy ===== *)
theory RaftLog
  imports RaftExample
begin

section \<open>The log of a node and its copy on disk\<close>

text \<open>
  What the handlers do to the log: the two loops of \<open>AppendEntries\<close> compute the same merge, a leader
  only appends entries of its own term, and what is in the log is on disk before a handler returns, so
  that a restart finds it. Snapshots of a leader are the exception: \<open>install_snapshot\<close> leaves later
  entries on disk.
\<close>

subsection \<open>The log on disk\<close>

definition disk_log :: "'d env \<Rightarrow> 'd \<Rightarrow> usize \<Rightarrow> LogEntry list \<Rightarrow> bool" where
  "disk_log E d li l \<longleftrightarrow>
     (\<forall>i > li. contents E d (KLog i) = (if i < li + length l then Some (VEntry (l ! (i - li))) else None))"

definition disk_meta :: "'d env \<Rightarrow> 'd \<Rightarrow> usize \<Rightarrow> u64 \<Rightarrow> bool" where
  "disk_meta E d li lt \<longleftrightarrow>
     contents E d KSnapshotMeta = Some (VMeta li lt) \<or>
     contents E d KSnapshotMeta = None \<and> li = 0 \<and> lt = 0"

definition log_ok :: "'d env \<Rightarrow> 'd RaftNode \<Rightarrow> bool" where
  "log_ok E n \<longleftrightarrow> log n \<noteq> [] \<and> hd (log n) = \<lparr>entry_term = last_included_term n, entry_command = NoOp\<rparr> \<and>
     disk_log E (db n) (last_included_index n) (log n) \<and>
     disk_meta E (db n) (last_included_index n) (last_included_term n)"

text \<open>The parts a handler keeps when it does not touch the log.\<close>

definition log_kept :: "'d env \<Rightarrow> 'd RaftNode \<Rightarrow> 'd RaftNode \<Rightarrow> bool" where
  "log_kept E n n' \<longleftrightarrow> log n' = log n \<and> last_included_index n' = last_included_index n \<and>
     last_included_term n' = last_included_term n \<and>
     (\<forall>k. k \<notin> {KTerm, KVote, KConfig, KChangeState} \<longrightarrow> contents E (db n') k = contents E (db n) k)"

lemma log_kept_refl [simp]: "log_kept E n n"
  by (simp add: log_kept_def)

lemma log_kept_trans [trans]: "log_kept E n n' \<Longrightarrow> log_kept E n' n'' \<Longrightarrow> log_kept E n n''"
  by (simp add: log_kept_def)

lemma log_kept_ok: "log_kept E n n' \<Longrightarrow> log_ok E n \<Longrightarrow> log_ok E n'"
  by (simp add: log_kept_def log_ok_def disk_log_def disk_meta_def)

lemma log_kept_fields:
  assumes "log n' = log n" "last_included_index n' = last_included_index n"
    "last_included_term n' = last_included_term n" "db n' = db n"
  shows "log_kept E n n'"
  using assms by (simp add: log_kept_def)

lemma log_kept_and_then:
  assumes "log_kept E n (snd r)" "\<And>a. fst r = Inr a \<Longrightarrow> log_kept E (snd r) (snd (f a (snd r)))"
  shows "log_kept E n (snd (and_then r f))"
  using assms by (auto simp: and_then_def split: prod.splits sum.splits intro: log_kept_trans)

lemma sent_only_log_kept: "sent_only n n' \<Longrightarrow> log_kept E n n'"
  by (rule log_kept_fields) (simp_all add: sent_onlyD)

lemma saves_log_kept:
  assumes "db_laws E"
  shows "log_kept E n (snd (save_term E n))" "log_kept E n (snd (save_vote E n))"
    "log_kept E n (snd (save_config E n))"
proof -
  note defs = save_term_def save_vote_def save_config_def
  show "log_kept E n (snd (save_term E n))" "log_kept E n (snd (save_config E n))"
    by (auto simp: log_kept_def defs case_prod_beta Let_def db_lawsD [OF assms])
  show "log_kept E n (snd (save_vote E n))"
    by (cases "voted_for n") (auto simp: log_kept_def defs case_prod_beta db_lawsD [OF assms])
qed

lemma apply_membership_log_kept:
  assumes "db_laws E"
  shows "log_kept E n (apply_membership_command E c n)"
proof (cases c)
  case (BeginJointConsensus x y z)
  have "log_kept E n (update_peer_tracking (n\<lparr>cluster_config := Joint x y z\<rparr>))"
    by (simp add: log_kept_def update_peer_tracking_def Let_def)
  then show ?thesis
    using BeginJointConsensus saves_log_kept(3) [OF assms] by (auto intro: log_kept_trans)
next
  case (FinalizeConfiguration x y)
  have "log_kept E n ((update_peer_tracking (n\<lparr>cluster_config := Simple x y\<rparr>))\<lparr>config_change_state := NoChange\<rparr>)"
    by (simp add: log_kept_def update_peer_tracking_def Let_def)
  then show ?thesis
    using FinalizeConfiguration saves_log_kept(3) [OF assms] by (auto intro: log_kept_trans)
qed (simp_all add: log_kept_def)

lemma apply_logs_log_kept:
  assumes "db_laws E"
  shows "log_kept E n (apply_logs E n)"
  using assms
proof (induction E n rule: apply_logs.induct)
  case (1 E n)
  have "log_kept E n (apply_next E n)"
    using apply_membership_log_kept [OF 1(2), of "n\<lparr>last_applied := Suc (last_applied n)\<rparr>"]
    by (simp add: log_kept_def apply_next_def Let_def split: option.split Command.split)
  with 1 show ?case by (subst apply_logs.simps) (auto intro: log_kept_trans)
qed

lemma apply_commit_log_kept: "db_laws E \<Longrightarrow> log_kept E n (apply_logs E (n\<lparr>commit_index := i\<rparr>))"
  by (rule log_kept_trans [OF _ apply_logs_log_kept]) (simp_all add: log_kept_def)

lemma step_down_log_kept:
  assumes "db_laws E"
  shows "log_kept E n (step_down_to_follower E t h n)" "log_kept E n (adopt_term E t n)"
proof -
  have "log_kept E n (snd (save_vote E (snd (save_term E (n\<lparr>role := r, current_term := t, voted_for := v\<rparr>)))))"
    for r v
    by (rule log_kept_trans [OF log_kept_trans [OF _ saves_log_kept(1) [OF assms]] saves_log_kept(2) [OF assms]])
      (simp add: log_kept_def)
  then show "log_kept E n (step_down_to_follower E t h n)" for h
    by (auto simp: step_down_to_follower_def Let_def log_kept_def split: option.split)
  from this [of None] show "log_kept E n (adopt_term E t n)"
    by (simp add: adopt_term_def log_kept_def)
qed

lemma step_down_idx:
  "commit_index (step_down_to_follower E t h n) = commit_index n"
  "last_applied (step_down_to_follower E t h n) = last_applied n"
  "last_included_index (step_down_to_follower E t h n) = last_included_index n"
  "log (step_down_to_follower E t h n) = log n"
  by (simp_all add: step_down_to_follower_def Let_def split: option.split)

lemma adopt_term_idx:
  "commit_index (adopt_term E t n) = commit_index n" "last_applied (adopt_term E t n) = last_applied n"
  "last_included_index (adopt_term E t n) = last_included_index n" "log (adopt_term E t n) = log n"
  by (simp_all add: adopt_term_def step_down_idx)

subsection \<open>Truncating and writing\<close>

text \<open>Deleting the log from an index on, until the first missing key.\<close>

lemma delete_log_loop_contents:
  assumes "db_laws E" "\<And>i. s \<le> i \<Longrightarrow> contents E (db n) (KLog i) \<noteq> None \<longleftrightarrow> i < l" "l \<le> b"
  shows "fst (delete_log_loop E [s..<b] n) = Inr ()"
    "contents E (db (snd (delete_log_loop E [s..<b] n))) k =
       (case k of KLog i \<Rightarrow> if s \<le> i then None else contents E (db n) k | _ \<Rightarrow> contents E (db n) k)"
proof -
  have "fst (delete_log_loop E [s..<b] n) = Inr () \<and>
    contents E (db (snd (delete_log_loop E [s..<b] n))) k =
      (case k of KLog i \<Rightarrow> if s \<le> i then None else contents E (db n) k | _ \<Rightarrow> contents E (db n) k)"
    using assms(2,3)
  proof (induction "b - s" arbitrary: s n)
    case 0
    then have "contents E (db n) (KLog i) = None" if "s \<le> i" for i using that by fastforce
    with 0 show ?case by (auto split: DbKey.split)
  next
    case (Suc m)
    then have upt: "[s..<b] = s # [Suc s..<b]" by (simp add: upt_conv_Cons)
    let ?n = "n\<lparr>db := snd (db_delete E (KLog s) (db n))\<rparr>"
    show ?case
    proof (cases "s < l")
      case True
      have "fst (delete_log_loop E [Suc s..<b] ?n) = Inr () \<and>
        contents E (db (snd (delete_log_loop E [Suc s..<b] ?n))) k =
          (case k of KLog i \<Rightarrow> if Suc s \<le> i then None else contents E (db ?n) k | _ \<Rightarrow> contents E (db ?n) k)"
        using Suc by (intro Suc.hyps(1)) (auto simp: db_lawsD [OF assms(1)])
      moreover have "delete_log_loop E [s..<b] n = delete_log_loop E [Suc s..<b] ?n"
        using Suc.prems(1) [of s] True
        by (auto simp: upt case_prod_beta db_lawsD [OF assms(1)] split: option.split)
      ultimately show ?thesis by (auto simp: db_lawsD [OF assms(1)] split: DbKey.split)
    next
      case False
      then have none: "contents E (db n) (KLog i) = None" if "s \<le> i" for i
        using Suc.prems(1) [OF that] that by simp
      then show ?thesis by (auto simp: upt db_lawsD [OF assms(1)] split: DbKey.split)
    qed
  qed
  then show "fst (delete_log_loop E [s..<b] n) = Inr ()"
    "contents E (db (snd (delete_log_loop E [s..<b] n))) k =
       (case k of KLog i \<Rightarrow> if s \<le> i then None else contents E (db n) k | _ \<Rightarrow> contents E (db n) k)" by simp_all
qed

lemma delete_log_entries_from_disk:
  assumes "db_laws E" "disk_log E (db n) li l" "li < s"
  shows "fst (delete_log_entries_from E s n) = Inr ()"
    "disk_log E (db (snd (delete_log_entries_from E s n))) li (take (s - li) l)"
    "disk_meta E (db (snd (delete_log_entries_from E s n))) = disk_meta E (db n)"
proof -
  have ex: "contents E (db n) (KLog i) \<noteq> None \<longleftrightarrow> i < li + length l" if "s \<le> i" for i
    using assms(2,3) that by (simp add: disk_log_def)
  have bound: "max s (li + length l) \<le> max s (db_bound E (db n))"
  proof (cases "s < li + length l")
    case True
    then have "contents E (db n) (KLog (li + length l - 1)) \<noteq> None" using ex by simp
    then have "li + length l - 1 < db_bound E (db n)" by (rule db_lawsD(8) [OF assms(1)])
    then show ?thesis by simp
  qed simp
  have "[s..<db_bound E (db n)] = [s..<max s (db_bound E (db n))]" by (simp add: max_def)
  then have eq: "delete_log_entries_from E s n = delete_log_loop E [s..<max s (db_bound E (db n))] n"
    by (simp add: delete_log_entries_from_def)
  note * = delete_log_loop_contents [OF assms(1) _ bound, of s n]
  have 1: "contents E (db n) (KLog i) \<noteq> None \<longleftrightarrow> i < max s (li + length l)" if "s \<le> i" for i
    using ex [OF that] that by auto
  show "fst (delete_log_entries_from E s n) = Inr ()" unfolding eq by (rule *(1) [OF 1])
  have c: "contents E (db (snd (delete_log_entries_from E s n))) k =
      (case k of KLog i \<Rightarrow> if s \<le> i then None else contents E (db n) k | _ \<Rightarrow> contents E (db n) k)" for k
    unfolding eq by (rule *(2) [OF 1])
  show "disk_log E (db (snd (delete_log_entries_from E s n))) li (take (s - li) l)"
    using assms(2,3) by (auto simp: disk_log_def c)
  show "disk_meta E (db (snd (delete_log_entries_from E s n))) = disk_meta E (db n)"
    by (simp add: disk_meta_def c fun_eq_iff)
qed

text \<open>Writing consecutive entries at the end.\<close>

lemma fold_upd_log:
  "fold (\<lambda>(k, v) m. m(k \<mapsto> v)) (map (\<lambda>(i, e). (KLog i, VEntry e)) (zip [a..<a + length es] es)) f =
   (\<lambda>k. case k of KLog i \<Rightarrow> if a \<le> i \<and> i < a + length es then Some (VEntry (es ! (i - a))) else f k
          | _ \<Rightarrow> f k)"
proof (induction es rule: rev_induct)
  case (snoc e es)
  have "zip [a..<a + length (es @ [e])] (es @ [e]) = zip [a..<a + length es] es @ [(a + length es, e)]"
    by simp
  then show ?case
    using snoc by (auto simp: fun_eq_iff nth_append less_Suc_eq split: DbKey.split)
qed (auto simp: fun_eq_iff split: DbKey.split)

lemma save_batch_disk:
  assumes "db_laws E" "disk_log E (db n) li l" "l \<noteq> []"
    and "batch = zip [li + length l..<li + length l + length es] es"
  shows "fst (save_log_entries_batch E batch n) = Inr ()"
    "disk_log E (db (snd (save_log_entries_batch E batch n))) li (l @ es)"
    "disk_meta E (db (snd (save_log_entries_batch E batch n))) = disk_meta E (db n)"
proof -
  show "fst (save_log_entries_batch E batch n) = Inr ()"
    by (simp add: save_log_entries_batch_def case_prod_beta db_lawsD [OF assms(1)])
  have "contents E (db (snd (save_log_entries_batch E batch n))) =
    fold (\<lambda>(k, v) m. m(k \<mapsto> v)) (map (\<lambda>(i, e). (KLog i, VEntry e)) batch) (contents E (db n))"
    by (simp add: save_log_entries_batch_def case_prod_beta db_lawsD [OF assms(1)])
  then have c: "contents E (db (snd (save_log_entries_batch E batch n))) =
    (\<lambda>k. case k of KLog i \<Rightarrow> if li + length l \<le> i \<and> i < li + length l + length es
                              then Some (VEntry (es ! (i - (li + length l)))) else contents E (db n) k
          | _ \<Rightarrow> contents E (db n) k)"
    unfolding assms(4) fold_upd_log .
  show "disk_log E (db (snd (save_log_entries_batch E batch n))) li (l @ es)"
    using assms(2,3) by (auto simp: disk_log_def c nth_append)
  show "disk_meta E (db (snd (save_log_entries_batch E batch n))) = disk_meta E (db n)"
    by (simp add: disk_meta_def c fun_eq_iff)
qed

subsection \<open>Merging the entries of a leader\<close>

text \<open>The reference: keep what agrees, and from the first conflict on take the entries of the leader.\<close>

fun merge_entries :: "LogEntry list \<Rightarrow> LogEntry list \<Rightarrow> LogEntry list" where
  "merge_entries s [] = s"
| "merge_entries [] (e # es) = e # es"
| "merge_entries (x # s) (e # es) =
     (if entry_term x = entry_term e then x # merge_entries s es else e # es)"

lemma merge_entries_Nil [simp]: "merge_entries [] es = es"
  by (cases es) simp_all

lemma merge_entries_terms:
  "j < length es \<Longrightarrow> j < length (merge_entries s es) \<and> entry_term (merge_entries s es ! j) = entry_term (es ! j)"
proof (induction s es arbitrary: j rule: merge_entries.induct)
  case (3 x s e es)
  then show ?case by (cases j) auto
qed simp_all

lemma length_merge_entries: "length es \<le> length (merge_entries s es)"
  by (induction s es rule: merge_entries.induct) auto

text \<open>The state of a loop that appends: what is on disk, and the batch to be written behind it.\<close>

definition pending_batch :: "'d env \<Rightarrow> (usize \<times> LogEntry) list \<Rightarrow> 'd RaftNode \<Rightarrow> bool" where
  "pending_batch E batch n \<longleftrightarrow>
     (\<exists>l es. log n = l @ es \<and> l \<noteq> [] \<and> disk_log E (db n) (last_included_index n) l \<and>
        batch = zip [last_included_index n + length l..<last_included_index n + length l + length es] es)"

lemma pending_batch_Nil: "pending_batch E [] n \<longleftrightarrow> log n \<noteq> [] \<and> disk_log E (db n) (last_included_index n) (log n)"
  by (auto simp: pending_batch_def zip_eq_Nil_iff)

lemma pending_batch_push:
  assumes "pending_batch E batch n" "i = last_included_index n + length (log n)"
  shows "pending_batch E (batch @ [(i, e)]) (n\<lparr>log := log n @ [e]\<rparr>)"
proof -
  obtain l es where l: "log n = l @ es" "l \<noteq> []" "disk_log E (db n) (last_included_index n) l"
    "batch = zip [last_included_index n + length l..<last_included_index n + length l + length es] es"
    using assms(1) by (auto simp: pending_batch_def)
  then show ?thesis
    using assms(2) unfolding pending_batch_def by (intro exI [of _ l] exI [of _ "es @ [e]"]) simp
qed

lemma save_pending_batch:
  assumes "db_laws E" "pending_batch E batch n"
  shows "fst (save_log_entries_batch E batch n) = Inr ()"
    "disk_log E (db (snd (save_log_entries_batch E batch n))) (last_included_index n) (log n)"
    "disk_meta E (db (snd (save_log_entries_batch E batch n))) = disk_meta E (db n)"
  using assms save_batch_disk [OF assms(1)] by (auto simp: pending_batch_def)

text \<open>What the loops have in common: they change only the log and the store.\<close>

definition log_only :: "'d RaftNode \<Rightarrow> 'd RaftNode \<Rightarrow> bool" where
  "log_only n n' \<longleftrightarrow>
     last_included_index n' = last_included_index n \<and> last_included_term n' = last_included_term n \<and>
     commit_index n' = commit_index n \<and> last_applied n' = last_applied n \<and> node_id n' = node_id n \<and>
     role n' = role n \<and> current_term n' = current_term n \<and> voted_for n' = voted_for n \<and>
     cluster_config n' = cluster_config n \<and> peers n' = peers n \<and> match_index n' = match_index n"

definition appended :: "'d env \<Rightarrow> (usize \<times> LogEntry) list \<Rightarrow> 'd RaftNode \<Rightarrow> 'd RaftNode \<Rightarrow> bool" where
  "appended E batch n n' \<longleftrightarrow> pending_batch E batch n' \<and> log_only n n' \<and>
     disk_meta E (db n') = disk_meta E (db n)"

lemma truncate_disk:
  assumes "db_laws E" "disk_log E (db n) (last_included_index n) (log n)" "log n \<noteq> []"
    and "last_included_index n < i" "k = i - last_included_index n"
    and "r = delete_log_entries_from E i (n\<lparr>log := take k (log n)\<rparr>)"
  shows "fst r = Inr ()" "appended E [] n (snd r)" "log (snd r) = take k (log n)"
proof -
  note * = delete_log_entries_from_disk [OF assms(1), of "n\<lparr>log := take k (log n)\<rparr>"
      "last_included_index n" "log n" i]
  show "fst r = Inr ()" "log (snd r) = take k (log n)" using * assms by simp_all
  show "appended E [] n (snd r)" using * assms by (simp add: appended_def log_only_def pending_batch_Nil)
qed

lemma append_at_snapshot_merge:
  assumes "db_laws E" "pending_batch E batch n" "last_included_index n < i"
    and "k = i - last_included_index n" "k \<le> length (log n)" "batch \<noteq> [] \<Longrightarrow> k = length (log n)"
  shows "\<exists>batch'. fst (append_at_snapshot E i es batch n) = Inr batch' \<and>
    appended E batch' n (snd (append_at_snapshot E i es batch n)) \<and>
    log (snd (append_at_snapshot E i es batch n)) = take k (log n) @ merge_entries (drop k (log n)) es"
  using assms(2-6)
proof (induction es arbitrary: i batch n k)
  case Nil
  then show ?case by (simp add: appended_def log_only_def)
next
  case (Cons e es)
  note prems = Cons.prems
  have push: ?case
    if m: "pending_batch E batch m" "appended E batch n m" "log m = take k (log n)"
      "length (log m) = k"
      and merge: "merge_entries (drop k (log n)) (e # es) = e # es"
      and eq: "append_at_snapshot E i (e # es) batch n =
        append_at_snapshot E (i + 1) es (batch @ [(i, e)]) (m\<lparr>log := log m @ [e]\<rparr>)" for m
  proof -
    have li: "last_included_index m = last_included_index n" using m(2) by (simp add: appended_def log_only_def)
    have "pending_batch E (batch @ [(i, e)]) (m\<lparr>log := log m @ [e]\<rparr>)"
      using m prems by (intro pending_batch_push) (simp_all add: li)
    from Cons.IH [OF this, of "i + 1" "k + 1"] prems m li show ?thesis
      unfolding eq merge by (auto simp: appended_def log_only_def Suc_diff_le simp del: append_at_snapshot.simps)
  qed
  consider (skip) "k < length (log n)" "entry_term (log n ! k) = entry_term e"
    | (conflict) "k < length (log n)" "entry_term (log n ! k) \<noteq> entry_term e" "batch = []"
    | (append) "k = length (log n)"
    using prems by fastforce
  then show ?case
  proof cases
    case skip
    then have d: "drop k (log n) = log n ! k # drop (k + 1) (log n)" by (simp add: Cons_nth_drop_Suc)
    have "append_at_snapshot E i (e # es) batch n = append_at_snapshot E (i + 1) es batch n"
      using skip prems by (simp add: Let_def)
    moreover have "take k (log n) @ merge_entries (drop k (log n)) (e # es) =
        take (k + 1) (log n) @ merge_entries (drop (k + 1) (log n)) es"
      using skip by (simp add: d take_Suc_conv_app_nth)
    moreover have "batch = []" using skip prems by force
    ultimately show ?thesis
      using Cons.IH [of batch n "i + 1" "k + 1"] skip prems
      by (simp add: Suc_diff_le del: append_at_snapshot.simps)
  next
    case conflict
    let ?r = "delete_log_entries_from E i (n\<lparr>log := take k (log n)\<rparr>)"
    have r: "fst ?r = Inr ()" "appended E [] n (snd ?r)" "log (snd ?r) = take k (log n)"
      using truncate_disk [OF assms(1) _ _ prems(2,3) refl] prems(1) conflict by (auto simp: pending_batch_Nil)
    have d: "drop k (log n) = log n ! k # drop (k + 1) (log n)" using conflict by (simp add: Cons_nth_drop_Suc)
    show ?thesis
    proof (rule push)
      show "append_at_snapshot E i (e # es) batch n =
        append_at_snapshot E (i + 1) es (batch @ [(i, e)]) ((snd ?r)\<lparr>log := log (snd ?r) @ [e]\<rparr>)"
        using conflict by (simp add: Let_def and_then_Inr [OF r(1)] flip: prems(3))
    qed (use r conflict d in \<open>simp_all add: appended_def log_only_def\<close>)
  next
    case append
    show ?thesis
      by (rule push [of n]) (use append prems in \<open>simp_all add: appended_def log_only_def Let_def\<close>)
  qed
qed

text \<open>The other branch: truncate at the first conflict, then append what is missing.\<close>

fun agreeing :: "LogEntry list \<Rightarrow> LogEntry list \<Rightarrow> LogEntry list" where
  "agreeing s [] = s"
| "agreeing [] (e # es) = []"
| "agreeing (x # s) (e # es) = (if entry_term x = entry_term e then x # agreeing s es else [])"

lemma agreeing_merge: "agreeing s es @ drop (length (agreeing s es)) es = merge_entries s es"
proof (induction s es rule: merge_entries.induct)
  case (1 s)
  then show ?case by (cases s) simp_all
qed simp_all

lemma truncate_conflict_agreeing:
  assumes "db_laws E" "pending_batch E [] n" "last_included_index n < i"
    and "k = i - last_included_index n" "k \<le> length (log n)"
  shows "fst (truncate_conflict E i es n) = Inr () \<and> appended E [] n (snd (truncate_conflict E i es n)) \<and>
    log (snd (truncate_conflict E i es n)) = take k (log n) @ agreeing (drop k (log n)) es"
  using assms(3-5)
proof (induction es arbitrary: i k)
  case Nil
  then show ?case using assms(2) by (simp add: appended_def log_only_def)
next
  case (Cons e es)
  show ?case
  proof (cases "k < length (log n)")
    case True
    then have d: "drop k (log n) = log n ! k # drop (k + 1) (log n)" by (simp add: Cons_nth_drop_Suc)
    show ?thesis
    proof (cases "entry_term (log n ! k) = entry_term e")
      case same: True
      then have "truncate_conflict E i (e # es) n = truncate_conflict E (i + 1) es n"
        using True by (simp add: Let_def flip: Cons.prems(2))
      moreover have "take k (log n) @ agreeing (drop k (log n)) (e # es) =
          take (k + 1) (log n) @ agreeing (drop (k + 1) (log n)) es"
        using same True by (simp add: d take_Suc_conv_app_nth)
      ultimately show ?thesis
        using Cons.IH [of "i + 1" "k + 1"] True Cons.prems by (simp add: Suc_diff_le del: truncate_conflict.simps)
    next
      case False
      have eq: "truncate_conflict E i (e # es) n = delete_log_entries_from E i (n\<lparr>log := take k (log n)\<rparr>)"
        using True False by (simp add: Let_def flip: Cons.prems(2))
      show ?thesis
        unfolding eq
        using truncate_disk [OF assms(1) _ _ Cons.prems(1,2) refl] assms(2) False
        by (simp add: pending_batch_Nil d)
    qed
  next
    case False
    then show ?thesis
      using Cons.prems assms(2) by (simp add: appended_def log_only_def Let_def)
  qed
qed

lemma append_missing_drop:
  assumes "pending_batch E batch n" "last_included_index n < i" "k = i - last_included_index n"
    and "k \<le> length (log n)" "batch \<noteq> [] \<Longrightarrow> k = length (log n)"
  shows "appended E (fst (append_missing i es batch n)) n (snd (append_missing i es batch n)) \<and>
    log (snd (append_missing i es batch n)) = log n @ drop (length (log n) - k) es"
  using assms
proof (induction es arbitrary: i k batch n)
  case Nil
  then show ?case by (simp add: appended_def log_only_def)
next
  case (Cons e es)
  show ?case
  proof (cases "k = length (log n)")
    case True
    then have "append_missing i (e # es) batch n =
        append_missing (i + 1) es (batch @ [(i, e)]) (n\<lparr>log := log n @ [e]\<rparr>)"
      by (simp add: Let_def flip: Cons.prems(3))
    moreover have "pending_batch E (batch @ [(i, e)]) (n\<lparr>log := log n @ [e]\<rparr>)"
      using Cons.prems True by (intro pending_batch_push) simp_all
    ultimately show ?thesis
      using Cons.IH [of "batch @ [(i, e)]" "n\<lparr>log := log n @ [e]\<rparr>" "i + 1" "k + 1"] True Cons.prems
      by (simp add: Suc_diff_le appended_def log_only_def del: append_missing.simps)
  next
    case False
    then have "append_missing i (e # es) batch n = append_missing (i + 1) es batch n"
      using Cons.prems(4) by (simp add: Let_def flip: Cons.prems(3))
    moreover have "drop (length (log n) - k) (e # es) = drop (length (log n) - (k + 1)) es"
      using False Cons.prems(4) by (simp add: drop_Cons')
    moreover have "batch = []" using False Cons.prems(5) by blast
    ultimately show ?thesis
      using Cons.IH [of batch n "i + 1" "k + 1"] False Cons.prems
      by (simp add: Suc_diff_le del: append_missing.simps)
  qed
qed

subsection \<open>AppendEntries\<close>

definition matches :: "AppendEntriesArgs \<Rightarrow> 'd RaftNode \<Rightarrow> bool" where
  "matches args n \<longleftrightarrow> last_included_index n \<le> prev_log_index args \<and>
     prev_log_index args - last_included_index n < length (log n) \<and>
     entry_term (log n ! (prev_log_index args - last_included_index n)) = prev_log_term args"

definition merged_log :: "AppendEntriesArgs \<Rightarrow> 'd RaftNode \<Rightarrow> LogEntry list" where
  "merged_log args n =
     (let k = prev_log_index args - last_included_index n
      in take (k + 1) (log n) @ merge_entries (drop (k + 1) (log n)) (entries args))"

lemma log_okD:
  assumes "log_ok E n"
  shows "log n \<noteq> []" "log n ! 0 = \<lparr>entry_term = last_included_term n, entry_command = NoOp\<rparr>"
    "pending_batch E [] n" "disk_meta E (db n) (last_included_index n) (last_included_term n)"
  using assms by (auto simp: log_ok_def pending_batch_Nil hd_conv_nth)

text \<open>Writing the batch at the end of either branch.\<close>

lemma save_appended:
  assumes "db_laws E" "log_ok E n" "appended E batch n m" "log m = merged_log args n"
  shows "\<exists>n'. and_then (save_log_entries_batch E batch m) (\<lambda>_ n. (Inr (True, mi), n)) = (Inr (True, mi), n') \<and>
    log_ok E n' \<and> log n' = merged_log args n \<and> log_only n n'"
proof -
  have p: "pending_batch E batch m" "last_included_index m = last_included_index n"
    "last_included_term m = last_included_term n" "disk_meta E (db m) = disk_meta E (db n)" "log_only n m"
    using assms(3) by (simp_all add: appended_def log_only_def)
  have "log m \<noteq> []" "hd (log m) = hd (log n)"
    using log_okD(1) [OF assms(2)] by (simp_all add: assms(4) merged_log_def Let_def hd_append)
  then have "log_ok E (snd (save_log_entries_batch E batch m))"
    using assms(2) save_pending_batch [OF assms(1) p(1)] p by (simp add: log_ok_def)
  then show ?thesis
    using assms(4) p save_pending_batch(1) [OF assms(1) p(1)]
    by (intro exI [of _ "snd (save_log_entries_batch E batch m)"]) (simp add: and_then_Inr log_only_def)
qed

lemma append_to_log_snapshot_point:
  assumes "db_laws E" "log_ok E n" "prev_log_index args = last_included_index n" "matches args n"
  shows "\<exists>n'. append_to_log E args n = (Inr (True, prev_log_index args + length (entries args)), n') \<and>
    log_ok E n' \<and> log n' = merged_log args n \<and> log_only n n'"
proof -
  let ?r = "append_at_snapshot E (prev_log_index args + 1) (entries args) [] n"
  have "\<exists>batch. fst ?r = Inr batch \<and> appended E batch n (snd ?r) \<and>
      log (snd ?r) = take 1 (log n) @ merge_entries (drop 1 (log n)) (entries args)"
    using log_okD(1) [OF assms(2)] assms(3)
    by (intro append_at_snapshot_merge [OF assms(1) log_okD(3) [OF assms(2)]]) (simp_all add: Suc_le_eq)
  then obtain batch where b: "fst ?r = Inr batch" "appended E batch n (snd ?r)" "log (snd ?r) = merged_log args n"
    using assms(3) by (auto simp: merged_log_def)
  have "entry_term (log n ! 0) = prev_log_term args" "prev_log_term args = last_included_term n"
    using assms(3,4) log_okD(2) [OF assms(2)] by (simp_all add: matches_def)
  then have "append_to_log E args n = and_then (save_log_entries_batch E batch (snd ?r))
      (\<lambda>_ n. (Inr (True, prev_log_index args + length (entries args)), n))"
    using b(1) by (simp add: append_to_log_def and_then_Inr flip: assms(3))
  then show ?thesis using save_appended [OF assms(1,2) b(2,3)] by simp
qed

lemma append_to_log_after_snapshot:
  assumes "db_laws E" "log_ok E n" "last_included_index n < prev_log_index args" "matches args n"
  shows "\<exists>n'. append_to_log E args n = (Inr (True, prev_log_index args + length (entries args)), n') \<and>
    log_ok E n' \<and> log n' = merged_log args n \<and> log_only n n'"
proof -
  let ?i = "prev_log_index args + 1" and ?k = "prev_log_index args + 1 - last_included_index n"
  let ?t = "truncate_conflict E ?i (entries args) n"
  have k: "?k \<le> length (log n)" using assms(3,4) by (simp add: matches_def Suc_diff_le Suc_le_eq)
  then have t: "fst ?t = Inr ()" "appended E [] n (snd ?t)"
    "log (snd ?t) = take ?k (log n) @ agreeing (drop ?k (log n)) (entries args)"
    using truncate_conflict_agreeing [OF assms(1) log_okD(3) [OF assms(2)], of ?i ?k] assms(3) by simp_all
  let ?m = "append_missing ?i (entries args) [] (snd ?t)"
  have m: "appended E (fst ?m) (snd ?t) (snd ?m)"
    "log (snd ?m) = log (snd ?t) @ drop (length (log (snd ?t)) - ?k) (entries args)"
    using append_missing_drop [of E "[]" "snd ?t" ?i ?k] t k assms(3) by (simp_all add: appended_def log_only_def)
  have "appended E (fst ?m) n (snd ?m)" using m(1) t(2) by (simp add: appended_def log_only_def)
  moreover have "log (snd ?m) = merged_log args n"
  proof -
    have "log (snd ?m) = take ?k (log n) @ merge_entries (drop ?k (log n)) (entries args)"
      unfolding m(2) t(3) using k by (simp add: agreeing_merge min_absorb2)
    moreover have "?k = Suc (prev_log_index args - last_included_index n)" using assms(3) by simp
    ultimately show ?thesis by (simp add: merged_log_def Let_def)
  qed
  moreover have "append_to_log E args n = and_then (save_log_entries_batch E (fst ?m) (snd ?m))
      (\<lambda>_ n. (Inr (True, prev_log_index args + length (entries args)), n))"
    using assms(3,4) t(1) by (simp add: append_to_log_def matches_def Let_def and_then_Inr case_prod_beta)
  ultimately show ?thesis using save_appended [OF assms(1,2)] by simp
qed

text \<open>In either case: entries are taken exactly if the previous entry matches, and then the log is the merge.\<close>

lemma append_to_log_spec:
  assumes "db_laws E" "log_ok E n"
  shows "matches args n \<Longrightarrow>
      \<exists>n'. append_to_log E args n = (Inr (True, prev_log_index args + length (entries args)), n') \<and>
      log_ok E n' \<and> log n' = merged_log args n \<and> log_only n n'"
    "\<not> matches args n \<Longrightarrow> \<exists>mi. append_to_log E args n = (Inr (False, mi), n)"
proof -
  show "\<exists>n'. append_to_log E args n = (Inr (True, prev_log_index args + length (entries args)), n') \<and>
      log_ok E n' \<and> log n' = merged_log args n \<and> log_only n n'" if "matches args n"
    using that append_to_log_snapshot_point [OF assms _ that] append_to_log_after_snapshot [OF assms _ that]
    by (cases "prev_log_index args = last_included_index n") (simp_all add: matches_def)
  show "\<exists>mi. append_to_log E args n = (Inr (False, mi), n)" if "\<not> matches args n"
    using that log_okD(1,2) [OF assms(2)]
    by (auto simp: append_to_log_def matches_def Let_def)
qed

text \<open>The whole handler. A request of an older term changes nothing; otherwise the node follows the leader.\<close>

lemma handle_append_entries_spec:
  assumes "db_laws E" "log_ok E n" "current_term n \<le> ae_term args"
  shows "\<exists>r n'. handle_append_entries E args n = (Inr (AppendEntriesResponse r), n') \<and> log_ok E n' \<and>
    last_included_index n' = last_included_index n \<and> last_included_term n' = last_included_term n \<and>
    aer_success r = matches args n \<and> log n' = (if matches args n then merged_log args n else log n) \<and>
    (matches args n \<longrightarrow> aer_match_index r = prev_log_index args + length (entries args)) \<and>
    commit_index n' = (if matches args n \<and> commit_index n < leader_commit args
                       then min (leader_commit args) (last_index n') else commit_index n) \<and>
    last_applied n' = (if matches args n \<and> commit_index n < leader_commit args
                       then max (last_applied n) (commit_index n') else last_applied n)"
proof -
  define m where "m = (step_down_to_follower E (ae_term args) (Some (leader_address args)) n)
    \<lparr>current_leader := Some (ae_leader_id args)\<rparr>"
  have kept: "log_kept E n m"
    using step_down_log_kept(1) [OF assms(1), of n] by (simp add: m_def log_kept_def)
  then have ok: "log_ok E m" using assms(2) by (rule log_kept_ok)
  have m: "log m = log n" "last_included_index m = last_included_index n"
    "last_included_term m = last_included_term n" "commit_index m = commit_index n" "last_applied m = last_applied n"
    using kept by (simp_all add: log_kept_def m_def step_down_idx)
  then have same: "matches args m = matches args n" "merged_log args m = merged_log args n"
    by (simp_all add: matches_def merged_log_def)
  have eq: "handle_append_entries E args n = and_then (append_to_log E args m) (\<lambda>(ok, mi) n.
      let n = (if ok \<and> commit_index n < leader_commit args
               then apply_logs E (n\<lparr>commit_index := min (leader_commit args) (last_index n)\<rparr>) else n)
      in (Inr (append_reply ok mi n), n))"
    using assms(3) by (simp add: handle_append_entries_def m_def)
  show ?thesis
  proof (cases "matches args n")
    case True
    with append_to_log_spec(1) [OF assms(1) ok, of args] same obtain n1 where
      n1: "append_to_log E args m = (Inr (True, prev_log_index args + length (entries args)), n1)"
        "log_ok E n1" "log n1 = merged_log args n" "log_only m n1" by auto
    have "log_ok E (apply_logs E (n1\<lparr>commit_index := i\<rparr>))" for i
      by (rule log_kept_ok [OF apply_commit_log_kept [OF assms(1)] n1(2)])
    with n1 True m show ?thesis
      by (auto simp: eq and_then_def append_reply_def Let_def log_only_def last_index_def)
  next
    case False
    with append_to_log_spec(2) [OF assms(1) ok, of args] same obtain mi where
      "append_to_log E args m = (Inr (False, mi), m)" by auto
    with False ok m show ?thesis by (auto simp: eq and_then_def append_reply_def)
  qed
qed

subsection \<open>Leaders only append\<close>

text \<open>Every other handler keeps the log or, on a leader, appends entries of the current term.\<close>

definition log_ext :: "'d env \<Rightarrow> 'd RaftNode \<Rightarrow> 'd RaftNode \<Rightarrow> bool" where
  "log_ext E n n' \<longleftrightarrow>
     last_included_index n' = last_included_index n \<and> last_included_term n' = last_included_term n \<and>
     (\<exists>es. log n' = log n @ es \<and> (\<forall>e \<in> set es. entry_term e = current_term n') \<and> (es \<noteq> [] \<longrightarrow> role n' = Leader)) \<and>
     (log_ok E n \<longrightarrow> log_ok E n')"

lemma log_kept_ext: "log_kept E n n' \<Longrightarrow> log_ext E n n'"
  using log_kept_ok [of E n n'] by (simp add: log_ext_def log_kept_def)

lemma log_kept_log_ext: "log_kept E n n' \<Longrightarrow> log_ext E n' n'' \<Longrightarrow> log_ext E n n''"
  using log_kept_ok [of E n n'] by (simp add: log_ext_def log_kept_def)

lemma log_ext_log_kept:
  assumes "log_ext E n n'" "log_kept E n' n''" "role n'' = role n'" "current_term n'' = current_term n'"
  shows "log_ext E n n''"
  using assms log_kept_ok [OF assms(2)] by (simp add: log_ext_def log_kept_def)

lemma save_log_entry_disk:
  assumes "db_laws E" "log_ok E n" "i = last_included_index n + length (log n)"
  shows "log_ok E (snd (save_log_entry E i e (n\<lparr>log := log n @ [e]\<rparr>)))"
  using assms
  by (auto simp: log_ok_def save_log_entry_def case_prod_beta db_lawsD disk_log_def disk_meta_def nth_append)

lemma append_entry_ext:
  assumes "db_laws E" "role n = Leader" "log n \<noteq> []"
    and "m = n\<lparr>log := log n @ [\<lparr>entry_term = current_term n, entry_command = c\<rparr>]\<rparr>"
  shows "log_ext E n (snd (save_log_entry E (last_index m) \<lparr>entry_term = current_term n, entry_command = c\<rparr> m))"
  using save_log_entry_disk [OF assms(1), of n "last_index m"] assms(2-4)
  by (auto simp: log_ext_def last_index_def)

lemma become_leader_ext:
  assumes "db_laws E" "log n \<noteq> []"
  shows "log_ext E n (become_leader E n)"
proof -
  define m where "m = n\<lparr>role := Leader, current_leader := Some (node_id n),
    current_leader_address := Some (client_address n)\<rparr>"
  define e where "e = \<lparr>entry_term = current_term m, entry_command = NoOp\<rparr>"
  let ?s = "snd (save_log_entry E (last_index (m\<lparr>log := log m @ [e]\<rparr>)) e (m\<lparr>log := log m @ [e]\<rparr>))"
  let ?t = "?s\<lparr>next_index := replicate (length (peers ?s)) (length (log ?s) + last_included_index ?s),
               match_index := replicate (length (peers ?s)) (last_included_index ?s)\<rparr>"
  have "log_kept E n m" by (simp add: m_def log_kept_def)
  moreover have "log_ext E m ?s"
    unfolding e_def by (rule append_entry_ext [OF assms(1)]) (use assms(2) in \<open>simp_all add: m_def\<close>)
  ultimately have s: "log_ext E n ?s" by (rule log_kept_log_ext)
  have t: "log_ext E n ?t" by (rule log_ext_log_kept [OF s]) (simp_all add: log_kept_def)
  have "log_ext E n (apply_logs E (?t\<lparr>commit_index := i\<rparr>))" for i
    by (rule log_ext_log_kept [OF t apply_commit_log_kept [OF assms(1)]]) simp_all
  with t show ?thesis by (cases "peers n") (simp_all add: become_leader_def Let_def m_def e_def)
qed

lemma log_ext_trans:
  assumes "log_ext E n n'" "log_ext E n' n''" "role n'' = role n'" "current_term n'' = current_term n'"
  shows "log_ext E n n''"
proof -
  obtain es fs where "log n' = log n @ es" "\<forall>e \<in> set es. entry_term e = current_term n'"
    "es \<noteq> [] \<longrightarrow> role n' = Leader" "log n'' = log n' @ fs" "\<forall>e \<in> set fs. entry_term e = current_term n''"
    "fs \<noteq> [] \<longrightarrow> role n'' = Leader" using assms(1,2) unfolding log_ext_def by blast
  then have "\<exists>es. log n'' = log n @ es \<and> (\<forall>e \<in> set es. entry_term e = current_term n'') \<and>
      (es \<noteq> [] \<longrightarrow> role n'' = Leader)"
    using assms(3,4) by (intro exI [of _ "es @ fs"]) auto
  then show ?thesis using assms(1,2) by (simp add: log_ext_def)
qed

lemma log_ext_nonempty: "log_ext E n n' \<Longrightarrow> log n \<noteq> [] \<Longrightarrow> log n' \<noteq> []"
  by (auto simp: log_ext_def)

text \<open>The candidate after its own vote is stored.\<close>

definition candidacy :: "'d env \<Rightarrow> 'd RaftNode \<Rightarrow> 'd RaftNode" where
  "candidacy E n =
     (let n = snd (save_term E (n\<lparr>role := Candidate, current_term := current_term n + 1\<rparr>));
          n = snd (save_vote E (n\<lparr>voted_for := Some (node_id n)\<rparr>))
      in n\<lparr>votes_received := 1, voters := {node_id n}\<rparr>)"

lemma candidacy_log_kept:
  assumes "db_laws E"
  shows "log_kept E n (candidacy E n)"
proof -
  define n1 where "n1 = snd (save_term E (n\<lparr>role := Candidate, current_term := current_term n + 1\<rparr>))"
  define n2 where "n2 = snd (save_vote E (n1\<lparr>voted_for := Some (node_id n1)\<rparr>))"
  have n1: "log_kept E n n1"
    unfolding n1_def by (rule log_kept_trans [OF _ saves_log_kept(1) [OF assms(1)]]) (simp add: log_kept_def)
  have n2: "log_kept E n1 n2"
    unfolding n2_def by (rule log_kept_trans [OF _ saves_log_kept(2) [OF assms(1)]]) (simp add: log_kept_def)
  have "candidacy E n = n2\<lparr>votes_received := 1, voters := {node_id n2}\<rparr>"
    by (simp add: candidacy_def Let_def n1_def n2_def)
  with log_kept_trans [OF n1 n2] show ?thesis by (simp add: log_kept_def)
qed

lemma start_election_eq:
  assumes "db_laws E"
  shows "start_election E n = (Inr (),
    let m = candidacy E n
    in if length (all_members (cluster_config m)) = 1 then become_leader E m
       else emit (map (\<lambda>peer. SendVote peer (vote_args m)) (peers m)) m)"
  by (simp add: start_election_def Let_def and_then_Inr [OF save_term_stored(1) [OF assms]]
      and_then_Inr [OF save_vote_stored(1) [OF assms]] candidacy_def)

lemma start_election_ext:
  assumes "db_laws E" "log n \<noteq> []"
  shows "log_ext E n (snd (start_election E n))"
proof -
  note c = candidacy_log_kept [OF assms(1), of n]
  have "log (candidacy E n) \<noteq> []" using c assms(2) by (simp add: log_kept_def)
  then show ?thesis
    using log_kept_log_ext [OF c become_leader_ext [OF assms(1)]]
      log_kept_ext [OF log_kept_trans [OF c sent_only_log_kept [OF emit_sent_only]]]
    by (simp add: start_election_eq [OF assms(1)] Let_def)
qed

lemma handle_timeout_now_eq:
  assumes "db_laws E"
  shows "snd (handle_timeout_now E args n) =
    (if tn_term args < current_term n then n
     else candidacy E (if current_term n < tn_term args then step_down_to_follower E (tn_term args) None n else n))"
  by (simp add: handle_timeout_now_def Let_def and_then_Inr [OF save_term_stored(1) [OF assms]]
      and_then_Inr [OF save_vote_stored(1) [OF assms]] candidacy_def)

lemma handle_timeout_now_ext:
  assumes "db_laws E"
  shows "log_kept E n (snd (handle_timeout_now E args n))"
  using log_kept_trans [OF step_down_log_kept(1) [OF assms] candidacy_log_kept [OF assms]]
  by (simp add: handle_timeout_now_eq [OF assms] candidacy_log_kept [OF assms])

lemma handle_request_vote_kept:
  assumes "db_laws E"
  shows "log_kept E n (snd (handle_request_vote E args n))"
proof -
  define m where "m = (if current_term n < rv_term args then adopt_term E (rv_term args) n else n)"
  have m: "log_kept E n m" by (simp add: m_def step_down_log_kept [OF assms])
  have "log_kept E m (snd (save_vote E (m\<lparr>voted_for := Some (candidate_id args)\<rparr>)))"
    by (rule log_kept_trans [OF _ saves_log_kept(2) [OF assms]]) (simp add: log_kept_def)
  moreover have "snd (handle_request_vote E args n) \<in>
      {n, m, snd (save_vote E (m\<lparr>voted_for := Some (candidate_id args)\<rparr>))}"
    by (auto simp: handle_request_vote_def Let_def m_def and_then_Inr [OF save_vote_stored(1) [OF assms]])
  ultimately show ?thesis using m log_kept_trans [OF m] by auto
qed

lemma handle_request_vote_response_ext:
  assumes "db_laws E" "log n \<noteq> []"
  shows "log_ext E n (snd (handle_request_vote_response E reply n))"
proof -
  let ?m = "n\<lparr>votes_received := votes_received n + 1, voters := insert (rvr_peer_id reply) (voters n)\<rparr>"
  have m: "log_kept E n ?m" by (simp add: log_kept_def)
  have "log_ext E n (become_leader E ?m)"
    by (rule log_kept_log_ext [OF m become_leader_ext [OF assms(1)]]) (use assms(2) in simp)
  with m show ?thesis
    by (simp add: handle_request_vote_response_def Let_def log_kept_ext step_down_log_kept [OF assms(1)])
qed

lemma ack_read_indices_log_kept: "log_kept E n (ack_read_indices i n)"
  by (simp add: log_kept_def ack_read_indices_def)

lemma handle_append_entries_response_kept:
  assumes "db_laws E"
  shows "log_kept E n (snd (handle_append_entries_response E reply n))"
proof -
  have adv: "log_kept E m (advance_commit_index E m)" for m
    by (simp add: advance_commit_index_def Let_def apply_commit_log_kept [OF assms])
  have "log_kept E n (snd (record_append_reply i reply n))" for i
    by (simp add: record_append_reply_def Let_def log_kept_def ack_read_indices_def)
  then have r: "log_kept E n (snd (case peer_index (aer_peer_id reply) n of
        Some peer_idx \<Rightarrow> record_append_reply peer_idx reply n | None \<Rightarrow> (Inr (), n)))"
    by (simp split: option.split)
  have "log_kept E n (snd (and_then (case peer_index (aer_peer_id reply) n of
        Some peer_idx \<Rightarrow> record_append_reply peer_idx reply n | None \<Rightarrow> (Inr (), n))
      (\<lambda>_ n. (Inr (AppendEntriesResponse reply), advance_commit_index E n))))"
    by (rule log_kept_and_then [OF r]) (simp add: adv)
  then show ?thesis
    by (simp add: handle_append_entries_response_def step_down_log_kept [OF assms])
qed

lemma handle_install_snapshot_response_kept:
  assumes "db_laws E"
  shows "log_kept E n (snd (handle_install_snapshot_response E reply n))"
proof -
  have "log_kept E n (ack_read_indices i (n\<lparr>next_index := ni, match_index := mi\<rparr>))" for i ni mi
    by (rule log_kept_trans [OF _ ack_read_indices_log_kept]) (simp add: log_kept_def)
  then show ?thesis
    by (simp add: handle_install_snapshot_response_def step_down_log_kept [OF assms] split: option.split)
qed

text \<open>Client requests.\<close>

lemma zip_upt_Cons: "zip [a..<Suc (a + length es)] (e # es) = (a, e) # zip [Suc a..<Suc (a + length es)] es"
  by (simp add: upt_conv_Cons del: upt_Suc)

lemma push_requests_spec:
  assumes "log n \<noteq> []"
  shows "\<exists>es. log (snd (snd (push_requests rs n))) = log n @ es \<and>
    fst (push_requests rs n) = zip [last_included_index n + length (log n)..<
      last_included_index n + length (log n) + length es] es \<and>
    (\<forall>e \<in> set es. entry_term e = current_term n) \<and>
    (\<exists>l. snd (snd (push_requests rs n)) = n\<lparr>log := l\<rparr>)"
  using assms
proof (induction rs arbitrary: n)
  case Nil
  show ?case by (intro exI [of _ "[]"]) (simp, metis RaftNode.surjective RaftNode.update_convs(7))
next
  case (Cons r rs)
  obtain c tx where r: "r = (c, tx)" by (cases r)
  define e where "e = \<lparr>entry_term = current_term n, entry_command = c\<rparr>"
  define m where "m = n\<lparr>log := log n @ [e]\<rparr>"
  obtain es where es: "log (snd (snd (push_requests rs m))) = log m @ es"
    "fst (push_requests rs m) = zip [last_included_index m + length (log m)..<
      last_included_index m + length (log m) + length es] es"
    "\<forall>e \<in> set es. entry_term e = current_term m" "\<exists>l. snd (snd (push_requests rs m)) = m\<lparr>log := l\<rparr>"
    using Cons.IH [of m] by (auto simp: m_def)
  have p: "push_requests (r # rs) n =
      ((last_included_index n + length (log n), e) # fst (push_requests rs m),
       (last_included_index n + length (log n), tx) # fst (snd (push_requests rs m)),
       snd (snd (push_requests rs m)))"
    by (simp add: r e_def m_def Let_def case_prod_beta)
  show ?case
    unfolding p using es
    by (intro exI [of _ "e # es"]) (auto simp: zip_upt_Cons m_def e_def simp del: upt_Suc)
qed

lemma handle_client_batch_ext:
  assumes "db_laws E" "log n \<noteq> []"
  shows "log_ext E n (snd (handle_client_batch E rs n))"
proof (cases "role n = Leader")
  case True
  obtain es l where p: "log (snd (snd (push_requests rs n))) = log n @ es"
    "fst (push_requests rs n) = zip [last_included_index n + length (log n)..<
      last_included_index n + length (log n) + length es] es"
    "\<forall>e \<in> set es. entry_term e = current_term n" "snd (snd (push_requests rs n)) = n\<lparr>log := l\<rparr>"
    using push_requests_spec [OF assms(2), of rs] by blast
  then have l: "l = log n @ es" by simp
  define k where "k = snd (save_log_entries_batch E (fst (push_requests rs n)) (n\<lparr>log := l\<rparr>))"
  have save: "fst (save_log_entries_batch E (fst (push_requests rs n)) (n\<lparr>log := l\<rparr>)) = Inr ()"
    by (simp add: save_log_entries_batch_def case_prod_beta db_lawsD [OF assms(1)])
  have k: "log_ext E n k"
    using save_batch_disk [OF assms(1), of "n\<lparr>log := l\<rparr>" "last_included_index n" "log n" _ es] assms(2) p True l
    by (auto simp: log_ext_def k_def log_ok_def)
  have r: "role k = Leader" "current_term k = current_term n" by (simp_all add: k_def True)
  have kept: "log_ext E n m" if "log_kept E k m" "role m = Leader" "current_term m = current_term n" for m
    using log_ext_log_kept [OF k that(1)] that r by simp
  have "\<exists>m. snd (handle_client_batch E rs n) = send_heartbeats m \<and> log_kept E k m \<and>
      role m = Leader \<and> current_term m = current_term n"
    using True save r
      log_kept_trans [OF _ apply_logs_log_kept [OF assms(1)], of k "k\<lparr>pending_replies := p, commit_index := i\<rparr>" for p i]
    by (auto simp: handle_client_batch_def Let_def case_prod_beta p(4) log_kept_def k_def
        split: sum.split)
  then obtain m where m: "snd (handle_client_batch E rs n) = send_heartbeats m" "log_kept E k m"
    "role m = Leader" "current_term m = current_term n" by blast
  from kept [OF log_kept_trans [OF m(2) sent_only_log_kept [OF send_heartbeats_sent_only]]] m
  show ?thesis by simp
qed (simp add: handle_client_batch_def log_kept_ext sent_only_log_kept)

text \<open>Reads, membership entries and the tick.\<close>

lemma handle_get_read_index_kept: "log_kept E n (handle_get_read_index tx n)"
  by (simp add: handle_get_read_index_def Let_def log_kept_def)

lemma append_membership_ext:
  assumes "db_laws E" "role n = Leader" "log n \<noteq> []"
  shows "log_ext E n (snd (append_membership E c n))" "role (snd (append_membership E c n)) = role n"
    "current_term (snd (append_membership E c n)) = current_term n"
proof -
  have ok: "fst (save_log_entry E i e n) = Inr ()" for i e and n :: "'a RaftNode"
    by (simp add: save_log_entry_def case_prod_beta db_lawsD [OF assms(1)])
  show "log_ext E n (snd (append_membership E c n))"
    using append_entry_ext [OF assms refl] by (simp add: append_membership_def Let_def and_then_Inr [OF ok])
  show "role (snd (append_membership E c n)) = role n"
    "current_term (snd (append_membership E c n)) = current_term n"
    by (simp_all add: append_membership_def Let_def and_then_Inr [OF ok])
qed

text \<open>A change that appends at most entries of the leader and keeps its role and term.\<close>

definition leader_ext :: "'d env \<Rightarrow> 'd RaftNode \<Rightarrow> 'd RaftNode \<Rightarrow> bool" where
  "leader_ext E n n' \<longleftrightarrow> log_ext E n n' \<and> role n' = role n \<and> current_term n' = current_term n"

lemma leader_ext_refl [simp]: "leader_ext E n n"
  by (simp add: leader_ext_def log_kept_ext)

lemma leader_ext_trans: "leader_ext E n n' \<Longrightarrow> leader_ext E n' n'' \<Longrightarrow> leader_ext E n n''"
  using log_ext_trans [of E n n' n''] by (simp add: leader_ext_def)

lemma leader_ext_upd:
  "leader_ext E n m \<Longrightarrow> leader_ext E n (m\<lparr>config_change_state := c, non_voting_members := a, catch_up_progress := b\<rparr>)"
  using log_ext_log_kept [of E n m] by (simp add: leader_ext_def log_kept_def)

lemma leader_ext_and_then:
  assumes "leader_ext E n (snd r)" "\<And>a. leader_ext E (snd r) (snd (f a (snd r)))"
  shows "leader_ext E n (snd (and_then r f))"
  using assms by (auto simp: and_then_def split: prod.splits sum.splits intro: leader_ext_trans)

lemma check_membership_ext:
  assumes "db_laws E" "role n = Leader" "log n \<noteq> []"
  shows "leader_ext E n (snd (check_promote_non_voting_members E n))"
    "leader_ext E n (snd (check_finalize_joint_consensus E n))"
proof -
  have app: "leader_ext E n (snd (append_membership E c n))" for c
    using append_membership_ext [OF assms] by (simp add: leader_ext_def)
  have "leader_ext E n (snd (and_then (append_membership E c n) (\<lambda>i m.
      (Inr (), m\<lparr>config_change_state := f i, non_voting_members := [], catch_up_progress := []\<rparr>))))" for c f
    by (rule leader_ext_and_then [OF app]) (simp add: leader_ext_upd)
  then show "leader_ext E n (snd (check_promote_non_voting_members E n))"
    by (simp add: check_promote_non_voting_members_def promote_non_voting_members_def Let_def
        split: ConfigChangeState.split ClusterConfiguration.split)
  have "leader_ext E n (snd (and_then (append_membership E c n) (\<lambda>_ m. (Inr (), m))))" for c
    by (rule leader_ext_and_then [OF app]) simp
  then show "leader_ext E n (snd (check_finalize_joint_consensus E n))"
    by (simp add: check_finalize_joint_consensus_def split: ConfigChangeState.split)
qed

text \<open>The part of a tick before the snapshot.\<close>

definition tick_body :: "'d env \<Rightarrow> bool \<Rightarrow> 'd RaftNode \<Rightarrow> ('d, unit) res" where
  "tick_body E timer_elapsed n =
     (case role n of
        Leader \<Rightarrow>
          and_then (check_promote_non_voting_members E (send_heartbeats n)) (\<lambda>_ n.
            check_finalize_joint_consensus E n)
      | _ \<Rightarrow> if timer_elapsed then start_election E n else (Inr (), n))"

lemma tick_body_ext:
  assumes "db_laws E" "log n \<noteq> []"
  shows "log_ext E n (snd (tick_body E elapsed n))"
proof (cases "role n = Leader")
  case True
  let ?p = "check_promote_non_voting_members E (send_heartbeats n)"
  have h: "leader_ext E n (send_heartbeats n)"
    by (simp add: leader_ext_def log_kept_ext [OF sent_only_log_kept [OF send_heartbeats_sent_only]])
  have p: "leader_ext E n (snd ?p)"
    by (rule leader_ext_trans [OF h check_membership_ext(1) [OF assms(1)]]) (use True assms(2) in simp_all)
  then have "role (snd ?p) = Leader" "log (snd ?p) \<noteq> []"
    using True assms(2) log_ext_nonempty by (auto simp: leader_ext_def)
  then have "leader_ext E n (snd (and_then ?p (\<lambda>_ n. check_finalize_joint_consensus E n)))"
    by (intro leader_ext_and_then [OF p] check_membership_ext(2) [OF assms(1)])
  then show ?thesis using True by (simp add: tick_body_def leader_ext_def)
next
  case False
  then show ?thesis
    using start_election_ext [OF assms]
    by (cases "role n") (simp_all add: tick_body_def log_kept_ext)
qed

lemma tick_alt:
  "tick E elapsed n =
     and_then (tick_body E elapsed (n\<lparr>monotonic_time := monotonic_time n + 1\<rparr>)) (\<lambda>_ n.
       let n = apply_logs E n
       in if SNAPSHOT_THRESHOLD < length (log n) \<and> last_included_index n < last_applied n
          then create_snapshot E n else (Inr (), n))"
  by (simp add: tick_def tick_body_def Let_def)

end
