(* ===== verification/RaftDurable.thy ===== *)
theory RaftDurable
  imports RaftLog
begin

section \<open>What survives a crash\<close>

text \<open>
  Compaction, the indices of a node, and the invariant that every event keeps: the term, the vote and
  the log in memory are the ones on disk. From it: a restart recovers them.
\<close>

subsection \<open>Compaction\<close>

lemma delete_log_keys_contents:
  assumes "db_laws E"
  shows "fst (delete_log_keys E is n) = Inr ()"
    "contents E (db (snd (delete_log_keys E is n))) k =
       (case k of KLog i \<Rightarrow> if i \<in> set is then None else contents E (db n) k | _ \<Rightarrow> contents E (db n) k)"
proof (induction "is" arbitrary: n)
  case Nil
  {
    case 1 show ?case by simp
  next
    case 2 show ?case by (simp split: DbKey.split)
  }
next
  case (Cons i "is")
  {
    case 1 show ?case using Cons by (simp add: case_prod_beta db_lawsD [OF assms])
  next
    case 2 show ?case
      using Cons(2) [of "n\<lparr>db := snd (db_delete E (KLog i) (db n))\<rparr>"]
      by (auto simp: case_prod_beta db_lawsD [OF assms] split: DbKey.split)
  }
qed

lemma put_snapshot_contents:
  assumes "db_laws E"
  shows "fst (put_snapshot E i t a n) = Inr ()"
    "contents E (db (snd (put_snapshot E i t a n))) =
       (contents E (db n))(KSnapshotMeta \<mapsto> VMeta i t, KSnapshotData \<mapsto> VData a)"
  by (simp_all add: put_snapshot_def Let_def case_prod_beta db_lawsD [OF assms])

lemma install_snapshot_contents:
  assumes "db_laws E"
  shows "fst (install_snapshot E s n) = Inr ()"
    "log (snd (install_snapshot E s n)) = [\<lparr>entry_term = snap_term s, entry_command = NoOp\<rparr>]"
    "contents E (db (snd (install_snapshot E s n))) KSnapshotMeta = Some (VMeta (snap_index s) (snap_term s))"
    "contents E (db (snd (install_snapshot E s n))) (KLog j) =
       (if last_included_index n < j \<and> j \<le> snap_index s then None else contents E (db n) (KLog j))"
  by (auto simp: install_snapshot_def Let_def and_then_Inr [OF put_snapshot_contents(1) [OF assms]]
      and_then_Inr [OF delete_log_keys_contents(1) [OF assms]] delete_log_keys_contents [OF assms]
      put_snapshot_contents [OF assms])

definition idx_ok :: "'d RaftNode \<Rightarrow> bool" where
  "idx_ok n \<longleftrightarrow> last_included_index n \<le> last_applied n \<and> last_applied n \<le> commit_index n \<and>
     commit_index n \<le> last_index n"

text \<open>A snapshot keeps the entries behind it, and their copy on disk.\<close>

lemma compacted_disk:
  assumes "log_ok E n" "last_included_index n \<le> i" "i - last_included_index n < length (log n)"
    and "\<And>j. contents E d (KLog j) = (if last_included_index n < j \<and> j \<le> i then None else contents E (db n) (KLog j))"
  shows "disk_log E d i (e # drop (i - last_included_index n + 1) (log n))"
  using assms(1-3) unfolding disk_log_def assms(4)
  by (auto simp: log_ok_def disk_log_def nth_Cons' nth_append Suc_diff_Suc)

lemma create_snapshot_spec:
  assumes "db_laws E" "log_ok E n" "last_included_index n \<le> last_applied n" "last_applied n \<le> last_index n"
  shows "\<exists>n'. create_snapshot E n = (Inr (), n') \<and> log_ok E n' \<and> last_included_index n' = last_applied n \<and>
    last_included_term n' = entry_term (log n ! (last_applied n - last_included_index n)) \<and>
    tl (log n') = drop (last_applied n - last_included_index n + 1) (log n) \<and>
    commit_index n' = commit_index n \<and> last_applied n' = last_applied n \<and> last_index n' = last_index n"
proof -
  let ?k = "last_applied n - last_included_index n"
  have k: "?k < length (log n)" "u64_sub (last_applied n) (last_included_index n) = ?k"
    using assms(3,4) log_okD(1) [OF assms(2)] by (cases "log n"; simp add: last_index_def u64_sub_def)+
  define t where "t = entry_term (log n ! ?k)"
  have t: "snapshot_entry_term n = t"
    using assms(3) k by (simp add: snapshot_entry_term_def t_def)
  define m where "m = snd (put_snapshot E (last_applied n) t (app_state n) n)"
  define m' where "m' = snd (delete_log_keys E [last_included_index m + 1..<last_applied m + 1] m)"
  have m: "log m = log n" "last_included_index m = last_included_index n" "last_applied m = last_applied n"
    by (simp_all add: m_def)
  have m': "log m' = log n" "last_included_index m' = last_included_index n" "last_applied m' = last_applied n"
    "commit_index m' = commit_index n" "last_included_term m' = last_included_term n"
    by (simp_all add: m'_def m_def)
  define n' where "n' = m'\<lparr>last_included_term := t, log := \<lparr>entry_term = t, entry_command = NoOp\<rparr> # drop (?k + 1) (log n),
    last_included_index := last_applied n\<rparr>"
  have eq: "create_snapshot E n = (Inr (), n')"
    unfolding create_snapshot_def Let_def t
    using k m m' put_snapshot_contents(1) [OF assms(1)] delete_log_keys_contents(1) [OF assms(1)]
    by (simp add: and_then_Inr n'_def m_def m'_def)
  have c: "contents E (db n') (KLog i) = (if last_included_index n < i \<and> i \<le> last_applied n then None
      else contents E (db n) (KLog i))" for i
    by (auto simp: n'_def m'_def delete_log_keys_contents [OF assms(1)] m m_def put_snapshot_contents [OF assms(1)])
  have "contents E (db n') KSnapshotMeta = Some (VMeta (last_applied n) t)"
    by (simp add: n'_def m'_def delete_log_keys_contents [OF assms(1)] m_def put_snapshot_contents [OF assms(1)])
  moreover have "disk_log E (db n') (last_applied n) (log n')"
    using compacted_disk [OF assms(2,3) k(1), of "db n'"] c by (simp add: n'_def)
  ultimately have "log_ok E n'" by (simp add: log_ok_def disk_meta_def n'_def)
  with eq k assms(3) show ?thesis
    by (auto simp: n'_def m' t_def last_index_def)
qed

subsection \<open>Indices\<close>

lemma idx_ok_grow:
  assumes "idx_ok n" "last_index n \<le> last_index n'" "commit_index n' = commit_index n"
    "last_applied n' = last_applied n" "last_included_index n' = last_included_index n"
  shows "idx_ok n'"
  using assms by (simp add: idx_ok_def)

lemma idx_ok_apply:
  assumes "idx_ok n" "commit_index n \<le> i" "i \<le> last_index n"
  shows "idx_ok (apply_logs E (n\<lparr>commit_index := i\<rparr>))" "idx_ok (apply_logs E n)"
  using assms by (simp_all add: idx_ok_def last_index_def)

text \<open>What keeps the indices of a node, up to a longer log.\<close>

definition idx_kept :: "'d RaftNode \<Rightarrow> 'd RaftNode \<Rightarrow> bool" where
  "idx_kept n n' \<longleftrightarrow> (idx_ok n \<longrightarrow> idx_ok n')"

lemma idx_kept_fields:
  assumes "commit_index n' = commit_index n" "last_applied n' = last_applied n"
    "last_included_index n' = last_included_index n" "log n' = log n @ es"
  shows "idx_kept n n'"
  using assms by (auto simp: idx_kept_def idx_ok_def last_index_def)

lemma idx_kept_trans: "idx_kept n n' \<Longrightarrow> idx_kept n' n'' \<Longrightarrow> idx_kept n n''"
  by (simp add: idx_kept_def)

lemma idx_kept_apply: "commit_index n \<le> i \<Longrightarrow> i \<le> last_index n \<Longrightarrow> idx_kept n (apply_logs E (n\<lparr>commit_index := i\<rparr>))"
  by (simp add: idx_kept_def idx_ok_apply)

lemma become_leader_idx: "idx_kept n (become_leader E n)"
proof -
  let ?m = "n\<lparr>role := Leader, current_leader := Some (node_id n),
    current_leader_address := Some (client_address n),
    log := log n @ [\<lparr>entry_term = current_term n, entry_command = NoOp\<rparr>]\<rparr>"
  let ?s = "snd (save_log_entry E (last_index ?m) \<lparr>entry_term = current_term n, entry_command = NoOp\<rparr> ?m)"
  let ?t = "?s\<lparr>next_index := replicate (length (peers ?s)) (length (log ?s) + last_included_index ?s),
               match_index := replicate (length (peers ?s)) (last_included_index ?s)\<rparr>"
  have t: "idx_kept n ?t" by (rule idx_kept_fields) simp_all
  have "idx_kept n (apply_logs E (?t\<lparr>commit_index := last_index ?m\<rparr>))" if "commit_index n < last_index ?m"
    by (rule idx_kept_trans [OF t idx_kept_apply]) (use that in \<open>simp_all add: last_index_def\<close>)
  with t show ?thesis by (cases "peers n") (simp_all add: become_leader_def Let_def)
qed

lemma candidacy_idx:
  "commit_index (candidacy E n) = commit_index n" "last_applied (candidacy E n) = last_applied n"
  "last_included_index (candidacy E n) = last_included_index n" "log (candidacy E n) = log n"
  by (simp_all add: candidacy_def Let_def)

lemmas idx_kept_same = idx_kept_fields [where es = "[]", simplified]

lemma start_election_idx:
  assumes "db_laws E"
  shows "idx_kept n (snd (start_election E n))"
proof -
  have "idx_kept n (candidacy E n)" "idx_kept n (emit os (candidacy E n))" for os
    by (rule idx_kept_same; simp add: candidacy_idx)+
  then show ?thesis
    by (simp add: start_election_eq [OF assms] Let_def idx_kept_trans [OF _ become_leader_idx])
qed

lemma handle_vote_idx:
  assumes "db_laws E"
  shows "idx_kept n (snd (handle_request_vote E args n))"
    "idx_kept n (snd (handle_request_vote_response E reply n))" "idx_kept n (snd (handle_timeout_now E ta n))"
proof -
  show "idx_kept n (snd (handle_request_vote E args n))"
    by (rule idx_kept_same; simp add: handle_request_vote_def Let_def adopt_term_idx
        and_then_Inr [OF save_vote_stored(1) [OF assms]])
  let ?m = "n\<lparr>votes_received := votes_received n + 1, voters := insert (rvr_peer_id reply) (voters n)\<rparr>"
  have m: "idx_kept n ?m" by (rule idx_kept_same) simp_all
  have "idx_kept n (adopt_term E t n)" for t
    by (rule idx_kept_same) (simp_all add: adopt_term_idx)
  moreover have "idx_kept n (become_leader E ?m)" by (rule idx_kept_trans [OF m become_leader_idx])
  moreover have "idx_kept n n" by (simp add: idx_kept_def)
  ultimately show "idx_kept n (snd (handle_request_vote_response E reply n))"
    using m by (simp add: handle_request_vote_response_def Let_def)
  show "idx_kept n (snd (handle_timeout_now E ta n))"
    by (rule idx_kept_same; simp add: handle_timeout_now_eq [OF assms] candidacy_idx step_down_idx)
qed

lemma advance_commit_index_idx:
  assumes "idx_ok n"
  shows "idx_ok (advance_commit_index E n)"
proof -
  have "idx_ok (apply_logs E (n\<lparr>commit_index := i\<rparr>))"
    if "commit_index n < i" "u64_sub i (last_included_index n) < length (log n)" for i
  proof (rule idx_ok_apply(1) [OF assms])
    have "u64_sub i (last_included_index n) = i - last_included_index n"
      using that(1) assms by (simp add: u64_sub_def idx_ok_def)
    with that(2) show "i \<le> last_index n" by (cases "log n") (simp_all add: last_index_def)
  qed (use that in simp)
  with assms show ?thesis by (simp add: advance_commit_index_def Let_def)
qed

lemma ack_read_indices_idx:
  "commit_index (ack_read_indices i n) = commit_index n" "last_applied (ack_read_indices i n) = last_applied n"
  "last_included_index (ack_read_indices i n) = last_included_index n" "log (ack_read_indices i n) = log n"
  by (simp_all add: ack_read_indices_def)

lemma handle_reply_idx:
  "idx_kept n (snd (handle_append_entries_response E reply n))"
  "idx_kept n (snd (handle_install_snapshot_response E sr n))"
proof -
  have rec: "idx_kept n (snd (record_append_reply i reply n))" for i
    by (rule idx_kept_same; simp add: record_append_reply_def Let_def ack_read_indices_idx)
  then have "idx_kept n (snd (case peer_index (aer_peer_id reply) n of
        Some peer_idx \<Rightarrow> record_append_reply peer_idx reply n | None \<Rightarrow> (Inr (), n)))"
    by (simp add: idx_kept_def split: option.split)
  moreover have "idx_kept n (snd (and_then r (\<lambda>_ m. (Inr (x :: RpcMessage), advance_commit_index E m))))"
    if "idx_kept n (snd r)" for r :: "('a, unit) res" and x
    using that advance_commit_index_idx by (cases r) (auto simp: and_then_def idx_kept_def split: sum.split)
  moreover have "idx_kept n (adopt_term E t n)" for t
    by (rule idx_kept_same) (simp_all add: adopt_term_idx)
  moreover have "idx_kept n n" by (simp add: idx_kept_def)
  ultimately show "idx_kept n (snd (handle_append_entries_response E reply n))"
    by (simp add: handle_append_entries_response_def)
  show "idx_kept n (snd (handle_install_snapshot_response E sr n))"
    by (rule idx_kept_same;
        simp add: handle_install_snapshot_response_def ack_read_indices_idx adopt_term_idx split: option.split)
qed

text \<open>\<open>AppendEntries\<close> keeps the indices if it does not truncate below the commit index.\<close>

definition keeps_committed :: "AppendEntriesArgs \<Rightarrow> 'd RaftNode \<Rightarrow> bool" where
  "keeps_committed args n \<longleftrightarrow> (current_term n \<le> ae_term args \<and> matches args n \<longrightarrow>
     commit_index n < last_included_index n + length (merged_log args n))"

lemma handle_append_entries_idx:
  assumes "db_laws E" "log_ok E n" "idx_ok n" "keeps_committed args n"
  shows "idx_ok (snd (handle_append_entries E args n))"
proof (cases "current_term n \<le> ae_term args")
  case True
  obtain r n' where n': "handle_append_entries E args n = (Inr (AppendEntriesResponse r), n')"
    "last_included_index n' = last_included_index n" "log n' = (if matches args n then merged_log args n else log n)"
    "commit_index n' = (if matches args n \<and> commit_index n < leader_commit args
                       then min (leader_commit args) (last_index n') else commit_index n)"
    "last_applied n' = (if matches args n \<and> commit_index n < leader_commit args
                       then max (last_applied n) (commit_index n') else last_applied n)"
    using handle_append_entries_spec [OF assms(1,2) True] by blast
  show ?thesis
  proof (cases "matches args n")
    case True
    then have "commit_index n \<le> last_index n'"
      using assms(4) \<open>current_term n \<le> ae_term args\<close> by (simp add: keeps_committed_def n' last_index_def)
    with True n' assms(3) show ?thesis by (auto simp: idx_ok_def)
  next
    case False
    with n' assms(3) show ?thesis by (simp add: idx_ok_def last_index_def)
  qed
qed (use assms in \<open>simp add: handle_append_entries_def\<close>)

lemma handle_client_batch_idx:
  assumes "db_laws E" "log n \<noteq> []"
  shows "idx_kept n (snd (handle_client_batch E rs n))"
proof (cases "role n = Leader")
  case True
  obtain es l where p: "log (snd (snd (push_requests rs n))) = log n @ es"
    "snd (snd (push_requests rs n)) = n\<lparr>log := l\<rparr>"
    using push_requests_spec [OF assms(2), of rs] by blast
  define k where "k = snd (save_log_entries_batch E (fst (push_requests rs n)) (n\<lparr>log := l\<rparr>))"
  have save: "fst (save_log_entries_batch E (fst (push_requests rs n)) (n\<lparr>log := l\<rparr>)) = Inr ()"
    by (simp add: save_log_entries_batch_def case_prod_beta db_lawsD [OF assms(1)])
  define k' where "k' = k\<lparr>pending_replies := fold (\<lambda>(i, tx). hm_insert i tx) (fst (snd (push_requests rs n))) (pending_replies k)\<rparr>"
  have k': "idx_kept n k'" by (rule idx_kept_fields [of _ _ es]) (use p in \<open>simp_all add: k'_def k_def\<close>)
  let ?i = "last_included_index k' + length (log k') - 1"
  have i: "?i = last_index k'" using assms(2) p by (cases "log n") (simp_all add: last_index_def k'_def k_def)
  have "idx_kept n (apply_logs E (k'\<lparr>commit_index := ?i\<rparr>))" if "commit_index k' < ?i"
    by (rule idx_kept_trans [OF k' idx_kept_apply]) (use that i in auto)
  then have x: "idx_kept n
      (if peers k' = [] \<and> commit_index k' < ?i then apply_logs E (k'\<lparr>commit_index := ?i\<rparr>) else k')"
    using k' by simp
  have eq: "snd (handle_client_batch E rs n) = send_heartbeats
      (if peers k' = [] \<and> commit_index k' < ?i then apply_logs E (k'\<lparr>commit_index := ?i\<rparr>) else k')"
    using True save
    by (cases "save_log_entries_batch E (fst (push_requests rs n)) (n\<lparr>log := l\<rparr>)")
      (simp add: handle_client_batch_def Let_def case_prod_beta p(2) k'_def k_def)
  show ?thesis unfolding eq by (rule idx_kept_trans [OF x idx_kept_same]) simp_all
qed (simp add: handle_client_batch_def idx_kept_same)

lemma check_membership_idx:
  assumes "db_laws E" "role n = Leader" "log n \<noteq> []"
  shows "commit_index (snd (check_promote_non_voting_members E n)) = commit_index n \<and>
      last_applied (snd (check_promote_non_voting_members E n)) = last_applied n"
    "commit_index (snd (check_finalize_joint_consensus E n)) = commit_index n \<and>
      last_applied (snd (check_finalize_joint_consensus E n)) = last_applied n"
proof -
  have ok: "fst (save_log_entry E i e n) = Inr ()" for i e and n :: "'a RaftNode"
    by (simp add: save_log_entry_def case_prod_beta db_lawsD [OF assms(1)])
  show "commit_index (snd (check_promote_non_voting_members E n)) = commit_index n \<and>
      last_applied (snd (check_promote_non_voting_members E n)) = last_applied n"
    by (simp add: check_promote_non_voting_members_def promote_non_voting_members_def append_membership_def
        Let_def and_then_Inr [OF ok] and_then_def [of "(Inr _, _)"]
        split: ConfigChangeState.split ClusterConfiguration.split)
  show "commit_index (snd (check_finalize_joint_consensus E n)) = commit_index n \<and>
      last_applied (snd (check_finalize_joint_consensus E n)) = last_applied n"
    by (simp add: check_finalize_joint_consensus_def append_membership_def Let_def and_then_Inr [OF ok]
        and_then_def [of "(Inr _, _)"] split: ConfigChangeState.split)
qed

lemma leader_ext_idx:
  assumes "leader_ext E n n'" "commit_index n' = commit_index n" "last_applied n' = last_applied n"
  shows "idx_kept n n'"
proof -
  obtain es where "log n' = log n @ es" "last_included_index n' = last_included_index n"
    using assms(1) by (auto simp: leader_ext_def log_ext_def)
  with assms(2,3) show ?thesis by (intro idx_kept_fields)
qed

lemma tick_body_idx:
  assumes "db_laws E" "log n \<noteq> []"
  shows "idx_kept n (snd (tick_body E elapsed n))"
proof (cases "role n = Leader")
  case True
  let ?h = "send_heartbeats n"
  let ?p = "check_promote_non_voting_members E ?h"
  have h: "role ?h = Leader" "log ?h \<noteq> []" using True assms(2) by simp_all
  have hp: "idx_kept ?h (snd ?p)"
    using check_membership_idx(1) [OF assms(1) h] check_membership_ext(1) [OF assms(1) h] by (intro leader_ext_idx) auto
  moreover have "role (snd ?p) = Leader" "log (snd ?p) \<noteq> []"
    using check_membership_ext(1) [OF assms(1) h] h log_ext_nonempty [OF _ h(2)] by (auto simp: leader_ext_def)
  then have "idx_kept (snd ?p) (snd (check_finalize_joint_consensus E (snd ?p)))"
    using check_membership_idx(2) [OF assms(1)] check_membership_ext(2) [OF assms(1)] by (intro leader_ext_idx) auto
  moreover have "idx_kept n ?h" by (rule idx_kept_same) simp_all
  ultimately have "idx_kept n (snd (and_then ?p (\<lambda>_ n. check_finalize_joint_consensus E n)))"
    by (cases ?p) (auto simp: and_then_def idx_kept_def split: sum.split)
  then show ?thesis using True by (simp add: tick_body_def)
next
  case False
  then show ?thesis
    using start_election_idx [OF assms(1)]
    by (cases "role n") (simp_all add: tick_body_def idx_kept_def)
qed

text \<open>A tick: the log grows on a leader, and may then be compacted.\<close>

lemma tick_ok:
  assumes "db_laws E" "log_ok E n" "idx_ok n"
  shows "log_ok E (snd (tick E elapsed n)) \<and> idx_ok (snd (tick E elapsed n))"
proof -
  define m where "m = n\<lparr>monotonic_time := monotonic_time n + 1\<rparr>"
  have kept: "log_kept E n m" by (simp add: m_def log_kept_def)
  have "idx_kept n m" by (rule idx_kept_same) (simp_all add: m_def)
  with assms kept have m: "log_ok E m" "idx_ok m" by (auto simp: idx_kept_def intro: log_kept_ok)
  obtain r b where b: "tick_body E elapsed m = (r, b)" by (cases "tick_body E elapsed m")
  have "log_ok E b" "idx_ok b"
    using tick_body_ext [OF assms(1) log_okD(1) [OF m(1)], of elapsed] tick_body_idx [OF assms(1) log_okD(1) [OF m(1)], of elapsed]
      m b by (simp_all add: log_ext_def idx_kept_def)
  then have a: "log_ok E (apply_logs E b)" "idx_ok (apply_logs E b)"
    using log_kept_ok [OF apply_logs_log_kept [OF assms(1)]] idx_ok_apply(2) [of b "commit_index b"]
    by (auto simp: idx_ok_def)
  have "log_ok E (snd (create_snapshot E (apply_logs E b))) \<and> idx_ok (snd (create_snapshot E (apply_logs E b)))"
    using create_snapshot_spec [OF assms(1) a(1)] a(2) by (auto simp: idx_ok_def)
  with a \<open>log_ok E b\<close> \<open>idx_ok b\<close> show ?thesis
    unfolding tick_alt m_def [symmetric] b by (cases r) (simp_all add: and_then_def Let_def)
qed

subsection \<open>Steps of a node and restarts\<close>

definition node_ok :: "'d env \<Rightarrow> 'd RaftNode \<Rightarrow> bool" where
  "node_ok E n \<longleftrightarrow> vote_inv E n \<and> log_ok E n \<and> idx_ok n"

definition restarted :: "'d env \<Rightarrow> string list \<Rightarrow> string \<Rightarrow> AppState \<Rightarrow> 'd RaftNode \<Rightarrow> 'd RaftNode" where
  "restarted E ps addr app n = run_init (RaftNode_new E (node_id n) ps addr app (db n))"

text \<open>A node between two events. Messages are arbitrary, but no snapshot is installed and no leader
  contradicts what the node has committed.\<close>

inductive node_step :: "'d env \<Rightarrow> 'd RaftNode \<Rightarrow> 'd RaftNode \<Rightarrow> bool" for E where
  deliver: "\<lbrakk>handle_rpc (E\<lparr>env_now := t\<rparr>) msg n = (res, n'); \<And>args. msg \<noteq> InstallSnapshot args;
     \<And>args. msg = AppendEntries args \<Longrightarrow> keeps_committed args n\<rbrakk> \<Longrightarrow> node_step E n n'"
| client: "handle_client_batch (E\<lparr>env_now := t\<rparr>) rs n = (res, n') \<Longrightarrow> node_step E n n'"
| read: "node_step E n (handle_get_read_index tx n)"
| clock: "tick (E\<lparr>env_now := t\<rparr>) elapsed n = (res, n') \<Longrightarrow> node_step E n n'"
| restart: "node_step E n (restarted E ps addr app n)"

lemma load_log_loop_disk:
  assumes "db_laws E" "disk_log E d li l" "li < i" "i \<le> li + length l"
  shows "load_log_loop E d [i..<max (li + length l) b] = drop (i - li) l"
  using assms(3,4)
proof (induction "li + length l - i" arbitrary: i)
  case 0
  then have i: "i = li + length l" by simp
  have "contents E d (KLog i) = None" using assms(2) 0 by (simp add: disk_log_def i)
  then show ?case
    using i by (cases "i < b") (simp_all add: upt_conv_Cons db_lawsD(1) [OF assms(1)] max_def)
next
  case (Suc k)
  then have lt: "i < li + length l" by simp
  then have c: "contents E d (KLog i) = Some (VEntry (l ! (i - li)))" using assms(2) Suc by (simp add: disk_log_def)
  have "drop (i - li) l = l ! (i - li) # drop (Suc i - li) l"
    using lt Suc.prems(1) by (simp add: Cons_nth_drop_Suc Suc_diff_le)
  moreover have "[i..<max (li + length l) b] = i # [Suc i..<max (li + length l) b]"
    using lt by (simp add: upt_conv_Cons)
  ultimately show ?case
    using Suc.hyps(1) [of "Suc i"] Suc.hyps(2) Suc.prems lt c by (simp add: db_lawsD(1) [OF assms(1)])
qed

lemma load_log_ok:
  assumes "db_laws E" "log_ok E n"
  shows "load_log_loop E (db n) [last_included_index n + 1..<db_bound E (db n)] = tl (log n)"
proof -
  let ?li = "last_included_index n" and ?b = "db_bound E (db n)"
  have d: "disk_log E (db n) ?li (log n)" "log n \<noteq> []" using assms(2) by (simp_all add: log_ok_def)
  have "[?li + 1..<?b] = [?li + 1..<max (?li + length (log n)) ?b]"
  proof (cases "?li + 1 < ?li + length (log n)")
    case True
    then have "contents E (db n) (KLog (?li + length (log n) - 1)) \<noteq> None" using d(1) by (simp add: disk_log_def)
    then have "?li + length (log n) - 1 < ?b" by (rule db_lawsD(8) [OF assms(1)])
    then show ?thesis by (simp add: max_def)
  next
    case False
    then have "length (log n) = 1" using d(2) by (cases "log n") auto
    then show ?thesis by (simp add: max_def)
  qed
  then show ?thesis
    using load_log_loop_disk [OF assms(1) d(1), of "?li + 1" ?b] d(2) by (cases "log n") (simp_all add: drop_Suc)
qed

lemma load_state_ok:
  assumes "db_laws E" "log_ok E n"
  shows "\<exists>t v a. load_state E (db n) app = (t, v, log n, last_included_index n, last_included_term n, a)"
proof -
  have "log n = \<lparr>entry_term = last_included_term n, entry_command = NoOp\<rparr> # tl (log n)"
    using assms(2) by (cases "log n") (auto simp: log_ok_def)
  moreover have "contents E (db n) KSnapshotMeta = Some (VMeta (last_included_index n) (last_included_term n)) \<or>
      contents E (db n) KSnapshotMeta = None \<and> last_included_index n = 0 \<and> last_included_term n = 0"
    using assms(2) by (simp add: log_ok_def disk_meta_def)
  ultimately show ?thesis
    using load_log_ok [OF assms] by (elim disjE) (simp_all add: load_state_def db_lawsD(1) [OF assms(1)] Let_def)
qed

lemma restart_log:
  assumes "db_laws E" "log_ok E n"
  shows "log (restarted E ps addr app n) = log n"
    "last_included_index (restarted E ps addr app n) = last_included_index n"
    "last_included_term (restarted E ps addr app n) = last_included_term n"
    "commit_index (restarted E ps addr app n) = last_included_index n"
    "last_applied (restarted E ps addr app n) = last_included_index n" "db (restarted E ps addr app n) = db n"
proof -
  obtain t v a where "load_state E (db n) app = (t, v, log n, last_included_index n, last_included_term n, a)"
    using load_state_ok [OF assms] by blast
  then show "log (restarted E ps addr app n) = log n"
    "last_included_index (restarted E ps addr app n) = last_included_index n"
    "last_included_term (restarted E ps addr app n) = last_included_term n"
    "commit_index (restarted E ps addr app n) = last_included_index n"
    "last_applied (restarted E ps addr app n) = last_included_index n" "db (restarted E ps addr app n) = db n"
    by (simp_all add: restarted_def run_init_def RaftNode_new_def Let_def case_prod_beta)
qed

lemma handle_rpc_log_ok:
  assumes "db_laws E" "log_ok E n" "idx_ok n" "\<And>args. msg \<noteq> InstallSnapshot args"
    and "\<And>args. msg = AppendEntries args \<Longrightarrow> keeps_committed args n"
  shows "log_ok E (snd (handle_rpc E msg n)) \<and> idx_ok (snd (handle_rpc E msg n))"
proof (cases msg)
  case (AppendEntries args)
  have "log_ok E (snd (handle_append_entries E args n))"
  proof (cases "current_term n \<le> ae_term args")
    case True
    then show ?thesis using handle_append_entries_spec [OF assms(1,2) True] by auto
  qed (use assms(2) in \<open>simp add: handle_append_entries_def\<close>)
  then show ?thesis
    using handle_append_entries_idx [OF assms(1-3) assms(5) [OF AppendEntries]] AppendEntries by simp
next
  case (RequestVoteResponse r)
  then show ?thesis
    using handle_request_vote_response_ext [OF assms(1) log_okD(1) [OF assms(2)], of r] assms(2,3)
      handle_vote_idx(2) [OF assms(1), of n r] by (simp add: log_ext_def idx_kept_def)
qed (use assms log_kept_ok [OF handle_request_vote_kept] log_kept_ok [OF handle_append_entries_response_kept]
      log_kept_ok [OF handle_install_snapshot_response_kept] log_kept_ok [OF handle_timeout_now_ext]
      handle_vote_idx [OF assms(1), of n] handle_reply_idx [of n E] in \<open>simp_all add: idx_kept_def\<close>)

text \<open>The invariant of a node is kept by every step.\<close>

lemma node_ok_env_now [simp]: "node_ok (E\<lparr>env_now := t\<rparr>) n = node_ok E n"
  by (simp add: node_ok_def log_ok_def disk_log_def disk_meta_def)

lemma handlers_node_ok:
  assumes "db_laws E" "node_ok E n"
  shows "(\<And>args. msg \<noteq> InstallSnapshot args) \<Longrightarrow> (\<And>args. msg = AppendEntries args \<Longrightarrow> keeps_committed args n) \<Longrightarrow>
      node_ok E (snd (handle_rpc E msg n))"
    "node_ok E (snd (handle_client_batch E rs n))" "node_ok E (handle_get_read_index tx n)"
    "node_ok E (snd (tick E elapsed n))" "node_ok E (restarted E ps addr app n)"
proof -
  have n: "vote_inv E n" "log_ok E n" "idx_ok n" using assms(2) by (simp_all add: node_ok_def)
  note ne = log_okD(1) [OF n(2)]
  show "node_ok E (snd (handle_rpc E msg n))"
    if "\<And>args. msg \<noteq> InstallSnapshot args" "\<And>args. msg = AppendEntries args \<Longrightarrow> keeps_committed args n"
    using handle_rpc_elect_step [OF assms(1) n(1), of msg UNIV] handle_rpc_log_ok [OF assms(1) n(2,3) that]
    by (simp add: node_ok_def elect_step_def)
  show "node_ok E (snd (handle_client_batch E rs n))"
    using vote_kept_elect_step [OF n(1) handle_client_batch_vote_kept [OF assms(1)], of "{}" rs]
      handle_client_batch_ext [OF assms(1) ne, of rs] handle_client_batch_idx [OF assms(1) ne, of rs] n
    by (simp add: node_ok_def elect_step_def log_ext_def idx_kept_def)
  show "node_ok E (handle_get_read_index tx n)"
    using vote_kept_elect_step [OF n(1) handle_get_read_index_vote_kept, of "{}" tx] n
      log_kept_ok [OF handle_get_read_index_kept n(2), of tx]
    by (simp add: node_ok_def elect_step_def)
      (simp add: handle_get_read_index_def Let_def idx_ok_def last_index_def)
  show "node_ok E (snd (tick E elapsed n))"
    using tick_elect_step [OF assms(1) n(1), of "{}" elapsed] tick_ok [OF assms(1) n(2,3), of elapsed]
    by (simp add: node_ok_def elect_step_def)
  show "node_ok E (restarted E ps addr app n)"
    using restart_elect_step [OF assms(1) n(1), of "{}" ps addr app] restart_log [OF assms(1) n(2), of ps addr app] n
    by (simp add: node_ok_def elect_step_def restarted_def [symmetric] log_ok_def idx_ok_def last_index_def)
qed

lemma node_step_ok:
  assumes "db_laws E" "node_ok E n" "node_step E n n'"
  shows "node_ok E n'"
  using assms(3)
proof cases
  case (deliver t msg res)
  then show ?thesis
    using handlers_node_ok(1) [of "E\<lparr>env_now := t\<rparr>" n msg] assms(1,2) by simp
next
  case (client t rs res)
  then show ?thesis
    using handlers_node_ok(2) [of "E\<lparr>env_now := t\<rparr>" n rs] assms(1,2) by simp
next
  case (clock t elapsed res)
  then show ?thesis
    using handlers_node_ok(4) [of "E\<lparr>env_now := t\<rparr>" n elapsed] assms(1,2) by simp
qed (use handlers_node_ok(3,5) [OF assms(1,2)] in simp_all)

lemma node_run_ok: "db_laws E \<Longrightarrow> node_ok E n \<Longrightarrow> rtranclp (node_step E) n n' \<Longrightarrow> node_ok E n'"
  by (rotate_tac 2, induction rule: rtranclp_induct) (auto intro: node_step_ok)

subsection \<open>Properties\<close>

text \<open>C15. \<open>AppendEntries\<close> implements the merge of Raft in both of its branches, at the snapshot point and
  behind it: a request of a current term is accepted exactly if the entry before the new ones has the
  given term; then the log keeps everything up to the first conflict and takes the entries of the leader
  from there, and the reply names the last of them; otherwise the log is unchanged.\<close>

theorem append_entries_merge:
  assumes "db_laws E" "log_ok E n" "current_term n \<le> ae_term args"
  shows "\<exists>r n'. handle_append_entries E args n = (Inr (AppendEntriesResponse r), n') \<and>
    aer_success r = matches args n \<and> log n' = (if matches args n then merged_log args n else log n) \<and>
    (matches args n \<longrightarrow> aer_match_index r = prev_log_index args + length (entries args) \<and>
      (\<forall>j < length (entries args).
         entry_term (log n' ! (prev_log_index args - last_included_index n + 1 + j)) = entry_term (entries args ! j)))"
proof -
  obtain r n' where n': "handle_append_entries E args n = (Inr (AppendEntriesResponse r), n')"
    "aer_success r = matches args n" "log n' = (if matches args n then merged_log args n else log n)"
    "matches args n \<longrightarrow> aer_match_index r = prev_log_index args + length (entries args)"
    using handle_append_entries_spec [OF assms] by blast
  moreover have "entry_term (merged_log args n ! (prev_log_index args - last_included_index n + 1 + j)) =
      entry_term (entries args ! j)" if "matches args n" "j < length (entries args)" for j
  proof -
    let ?k = "prev_log_index args - last_included_index n + 1"
    have "length (take ?k (log n)) = ?k" using that(1) by (simp add: matches_def)
    then show ?thesis
      using merge_entries_terms [OF that(2), of "drop ?k (log n)"]
        nth_append_length_plus [of "take ?k (log n)" "merge_entries (drop ?k (log n)) (entries args)" j]
      by (simp add: merged_log_def Let_def)
  qed
  ultimately show ?thesis by auto
qed

text \<open>C16. What a node has promised survives a crash: whatever requests, replies, ticks, client commands and
  earlier restarts it has seen, a restart from its store finds the term, the vote, the log and the
  snapshot position it had in memory, provided no snapshot of a leader was installed and no leader
  contradicted what the node had committed.\<close>

theorem restart_recovers_state:
  assumes "db_laws E" "node_ok E n" "rtranclp (node_step E) n n'"
  shows "current_term (restarted E ps addr app n') = current_term n' \<and>
    voted_for (restarted E ps addr app n') = voted_for n' \<and> log (restarted E ps addr app n') = log n' \<and>
    last_included_index (restarted E ps addr app n') = last_included_index n' \<and>
    last_included_term (restarted E ps addr app n') = last_included_term n'"
proof -
  have "node_ok E n'" by (rule node_run_ok [OF assms])
  then have "vote_inv E n'" "log_ok E n'" by (simp_all add: node_ok_def)
  then show ?thesis
    using restart_log [OF assms(1)] restart_vote [OF assms(1), of "node_id n'" ps addr app "db n'"]
    by (simp add: restarted_def vote_inv_def synced_def)
qed

text \<open>C17. A snapshot of the leader does not replace the log on disk: if it ends before the last entry of the
  follower, the follower forgets its later entries in memory, but they stay on disk and are back in its
  log, behind the snapshot, after a restart.\<close>

theorem install_snapshot_resurrects:
  assumes "db_laws E" "log_ok E n" "current_term n \<le> is_term args"
    and "last_included_index n < is_last_included_index args" "is_last_included_index args < last_index n"
    and "n' = snd (handle_install_snapshot E args n)"
  shows "length (log n') = 1 \<and>
    tl (log (restarted E ps addr app n')) = drop (is_last_included_index args - last_included_index n + 1) (log n) \<and>
    tl (log (restarted E ps addr app n')) \<noteq> []"
proof -
  let ?s = "is_last_included_index args" and ?t = "is_last_included_term args"
  define m where "m = (step_down_to_follower E (is_term args) None n)\<lparr>current_leader := Some (is_leader_id args)\<rparr>"
  have "log_kept E n m" using step_down_log_kept(1) [OF assms(1), of n] by (simp add: m_def log_kept_def)
  then have m: "log m = log n" "last_included_index m = last_included_index n" "log_ok E m"
    using assms(2) by (auto simp: log_kept_def intro: log_kept_ok)
  from install_snapshot_contents [OF assms(1), of "\<lparr>snap_index = ?s, snap_term = ?t, snap_data = is_data args\<rparr>" m]
  have n': "log n' = [\<lparr>entry_term = ?t, entry_command = NoOp\<rparr>]"
    "contents E (db n') KSnapshotMeta = Some (VMeta ?s ?t)"
    "contents E (db n') (KLog j) = (if last_included_index m < j \<and> j \<le> ?s then None else contents E (db m) (KLog j))" for j
    using assms(3,4,6) m(2)
    by (simp_all add: handle_install_snapshot_def Let_def and_then_Inr flip: m_def)
  define x where "x = n'\<lparr>log := \<lparr>entry_term = ?t, entry_command = NoOp\<rparr> # drop (?s - last_included_index n + 1) (log n),
    last_included_index := ?s, last_included_term := ?t\<rparr>"
  have k: "?s - last_included_index n + 1 < length (log n)" using assms(4,5) by (simp add: last_index_def)
  have "log_ok E x"
    using compacted_disk [OF m(3), of ?s "db n'"] n' assms(4) k m by (simp add: x_def log_ok_def disk_meta_def)
  moreover have "restarted E ps addr app n' = restarted E ps addr app x" by (simp add: restarted_def x_def)
  ultimately have "log (restarted E ps addr app n') = log x" by (simp add: restart_log(1) [OF assms(1)])
  with n'(1) k show ?thesis by (simp add: x_def)
qed

subsection \<open>Concrete inputs\<close>

definition example_append :: AppendEntriesArgs where
  "example_append = \<lparr>ae_term = 1, ae_leader_id = 1, prev_log_index = 0, prev_log_term = 0,
     entries = [\<lparr>entry_term = 1, entry_command = NoOp\<rparr>, \<lparr>entry_term = 1, entry_command = NoOp\<rparr>], leader_commit = 0, leader_address = address_of 1\<rparr>"

definition example_conflict :: AppendEntriesArgs where
  "example_conflict = \<lparr>ae_term = 2, ae_leader_id = 3, prev_log_index = 1, prev_log_term = 1,
     entries = [\<lparr>entry_term = 2, entry_command = NoOp\<rparr>], leader_commit = 0, leader_address = address_of 3\<rparr>"

definition example_follower :: "mem_db RaftNode" where
  "example_follower = snd (handle_append_entries mem_env example_append (boot 2))"

definition example_snapshot :: InstallSnapshotArgs where
  "example_snapshot = \<lparr>is_term = 1, is_leader_id = 1, is_last_included_index = 1, is_last_included_term = 1,
     is_data = ConfigApp \<lparr>shard_map = new_range, masters = []\<rparr>\<rparr>"

lemma boot_node_ok: "node_ok mem_env (boot i)"
  by (simp add: node_ok_def vote_inv_def synced_def stored_term_def stored_vote_def contents_def log_ok_def
      disk_log_def disk_meta_def idx_ok_def last_index_def boot_def run_init_def RaftNode_new_def
      load_state_def load_config_def mem_env_def)

lemma boot_log:
  "log (boot i) = [\<lparr>entry_term = 0, entry_command = NoOp\<rparr>]" "last_included_index (boot i) = 0"
  "current_term (boot i) = 0"
  by (simp_all add: boot_def run_init_def RaftNode_new_def load_state_def load_config_def mem_env_def)

lemma example_follower_log:
  "log_ok mem_env example_follower" "last_included_index example_follower = 0"
  "log example_follower = \<lparr>entry_term = 0, entry_command = NoOp\<rparr> # entries example_append"
  "current_term example_follower = 1"
proof -
  have "log_ok mem_env (boot 2)" using boot_node_ok by (simp add: node_ok_def)
  from handle_append_entries_spec [OF db_laws_mem_env this, of example_append]
  show "log_ok mem_env example_follower" "last_included_index example_follower = 0"
    "log example_follower = \<lparr>entry_term = 0, entry_command = NoOp\<rparr> # entries example_append"
    by (auto simp: example_follower_def boot_log example_append_def matches_def merged_log_def)
  show "current_term example_follower = 1"
    by (simp add: example_follower_def example_append_def boot_defs handle_append_entries_def append_to_log_def
        election_defs save_log_entries_batch_def append_reply_def)
qed

theorem append_entries_merge_witness:
  "db_laws mem_env \<and> log_ok mem_env example_follower \<and>
   map entry_term (log (snd (handle_append_entries mem_env example_conflict example_follower))) = [0, 1, 2]"
proof -
  have "current_term example_follower \<le> ae_term example_conflict"
    by (simp add: example_follower_log example_conflict_def)
  from append_entries_merge [OF db_laws_mem_env example_follower_log(1) this]
  have "log (snd (handle_append_entries mem_env example_conflict example_follower)) =
      merged_log example_conflict example_follower"
    by (auto simp: example_follower_log matches_def example_conflict_def example_append_def)
  then show ?thesis
    using db_laws_mem_env example_follower_log(1)
    by (simp add: example_follower_log merged_log_def example_conflict_def example_append_def)
qed

theorem restart_recovers_state_witness:
  "node_ok mem_env (boot 1) \<and> rtranclp (node_step mem_env) (boot 1) example_candidate \<and>
   current_term (restarted mem_env [] (address_of 1) (app_state (boot 1)) example_candidate) = 1"
proof -
  have now: "mem_env\<lparr>env_now := 0\<rparr> = mem_env" by (simp add: mem_env_def)
  have "node_step mem_env (boot 1) example_candidate"
    by (rule node_step.clock [where t = 0 and elapsed = True and res = "fst (tick mem_env True (boot 1))"])
      (simp add: now example_candidate_def)
  then have run: "rtranclp (node_step mem_env) (boot 1) example_candidate" by blast
  from restart_recovers_state [OF db_laws_mem_env boot_node_ok this, of "[]" "address_of 1" "app_state (boot 1)"]
  show ?thesis using boot_node_ok run by (simp add: example_candidate_eval)
qed

theorem install_snapshot_resurrects_witness:
  "db_laws mem_env \<and> log_ok mem_env example_follower \<and>
   length (log (snd (handle_install_snapshot mem_env example_snapshot example_follower))) = 1 \<and>
   length (log (restarted mem_env [] (address_of 2) (app_state (boot 2))
     (snd (handle_install_snapshot mem_env example_snapshot example_follower)))) = 2"
proof -
  let ?n = "snd (handle_install_snapshot mem_env example_snapshot example_follower)"
  let ?l = "log (restarted mem_env [] (address_of 2) (app_state (boot 2)) ?n)"
  have "length (log ?n) = 1 \<and> tl ?l = drop 2 (log example_follower) \<and> tl ?l \<noteq> []"
    using install_snapshot_resurrects [OF db_laws_mem_env example_follower_log(1), of example_snapshot ?n
        "[]" "address_of 2" "app_state (boot 2)"]
    by (simp add: example_follower_log example_snapshot_def last_index_def example_append_def)
  then have "length (log ?n) = 1" "length (tl ?l) = 1" "?l \<noteq> []"
    by (auto simp: example_follower_log example_append_def)
  then show ?thesis
    using db_laws_mem_env example_follower_log(1) by (cases ?l) simp_all
qed

end
