(* ===== verification/RaftCommit.thy ===== *)
theory RaftCommit
  imports RaftDurable
begin

section \<open>The commit rule\<close>

text \<open>
  Which index a leader commits. The source sorts the match indices of the members, takes the greatest
  that a majority has reached, and commits it if the entry there is of the current term.
\<close>

text \<open>The reference: the greatest index that a majority of the members has stored.\<close>

definition quorum_index :: "ClusterConfiguration \<Rightarrow> (usize, usize) hashmap \<Rightarrow> usize \<Rightarrow> usize" where
  "quorum_index c ms fallback =
     (let is = {i \<in> set (hm_values ms). has_joint_majority c (acks_for i ms)}
      in if is = {} then fallback else Max is)"

lemma majority_loop_filter:
  "majority_loop c ms fallback cs =
     (case filter (\<lambda>i. has_joint_majority c (acks_for i ms)) cs of [] \<Rightarrow> fallback | i # _ \<Rightarrow> i)"
  by (induction cs) simp_all

lemma majority_loop_quorum_index:
  "majority_loop c ms fallback (rev (sort (hm_values ms))) = quorum_index c ms fallback"
proof -
  let ?P = "\<lambda>i. has_joint_majority c (acks_for i ms)"
  let ?f = "filter ?P (rev (sort (hm_values ms)))"
  have set: "set ?f = {i \<in> set (hm_values ms). ?P i}" by auto
  have "sorted_wrt (\<ge>) (rev (sort (hm_values ms)))" by (simp add: sorted_wrt_rev)
  then have sorted: "sorted_wrt (\<ge>) ?f" by (rule sorted_wrt_filter)
  show ?thesis
  proof (cases ?f)
    case Nil
    then show ?thesis using set by (simp add: majority_loop_filter quorum_index_def Let_def)
  next
    case (Cons i cs)
    have "Max (set ?f) = i" using sorted by (intro Max_eqI) (auto simp: Cons)
    moreover have "quorum_index c ms fallback = Max (set ?f)"
      unfolding quorum_index_def Let_def set [symmetric] using Cons by simp
    ultimately show ?thesis using Cons by (simp add: majority_loop_filter)
  qed
qed

lemma acks_for_anti: "i \<le> j \<Longrightarrow> acks_for j ms \<subseteq> acks_for i ms"
  by (auto simp: acks_for_def)

lemma no_majority_empty: "\<not> has_joint_majority c {}"
  by (cases c) (simp_all add: ack_count_def)

text \<open>It is the greatest among all indices, not only among the match indices.\<close>

lemma quorum_index_greatest:
  assumes "has_joint_majority c (acks_for i ms)"
  shows "i \<le> quorum_index c ms fallback" "has_joint_majority c (acks_for (quorum_index c ms fallback) ms)"
proof -
  let ?is = "{i \<in> set (hm_values ms). has_joint_majority c (acks_for i ms)}"
  define js where "js = {j \<in> set (hm_values ms). i \<le> j}"
  have "acks_for i ms \<noteq> {}" using assms no_majority_empty by metis
  then have js: "js \<noteq> {}" "finite js" by (force simp: js_def acks_for_def hm_values_def)+
  then have v: "Min js \<in> js" by simp
  have "Min js \<le> m" if "(a, m) \<in> set ms" "i \<le> m" for a m
    using js(2) that by (intro Min_le) (force simp: js_def hm_values_def)+
  then have "acks_for i ms \<subseteq> acks_for (Min js) ms" by (force simp: acks_for_def)
  then have m: "Min js \<in> ?is" using v majority.quorum_mono [OF assms] by (auto simp: js_def)
  then have "Min js \<le> Max ?is" by (intro Max_ge) auto
  moreover have "i \<le> Min js" using v by (simp add: js_def)
  ultimately have "i \<le> Max ?is" by (rule order_trans [rotated])
  moreover have "?is \<noteq> {}" using m by blast
  ultimately have ne: "?is \<noteq> {}" "i \<le> Max ?is" by simp_all
  then have "Max ?is \<in> ?is" by (intro Max_in) auto
  with ne show "i \<le> quorum_index c ms fallback" "has_joint_majority c (acks_for (quorum_index c ms fallback) ms)"
    by (auto simp: quorum_index_def Let_def)
qed

lemma quorum_index_none:
  assumes "\<And>i. \<not> has_joint_majority c (acks_for i ms)"
  shows "quorum_index c ms fallback = fallback"
  using assms by (simp add: quorum_index_def)

subsection \<open>Reads\<close>

text \<open>Which reads are answered: from \<open>n\<close> to \<open>n'\<close> only confirmed ones, once their index is applied.\<close>

definition reads_ok :: "'d RaftNode \<Rightarrow> 'd RaftNode \<Rightarrow> bool" where
  "reads_ok n n' \<longleftrightarrow> set (pending_read_indices n') \<subseteq> set (pending_read_indices n) \<and> last_applied n \<le> last_applied n' \<and>
     (\<forall>tx i. ReplyRead tx (Inr i) \<in> set (outbox n') \<longrightarrow> ReplyRead tx (Inr i) \<in> set (outbox n) \<or>
        (\<exists>req \<in> set (pending_read_indices n). rd_reply_tx req = tx \<and> read_index req = i \<and>
           majority_confirmed req \<and> i \<le> last_applied n'))"

lemma reads_ok_same:
  "outbox n' = outbox n \<Longrightarrow> pending_read_indices n' = pending_read_indices n \<Longrightarrow> last_applied n \<le> last_applied n' \<Longrightarrow>
   reads_ok n n'"
  by (simp add: reads_ok_def)

lemma reads_ok_trans: "reads_ok n n' \<Longrightarrow> reads_ok n' n'' \<Longrightarrow> reads_ok n n''"
  unfolding reads_ok_def by (intro conjI allI impI) (blast, simp, meson order_trans subsetD)

lemma check_read_indices_reads_ok: "reads_ok n (check_read_indices n)"
  by (auto simp: reads_ok_def check_read_indices_def Let_def)

lemma apply_membership_reads_ok: "reads_ok n (apply_membership_command E c n)"
  by (cases c) (auto intro!: reads_ok_same simp: update_peer_tracking_def Let_def)

lemma apply_next_reads_ok: "reads_ok n (apply_next E n)"
proof -
  let ?m = "n\<lparr>last_applied := last_applied n + 1\<rparr>"
  define k where "k = (case entry_command (log ?m ! u64_sub (last_applied ?m) (last_included_index ?m)) of
      Membership c \<Rightarrow> apply_membership_command E c ?m
    | c \<Rightarrow> ?m\<lparr>app_state := apply_command (env_crc E) (env_now E) c (app_state ?m)\<rparr>)"
  have m: "reads_ok n ?m" by (rule reads_ok_same) simp_all
  have "reads_ok ?m k" by (auto simp: k_def apply_membership_reads_ok intro!: reads_ok_same split: Command.split)
  then have k: "reads_ok n (check_read_indices k)"
    using reads_ok_trans [OF m reads_ok_trans [OF _ check_read_indices_reads_ok]] by blast
  have e: "reads_ok x (emit [ReplyClient tx r] (x\<lparr>pending_replies := ps\<rparr>))" for tx r ps and x :: "'a RaftNode"
    by (simp add: reads_ok_def)
  have reply: "reads_ok n (case ro of
      Some tx \<Rightarrow> emit [ReplyClient tx (Inr ())] (x\<lparr>pending_replies := ps\<rparr>) | None \<Rightarrow> x)"
    if "reads_ok n x" for ro ps x
    using that reads_ok_trans [OF that e] by (simp split: option.split)
  show ?thesis
    unfolding apply_next_def Let_def k_def [symmetric] by (rule reply) (use k m in simp)
qed

lemma apply_logs_reads_ok: "reads_ok n (apply_logs E n)"
proof (induction E n rule: apply_logs.induct)
  case (1 E n)
  then show ?case
    by (subst apply_logs.simps) (auto intro: reads_ok_trans apply_next_reads_ok reads_ok_same)
qed

lemma advance_commit_index_reads_ok: "reads_ok n (advance_commit_index E n)"
proof -
  have "reads_ok n (apply_logs E (n\<lparr>commit_index := i\<rparr>))" for i
    by (rule reads_ok_trans [OF reads_ok_same apply_logs_reads_ok]) simp_all
  then show ?thesis by (simp add: advance_commit_index_def Let_def reads_ok_same)
qed

text \<open>A reply counts for the pending reads of its term.\<close>

definition ack_request :: "u64 \<Rightarrow> ClusterConfiguration \<Rightarrow> usize \<Rightarrow> ReadIndexRequest \<Rightarrow> ReadIndexRequest" where
  "ack_request term' c pid req =
     (if rd_term req = term'
      then let req = req\<lparr>rd_acks := insert pid (rd_acks req)\<rparr>
           in if has_joint_majority c (rd_acks req) then req\<lparr>majority_confirmed := True\<rparr> else req
      else req)"

lemma ack_read_indices_alt:
  "ack_read_indices pid n = check_read_indices (n\<lparr>pending_read_indices :=
     map (ack_request (current_term n) (cluster_config n) pid) (pending_read_indices n)\<rparr>)"
  by (simp add: ack_read_indices_def ack_request_def [abs_def])

lemma record_append_reply_reads:
  "\<exists>k. outbox k = outbox n \<and> reads_ok k (snd (record_append_reply p reply n)) \<and>
     set (pending_read_indices k) \<subseteq> set (pending_read_indices n) \<union>
       ack_request (current_term n) (cluster_config n) (aer_peer_id reply) ` set (pending_read_indices n)"
proof (cases "aer_success reply \<and> p < length (next_index n) \<and> p < length (match_index n)")
  case True
  let ?k = "n\<lparr>next_index := (next_index n)[p := aer_match_index reply + 1],
    match_index := (match_index n)[p := aer_match_index reply],
    catch_up_progress := hm_modify (aer_peer_id reply) (update_progress (aer_match_index reply)) (catch_up_progress n),
    pending_read_indices := map (ack_request (current_term n) (cluster_config n) (aer_peer_id reply)) (pending_read_indices n)\<rparr>"
  have "snd (record_append_reply p reply n) = check_read_indices ?k"
    using True by (simp add: record_append_reply_def ack_read_indices_alt Let_def)
  then show ?thesis using check_read_indices_reads_ok [of ?k] by (intro exI [of _ ?k]) auto
next
  case False
  then have "reads_ok n (snd (record_append_reply p reply n))"
    by (auto simp: record_append_reply_def intro!: reads_ok_same)
  then show ?thesis by auto
qed

subsection \<open>Properties\<close>



text \<open>A leader of three whose first follower has acknowledged its entry.\<close>

definition example_acked :: "mem_db RaftNode" where
  "example_acked = example_leader\<lparr>match_index := [1, 0]\<rparr>"

lemma example_acked_matches: "server_match_indices example_acked = [(1, 1), (2, 1), (3, 0)]"
  by (simp add: example_acked_def server_match_indices_def example_leader_state example_leader_eval
      last_index_def address_of_neq address_of_neq [symmetric] del: One_nat_def)


definition example_reading :: "mem_db RaftNode" where
  "example_reading = example_leader\<lparr>outbox := [], match_index := [0, 0], pending_read_indices :=
     [\<lparr>read_index = 0, rd_term = 1, rd_acks = {1}, majority_confirmed = False, rd_reply_tx = 7\<rparr>]\<rparr>"

definition example_ack :: AppendEntriesReply where
  "example_ack = \<lparr>aer_term = 1, aer_success = True, aer_match_index = 0, aer_peer_id = 3\<rparr>"


end
