(* ===== verification/Placement.thy ===== *)
theory Placement
  imports MasterState
begin

section \<open>Placing, healing and balancing replicas (dfs/metaserver/src/master.rs, lines 369 to 845)\<close>

text \<open>
  Where a master puts replicas and what it does about lost ones: the rack-aware choice of chunk
  servers, the healer that schedules replication and the reconstruction of erasure-coded shards, the
  liveness check and the balancer. The order in which Rust iterates over the hash map of racks is an
  argument (\<open>perm\<close>, any permutation); the iteration order of the state's own maps is the order of
  their association lists.
\<close>

subsection \<open>Rack-aware selection\<close>

type_synonym server = "string \<times> ChunkServerStatus"

definition rack_key :: "server \<Rightarrow> string" where
  "rack_key s = (if rack_id (snd s) = [] then ''__addr__'' @ fst s else rack_id (snd s))"

text \<open>Stable sort by \<open>Reverse(available_space)\<close>.\<close>

definition by_space :: "server list \<Rightarrow> server list" where
  "by_space = sort_key (\<lambda>s. - int (available_space (snd s)))"

definition rack_buckets :: "server list \<Rightarrow> (string, server list) hashmap" where
  "rack_buckets candidates = fold (\<lambda>s. hm_push (rack_key s) s) candidates []"

text \<open>One round over the racks: whether it was left by \<open>break 'outer\<close>, the positions, the selected
  servers, and whether one was picked.\<close>

fun pick_round :: "usize \<Rightarrow> (nat \<times> server list) list \<Rightarrow> nat list \<Rightarrow> string list \<Rightarrow> bool \<Rightarrow>
    bool \<times> nat list \<times> string list \<times> bool" where
  "pick_round n [] rack_positions selected picked = (False, rack_positions, selected, picked)"
| "pick_round n ((rack_idx, rack) # rs) rack_positions selected picked =
     (if n \<le> length selected then (True, rack_positions, selected, picked)
      else let pos = rack_positions ! rack_idx
           in if pos < length rack
              then pick_round n rs (rack_positions[rack_idx := pos + 1]) (selected @ [fst (rack ! pos)]) True
              else pick_round n rs rack_positions selected picked)"

lemma pick_round_grows:
  "pick_round n rs pos sel picked = (b, pos', sel', picked') \<Longrightarrow>
     length sel \<le> length sel' \<and> (picked' \<longrightarrow> \<not> picked \<longrightarrow> length sel < length sel' \<and> length sel < n)"
proof (induction n rs pos sel picked rule: pick_round.induct)
  case (2 n i rack rs pos sel picked)
  then show ?case by (fastforce simp: Let_def split: if_splits)
qed simp

function select_loop :: "usize \<Rightarrow> server list list \<Rightarrow> nat list \<Rightarrow> string list \<Rightarrow> string list" where
  "select_loop n racks rack_positions selected =
     (case pick_round n (enumerate 0 racks) rack_positions selected False of
        (left, rack_positions', selected', picked_this_round) \<Rightarrow>
          if left \<or> \<not> picked_this_round then selected'
          else select_loop n racks rack_positions' selected')"
  by auto
termination
  by (relation "measure (\<lambda>(n, racks, pos, sel). n - length sel)")
    (auto dest!: pick_round_grows [OF sym])

declare select_loop.simps [simp del]

definition sorted_racks :: "((string, server list) hashmap \<Rightarrow> (string, server list) hashmap) \<Rightarrow>
    server list \<Rightarrow> server list list" where
  "sorted_racks perm servers =
     sort_key (\<lambda>a. - int (available_space (snd (a ! 0)))) (hm_values (perm (rack_buckets (by_space servers))))"

definition select_servers_rack_aware ::
    "((string, server list) hashmap \<Rightarrow> (string, server list) hashmap) \<Rightarrow> server list \<Rightarrow> usize \<Rightarrow> string list" where
  "select_servers_rack_aware perm servers n =
     (if n = 0 \<or> servers = [] then []
      else let racks = sorted_racks perm servers
           in select_loop n racks (replicate (length racks) 0) [])"

subsection \<open>The healer\<close>

definition REPLICATION_FACTOR :: usize where
  "REPLICATION_FACTOR = 3"

definition reconstruct_command :: "BlockInfo \<Rightarrow> nat \<Rightarrow> string \<Rightarrow> string list \<Rightarrow> ChunkServerCommand" where
  "reconstruct_command b shard_idx target sources =
     \<lparr>command_type = RECONSTRUCT_EC_SHARD, cmd_block_id = block_id b, target_chunk_server_address = target,
      shard_index = int shard_idx, cmd_ec_data_shards = block_ec_data_shards b,
      cmd_ec_parity_shards = block_ec_parity_shards b, ec_shard_sources = sources,
      original_block_size = original_size b, master_term = 0\<rparr>"

definition replicate_command :: "string \<Rightarrow> string \<Rightarrow> ChunkServerCommand" where
  "replicate_command bid target =
     \<lparr>command_type = REPLICATE, cmd_block_id = bid, target_chunk_server_address = target,
      shard_index = -1, cmd_ec_data_shards = 0, cmd_ec_parity_shards = 0, ec_shard_sources = [],
      original_block_size = 0, master_term = 0\<rparr>"

text \<open>The commands for a block, with the chunk server each is queued for. The loop over the shards stops
  at the first missing one if the block cannot be recovered.\<close>

fun heal_ec_loop :: "MasterState \<Rightarrow> BlockInfo \<Rightarrow> nat \<Rightarrow> (nat \<times> string) list \<Rightarrow> (string \<times> ChunkServerCommand) list" where
  "heal_ec_loop s b live_count [] = []"
| "heal_ec_loop s b live_count ((shard_idx, loc) # rest) =
     (if hm_contains loc (chunk_servers s) then heal_ec_loop s b live_count rest
      else if live_count < nat (block_ec_data_shards b) then []
      else case find (\<lambda>t. t \<notin> set (locations b)) (hm_keys (chunk_servers s)) of
             None \<Rightarrow> heal_ec_loop s b live_count rest
           | Some target \<Rightarrow>
               (target, reconstruct_command b shard_idx target
                  (map (\<lambda>l. if hm_contains l (chunk_servers s) then l else []) (locations b)))
               # heal_ec_loop s b live_count rest)"

definition heal_ec_block :: "MasterState \<Rightarrow> BlockInfo \<Rightarrow> (string \<times> ChunkServerCommand) list" where
  "heal_ec_block s b =
     (let total = nat (block_ec_data_shards b + block_ec_parity_shards b)
      in if length (locations b) \<noteq> total then []
         else let live_count = length (filter (\<lambda>loc. hm_contains loc (chunk_servers s)) (locations b))
              in heal_ec_loop s b live_count (enumerate 0 (locations b)))"

definition live_locs :: "MasterState \<Rightarrow> BlockInfo \<Rightarrow> string list" where
  "live_locs s b =
     (let bad_on = (case hm_get (bad_block_locations s) (block_id b) of Some x \<Rightarrow> x | None \<Rightarrow> [])
      in filter (\<lambda>loc. hm_contains loc (chunk_servers s) \<and> loc \<notin> set bad_on) (locations b))"

definition heal_replicated_block :: "MasterState \<Rightarrow> BlockInfo \<Rightarrow> (string \<times> ChunkServerCommand) list" where
  "heal_replicated_block s b =
     (let needed = REPLICATION_FACTOR - length (live_locs s b)
      in if needed = 0 then []
         else case live_locs s b of
             [] \<Rightarrow> []
           | source # _ \<Rightarrow>
               map (\<lambda>target. (source, replicate_command (block_id b) target))
                 (take needed (filter (\<lambda>t. t \<notin> set (locations b)) (hm_keys (chunk_servers s)))))"

definition heal_block :: "MasterState \<Rightarrow> BlockInfo \<Rightarrow> (string \<times> ChunkServerCommand) list" where
  "heal_block s b = (if 0 < block_ec_data_shards b then heal_ec_block s b else heal_replicated_block s b)"

text \<open>The commands only depend on what the healer does not change, so they are queued at the end.\<close>

definition heal_under_replicated_blocks :: "MasterState \<Rightarrow> MasterState" where
  "heal_under_replicated_blocks s =
     (if chunk_servers s = [] then s
      else s\<lparr>pending_commands :=
               fold (\<lambda>(addr, cmd). hm_push addr cmd)
                 (concat (map (heal_block s) (concat (map blocks (hm_values (files s)))))) (pending_commands s)\<rparr>)"

subsection \<open>Liveness and balance\<close>

definition check_liveness :: "u64 \<Rightarrow> MasterState \<Rightarrow> MasterState" where
  "check_liveness now s =
     (let dead_servers = map fst (filter (\<lambda>(_, status). 15000 < u64_sub now (last_heartbeat status)) (chunk_servers s));
          s = s\<lparr>chunk_servers := fold hm_remove dead_servers (chunk_servers s),
                pending_commands := fold hm_remove dead_servers (pending_commands s)\<rparr>
      in if dead_servers \<noteq> [] then heal_under_replicated_blocks s else s)"

definition default_command :: ChunkServerCommand where
  "default_command =
     \<lparr>command_type = UNKNOWN, cmd_block_id = [], target_chunk_server_address = [], shard_index = 0,
      cmd_ec_data_shards = 0, cmd_ec_parity_shards = 0, ec_shard_sources = [], original_block_size = 0,
      master_term = 0\<rparr>"

definition balance_blocks :: "MasterState \<Rightarrow> MasterState" where
  "balance_blocks s =
     (let servers = map (\<lambda>(addr, status). (addr, available_space status)) (chunk_servers s)
      in if length servers < 2 then s
         else let sorted_servers = sort_key snd servers;
                  (most_full_addr, min_avail) = hd sorted_servers;
                  (least_full_addr, max_avail) = last sorted_servers
              in if min_avail < max_avail \<and> 100 * 1024 * 1024 < max_avail - min_avail
                 then case find (\<lambda>b. most_full_addr \<in> set (locations b) \<and> least_full_addr \<notin> set (locations b))
                             (concat (map blocks (hm_values (files s)))) of
                        Some b \<Rightarrow>
                          s\<lparr>pending_commands := hm_push most_full_addr
                              (default_command\<lparr>command_type := REPLICATE, cmd_block_id := block_id b,
                                 target_chunk_server_address := least_full_addr\<rparr>) (pending_commands s)\<rparr>
                      | None \<Rightarrow> s
                 else s)"

subsection \<open>Lemmas on the selection\<close>

text \<open>A round takes the servers at one position of the racks that are long enough.\<close>

lemma pick_round_spec:
  assumes "length sel \<le> n" "\<And>i. i < length xs \<Longrightarrow> pos ! (j + i) = min r (length (xs ! i))" "j + length xs \<le> length pos"
    and "row = map (\<lambda>rack. fst (rack ! r)) (filter (\<lambda>rack. r < length rack) xs)"
  shows "\<exists>left pos' picked'. pick_round n (enumerate j xs) pos sel picked = (left, pos', take n (sel @ row), picked') \<and>
    (left \<longrightarrow> n \<le> length (sel @ row)) \<and>
    (\<not> left \<longrightarrow> length (sel @ row) \<le> n \<and> (picked' \<longleftrightarrow> picked \<or> row \<noteq> []) \<and> length pos' = length pos \<and>
       (\<forall>i < j. pos' ! i = pos ! i) \<and> (\<forall>i < length xs. pos' ! (j + i) = min (Suc r) (length (xs ! i))))"
  using assms
proof (induction xs arbitrary: j pos sel picked row)
  case Nil
  then show ?case by (auto intro: exI [of _ False])
next
  case (Cons x xs)
  have pos: "pos ! j = min r (length x)" using Cons.prems(2) [of 0] by simp
  have pos': "pos ! (Suc j + i) = min r (length (xs ! i))" if "i < length xs" for i
    using Cons.prems(2) [of "Suc i"] that by simp
  show ?case
  proof (cases "n \<le> length sel")
    case True
    with Cons.prems(1) show ?thesis by (auto intro: exI [of _ True])
  next
    case False
    show ?thesis
    proof (cases "r < length x")
      case True
      define row' where "row' = map (\<lambda>rack. fst (rack ! r)) (filter (\<lambda>rack. r < length rack) xs)"
      have row: "row = fst (x ! r) # row'" using True Cons.prems(4) by (simp add: row'_def)
      define sel' where "sel' = sel @ [fst (x ! r)]"
      have "length sel' \<le> n" "Suc j + length xs \<le> length (pos[j := Suc r])"
        using False Cons.prems(3) by (simp_all add: sel'_def)
      moreover have "pos[j := Suc r] ! (Suc j + i) = min r (length (xs ! i))" if "i < length xs" for i
        using pos' [OF that] by simp
      ultimately obtain left pos'' picked' where
          p: "pick_round n (enumerate (Suc j) xs) (pos[j := Suc r]) sel' True = (left, pos'', take n (sel' @ row'), picked')"
          "left \<longrightarrow> n \<le> length (sel' @ row')"
          "\<not> left \<longrightarrow> length (sel' @ row') \<le> n \<and> picked' \<and> length pos'' = length pos \<and>
             (\<forall>i < Suc j. pos'' ! i = pos[j := Suc r] ! i) \<and>
             (\<forall>i < length xs. pos'' ! (Suc j + i) = min (Suc r) (length (xs ! i)))"
        using Cons.IH [of sel' "pos[j := Suc r]" "Suc j" row' True] row'_def by auto
      have eq: "pick_round n (enumerate j (x # xs)) pos sel picked =
          pick_round n (enumerate (Suc j) xs) (pos[j := Suc r]) sel' True" "sel' @ row' = sel @ row"
        using True False pos row by (simp_all add: sel'_def)
      have "pos'' ! (j + i) = min (Suc r) (length ((x # xs) ! i))" if "\<not> left" "i < length (x # xs)" for i
        using p(3) that True Cons.prems(3) by (cases i) auto
      with p eq row show ?thesis by (intro exI [of _ left] exI [of _ pos''] exI [of _ picked']) auto
    next
      case short: False
      then have row: "row = map (\<lambda>rack. fst (rack ! r)) (filter (\<lambda>rack. r < length rack) xs)"
        using Cons.prems(4) by simp
      then obtain left pos'' picked' where
          p: "pick_round n (enumerate (Suc j) xs) pos sel picked = (left, pos'', take n (sel @ row), picked')"
          "left \<longrightarrow> n \<le> length (sel @ row)"
          "\<not> left \<longrightarrow> length (sel @ row) \<le> n \<and> (picked' \<longleftrightarrow> picked \<or> row \<noteq> []) \<and> length pos'' = length pos \<and>
             (\<forall>i < Suc j. pos'' ! i = pos ! i) \<and>
             (\<forall>i < length xs. pos'' ! (Suc j + i) = min (Suc r) (length (xs ! i)))"
        using Cons.IH [OF Cons.prems(1), of pos "Suc j" row picked] pos' Cons.prems(3) by auto
      have eq: "pick_round n (enumerate j (x # xs)) pos sel picked = pick_round n (enumerate (Suc j) xs) pos sel picked"
        using short False pos by simp
      have "pos'' ! (j + i) = min (Suc r) (length ((x # xs) ! i))" if "\<not> left" "i < length (x # xs)" for i
        using p(3) that short pos by (cases i) auto
      with p eq show ?thesis by (intro exI [of _ left] exI [of _ pos''] exI [of _ picked']) auto
    qed
  qed
qed

lemma transpose_row_empty:
  "filter (\<lambda>ys. r < length ys) xss = [] \<longleftrightarrow> length (transpose xss) \<le> r"
  unfolding length_transpose by (induction xss) auto

lemma select_loop_transpose:
  assumes "length sel \<le> n"
  shows "select_loop n racks (map (\<lambda>rack. min r (length rack)) racks) sel =
    take n (sel @ map fst (concat (drop r (transpose racks))))"
  using assms
proof (induction "n - length sel" arbitrary: sel r rule: less_induct)
  case less
  let ?pos = "map (\<lambda>rack. min r (length rack)) racks"
  define row where "row = map (\<lambda>rack. fst (rack ! r)) (filter (\<lambda>rack. r < length rack) racks)"
  have row: "row = (if r < length (transpose racks) then map fst (transpose racks ! r) else [])"
    using transpose_row_empty [of r racks] by (auto simp: row_def nth_transpose)
  have empty: "row = [] \<longleftrightarrow> length (transpose racks) \<le> r"
    using transpose_row_empty [of r racks] by (simp add: row_def)
  have drop: "map fst (concat (drop r (transpose racks))) =
      row @ map fst (concat (drop (Suc r) (transpose racks)))"
    using row by (auto simp: Cons_nth_drop_Suc [symmetric])
  obtain left pos' picked where p: "pick_round n (enumerate 0 racks) ?pos sel False = (left, pos', take n (sel @ row), picked)"
    "left \<longrightarrow> n \<le> length (sel @ row)"
    "\<not> left \<longrightarrow> length (sel @ row) \<le> n \<and> (picked \<longleftrightarrow> row \<noteq> []) \<and> length pos' = length racks \<and>
      (\<forall>i < length racks. pos' ! i = min (Suc r) (length (racks ! i)))"
    using pick_round_spec [OF less.prems, of racks ?pos 0 r row False] by (auto simp: row_def)
  show ?case
  proof (cases "left \<or> \<not> picked")
    case True
    then show ?thesis
      using p empty by (subst select_loop.simps) (auto simp: drop)
  next
    case False
    then have "pos' = map (\<lambda>rack. min (Suc r) (length rack)) racks" using p(3) by (auto intro: nth_equalityI)
    moreover have "row \<noteq> []" "length (sel @ row) \<le> n" using p(3) False by auto
    moreover from this have "n - length (sel @ row) < n - length sel"
      by (cases row) auto
    ultimately show ?thesis
      using p(1) False less.hyps [of "sel @ row" "Suc r"] by (subst select_loop.simps) (simp add: drop)
  qed
qed

lemma mset_concat_transpose: "mset (concat (transpose xss)) = mset (concat xss)"
proof (induction xss rule: transpose.induct)
  case (3 x xs xss)
  have "mset [h. (h # t) \<leftarrow> xss] + mset (concat [t. (h # t) \<leftarrow> xss]) = mset (concat xss)"
    by (induction xss) (auto split: list.split)
  with 3 show ?case by (simp add: ac_simps)
qed simp_all

lemma mset_concat_cong: "mset xss = mset yss \<Longrightarrow> mset (concat xss) = mset (concat yss)"
  by (metis mset_concat mset_map sum_mset_sum_list)

text \<open>The buckets partition the candidates by rack; none is empty.\<close>

definition bucketed :: "server list \<Rightarrow> (string, server list) hashmap \<Rightarrow> bool" where
  "bucketed xs m \<longleftrightarrow> hm_ok m \<and> mset (concat (hm_values m)) = mset xs \<and>
     (\<forall>(k, b) \<in> set m. b \<noteq> [] \<and> (\<forall>s \<in> set b. rack_key s = k))"

lemma bucketedD:
  assumes "bucketed xs m" "(k, b) \<in> set m"
  shows "b \<noteq> []" "s \<in> set b \<Longrightarrow> rack_key s = k"
  using assms by (auto simp: bucketed_def)

lemma mset_concat_values_update:
  "hm_ok m \<Longrightarrow> mset (concat (hm_values (hm_push k v m))) = add_mset v (mset (concat (hm_values m)))"
  unfolding hm_push_def by (induction m) (auto simp: hm_ok_def hm_values_def split: option.splits)

lemma bucketed_push:
  assumes "bucketed xs m"
  shows "bucketed (s # xs) (hm_push (rack_key s) s m)"
proof -
  have ok: "hm_ok m" using assms by (simp add: bucketed_def)
  have "\<forall>(k, b) \<in> set (hm_push (rack_key s) s m). b \<noteq> [] \<and> (\<forall>t \<in> set b. rack_key t = k)"
    by (auto simp del: split_paired_All split_paired_Ex simp: set_hm_push [OF ok] split: option.splits if_splits
        dest!: map_of_SomeD dest: bucketedD [OF assms])
  with assms ok show ?thesis by (simp add: bucketed_def mset_concat_values_update)
qed

lemma bucketed_fold: "bucketed ys m \<Longrightarrow> bucketed (rev xs @ ys) (fold (\<lambda>s. hm_push (rack_key s) s) xs m)"
proof (induction xs arbitrary: ys m)
  case (Cons x xs)
  from Cons.IH [OF bucketed_push [OF Cons.prems]] show ?case by simp
qed simp

lemma bucketed_mset: "bucketed xs m \<Longrightarrow> mset xs = mset ys \<Longrightarrow> bucketed ys m"
  by (simp add: bucketed_def)

lemma bucketed_perm:
  assumes "bucketed xs m" "mset m' = mset m"
  shows "bucketed xs m'"
proof -
  have "mset (map fst m') = mset (map fst m)" using assms(2) by simp
  then have "distinct (map fst m') = distinct (map fst m)" by (rule mset_eq_imp_distinct_iff)
  moreover have "mset (concat (hm_values m')) = mset (concat (hm_values m))"
    using assms(2) by (intro mset_concat_cong) (simp add: hm_values_def)
  ultimately show ?thesis
    using assms mset_eq_setD [OF assms(2)] by (simp add: bucketed_def hm_ok_def)
qed

lemma rack_buckets_bucketed: "bucketed xs (rack_buckets (by_space xs))"
proof -
  have "bucketed [] []" by (simp add: bucketed_def hm_values_def)
  from bucketed_fold [OF this, of "by_space xs"] show ?thesis
    by (auto simp: rack_buckets_def by_space_def intro: bucketed_mset)
qed

lemma sorted_racks_spec:
  assumes "\<And>m. mset (perm m) = mset m"
  shows "mset (concat (sorted_racks perm xs)) = mset xs"
    "\<forall>b \<in> set (sorted_racks perm xs). b \<noteq> []"
    "distinct (map (rack_key \<circ> hd) (sorted_racks perm xs))"
    "set (map (rack_key \<circ> hd) (sorted_racks perm xs)) = rack_key ` set xs"
proof -
  let ?m = "perm (rack_buckets (by_space xs))"
  have m: "bucketed xs ?m" by (rule bucketed_perm [OF rack_buckets_bucketed assms])
  have ms: "mset (sorted_racks perm xs) = mset (hm_values ?m)" by (simp add: sorted_racks_def)
  then have set: "set (sorted_racks perm xs) = set (hm_values ?m)" by (rule mset_eq_setD)
  have "rack_key (hd b) = k" if "(k, b) \<in> set ?m" for k b
    using bucketedD [OF m that] by simp
  then have keys: "map (rack_key \<circ> hd) (hm_values ?m) = map fst ?m"
    by (auto simp: hm_values_def)
  have "mset (map (rack_key \<circ> hd) (sorted_racks perm xs)) = mset (map fst ?m)"
    using ms by (simp flip: keys)
  moreover have "distinct (map fst ?m)" using m by (simp add: bucketed_def hm_ok_def)
  ultimately have k: "distinct (map (rack_key \<circ> hd) (sorted_racks perm xs))"
      "set (map (rack_key \<circ> hd) (sorted_racks perm xs)) = set (map fst ?m)"
    by (metis mset_eq_imp_distinct_iff, metis mset_eq_setD)
  have c: "mset (concat (sorted_racks perm xs)) = mset xs"
    using m mset_concat_cong [OF ms] by (simp add: bucketed_def)
  have b: "\<forall>b \<in> set (sorted_racks perm xs). b \<noteq> []"
    using m by (auto simp: set bucketed_def hm_values_def)
  have xs: "set xs = (\<Union>b \<in> set (hm_values ?m). set b)"
    using mset_eq_setD [of "concat (hm_values ?m)" xs] m by (simp add: bucketed_def)
  have "rack_key ` set b = {k}" if "(k, b) \<in> set ?m" for k b
    using bucketedD [OF m that] by (metis image_cong image_constant_conv set_empty)
  then have "(\<Union>(k, b) \<in> set ?m. rack_key ` set b) = (\<Union>(k, b) \<in> set ?m. {k})" by (intro SUP_cong) auto
  then have "rack_key ` set xs = set (map fst ?m)"
    unfolding xs hm_values_def by (auto simp: image_UN image_iff split_beta)
  with k c b show "mset (concat (sorted_racks perm xs)) = mset xs"
    "\<forall>b \<in> set (sorted_racks perm xs). b \<noteq> []"
    "distinct (map (rack_key \<circ> hd) (sorted_racks perm xs))"
    "set (map (rack_key \<circ> hd) (sorted_racks perm xs)) = rack_key ` set xs" by simp_all
qed

lemma select_servers_transpose:
  assumes "\<And>m. mset (perm m) = mset m"
  shows "select_servers_rack_aware perm servers n = take n (map fst (concat (transpose (sorted_racks perm servers))))"
proof (cases "n = 0 \<or> servers = []")
  case True
  then show ?thesis
    using sorted_racks_spec(1) [OF assms, of servers] mset_concat_transpose [of "sorted_racks perm servers"]
    by (auto simp: select_servers_rack_aware_def)
next
  case False
  have "replicate (length (sorted_racks perm servers)) 0 = map (\<lambda>rack. min 0 (length rack)) (sorted_racks perm servers)"
    by (simp add: map_replicate_const)
  with False select_loop_transpose [of "[]" n "sorted_racks perm servers" 0] show ?thesis
    by (simp add: select_servers_rack_aware_def Let_def)
qed

text \<open>The first server of every rack comes before the second of any.\<close>

lemma transpose_heads:
  assumes "\<forall>b \<in> set xss. b \<noteq> []" "xss \<noteq> []"
  shows "concat (transpose xss) = map hd xss @ concat (drop 1 (transpose xss))"
proof -
  have "\<not> length (transpose xss) \<le> 0"
    using transpose_row_empty [of 0 xss] assms by (cases xss) auto
  then have "transpose xss = transpose xss ! 0 # drop 1 (transpose xss)"
    by (cases "transpose xss") auto
  moreover have "transpose xss ! 0 = map hd xss"
    using assms \<open>\<not> length (transpose xss) \<le> 0\<close> by (subst nth_transpose) (auto simp: hd_conv_nth)
  ultimately show ?thesis by (metis concat.simps(2))
qed

lemma take_heads_racks:
  assumes "\<And>m. mset (perm m) = mset m"
  shows "card (rack_key ` set (take n (concat (transpose (sorted_racks perm xs))))) = min n (card (rack_key ` set xs))"
proof -
  let ?racks = "sorted_racks perm xs" and ?rest = "drop 1 (transpose (sorted_racks perm xs))"
  note racks = sorted_racks_spec [OF assms, of xs]
  have size: "card (rack_key ` set xs) = length ?racks"
    using distinct_card [OF racks(3)] racks(4) by simp
  have ct: "concat (transpose ?racks) = map hd ?racks @ concat ?rest"
    using transpose_heads [OF racks(2)] by (cases "?racks = []") auto
  have sub: "set (concat (transpose ?racks)) = set xs"
    using mset_eq_setD [OF trans [OF mset_concat_transpose racks(1)]] .
  show ?thesis
  proof (cases "n \<le> length ?racks")
    case True
    then have "rack_key ` set (take n (concat (transpose ?racks))) = set (take n (map (rack_key \<circ> hd) ?racks))"
      by (simp add: ct take_map image_image)
    also have "card \<dots> = n" using True racks(3) by (subst distinct_card) auto
    finally show ?thesis using True size by simp
  next
    case False
    then have "set (map hd ?racks) \<subseteq> set (take n (concat (transpose ?racks)))" by (simp add: ct)
    then have "rack_key ` set xs \<subseteq> rack_key ` set (take n (concat (transpose ?racks)))"
      using racks(4) by (metis image_mono list.set_map map_map)
    moreover have "set (take n (concat (transpose ?racks))) \<subseteq> set xs" using set_take_subset sub by fastforce
    ultimately have "rack_key ` set (take n (concat (transpose ?racks))) = rack_key ` set xs" by blast
    then show ?thesis using False size by simp
  qed
qed

subsection \<open>What the selection promises\<close>

text \<open>The rack of a server in a list of candidates; a server without a rack is a rack of its own.\<close>

definition rack_of :: "server list \<Rightarrow> string \<Rightarrow> string" where
  "rack_of servers addr = rack_key (addr, the (map_of servers addr))"

text \<open>C20. Replicas are spread over racks: from candidates with different addresses, in whatever order the
  hash map of racks is iterated, the selection names as many different candidates as were asked for, or all
  of them if there are fewer, and they lie on as many different racks as possible.\<close>

theorem rack_aware_selection:
  assumes "distinct (map fst servers)" "\<And>m. mset (perm m) = mset m"
  shows "distinct (select_servers_rack_aware perm servers n) \<and>
    set (select_servers_rack_aware perm servers n) \<subseteq> fst ` set servers \<and>
    length (select_servers_rack_aware perm servers n) = min n (length servers) \<and>
    card (rack_of servers ` set (select_servers_rack_aware perm servers n)) = min n (card (rack_key ` set servers))"
proof (intro conjI)
  define ys where "ys = take n (concat (transpose (sorted_racks perm servers)))"
  have sel: "select_servers_rack_aware perm servers n = map fst ys"
    by (simp add: select_servers_transpose [OF assms(2)] ys_def take_map)
  have ms: "mset (concat (transpose (sorted_racks perm servers))) = mset servers"
    using trans [OF mset_concat_transpose sorted_racks_spec(1) [OF assms(2)]] .
  then have set: "set (concat (transpose (sorted_racks perm servers))) = set servers" by (rule mset_eq_setD)
  have "mset (map fst (concat (transpose (sorted_racks perm servers)))) = mset (map fst servers)" using ms by simp
  then have "distinct (map fst (concat (transpose (sorted_racks perm servers))))"
    using assms(1) mset_eq_imp_distinct_iff by blast
  then show "distinct (select_servers_rack_aware perm servers n)"
    by (simp add: sel ys_def take_map [symmetric] distinct_take)
  have sub: "set ys \<subseteq> set servers" using set set_take_subset unfolding ys_def by fast
  then show "set (select_servers_rack_aware perm servers n) \<subseteq> fst ` set servers" by (auto simp: sel)
  show "length (select_servers_rack_aware perm servers n) = min n (length servers)"
    using mset_eq_length [OF ms] by (simp add: sel ys_def)
  have "rack_of servers (fst y) = rack_key y" if "y \<in> set ys" for y
    using subsetD [OF sub that] assms(1) by (simp add: rack_of_def map_of_is_SomeI [of _ "fst y" "snd y"])
  then have "rack_of servers ` set (map fst ys) = rack_key ` set ys" by (auto simp: image_image)
  then show "card (rack_of servers ` set (select_servers_rack_aware perm servers n)) =
      min n (card (rack_key ` set servers))"
    using take_heads_racks [OF assms(2)] by (simp add: sel ys_def)
qed

subsection \<open>What the healer promises\<close>

definition pending_for :: "(string, 'c list) hashmap \<Rightarrow> string \<Rightarrow> 'c list" where
  "pending_for m a = (case hm_get m a of Some q \<Rightarrow> q | None \<Rightarrow> [])"

definition block_list :: "MasterState \<Rightarrow> BlockInfo list" where
  "block_list s = concat (map blocks (hm_values (files s)))"

lemma pending_for_push [simp]:
  "pending_for (hm_push a c m) x = pending_for m x @ (if x = a then [c] else [])"
  by (simp add: pending_for_def hm_push_def)

lemma pending_for_fold_push:
  "pending_for (fold (\<lambda>(a, c). hm_push a c) xs m) x = pending_for m x @ map snd (filter (\<lambda>p. fst p = x) xs)"
  by (induction xs arbitrary: m) auto

lemma healer_queue:
  "pending_for (pending_commands (heal_under_replicated_blocks s)) a = pending_for (pending_commands s) a @
     (if chunk_servers s = [] then []
      else map snd (filter (\<lambda>p. fst p = a) (concat (map (heal_block s) (block_list s)))))"
  by (simp add: heal_under_replicated_blocks_def pending_for_fold_push block_list_def)

lemma queued_by_healer:
  assumes "b \<in> set (block_list s)" "(a, cmd) \<in> set (heal_block s b)" "chunk_servers s \<noteq> []"
  shows "cmd \<in> set (pending_for (pending_commands (heal_under_replicated_blocks s)) a)"
proof -
  have "(a, cmd) \<in> set (filter (\<lambda>p. fst p = a) (concat (map (heal_block s) (block_list s))))"
    using assms(1,2) by auto
  then have "cmd \<in> set (map snd (filter (\<lambda>p. fst p = a) (concat (map (heal_block s) (block_list s)))))"
    by (simp only: set_map) force
  with assms(3) show ?thesis by (simp only: healer_queue if_False set_append) blast
qed

text \<open>What makes a command of the healer for the block \<open>b\<close>, queued for the server \<open>a\<close>, sound.\<close>

definition replicate_sound :: "MasterState \<Rightarrow> BlockInfo \<Rightarrow> string \<Rightarrow> ChunkServerCommand \<Rightarrow> bool" where
  "replicate_sound s b a cmd \<longleftrightarrow> command_type cmd = REPLICATE \<and> cmd_block_id cmd = block_id b \<and>
     a \<in> set (live_locs s b) \<and> length (live_locs s b) < REPLICATION_FACTOR \<and>
     hm_contains (target_chunk_server_address cmd) (chunk_servers s) \<and>
     target_chunk_server_address cmd \<notin> set (locations b)"

definition reconstruct_sound :: "MasterState \<Rightarrow> BlockInfo \<Rightarrow> string \<Rightarrow> ChunkServerCommand \<Rightarrow> bool" where
  "reconstruct_sound s b a cmd \<longleftrightarrow> command_type cmd = RECONSTRUCT_EC_SHARD \<and> cmd_block_id cmd = block_id b \<and>
     target_chunk_server_address cmd = a \<and> hm_contains a (chunk_servers s) \<and> a \<notin> set (locations b) \<and>
     0 \<le> shard_index cmd \<and> nat (shard_index cmd) < length (locations b) \<and>
     \<not> hm_contains (locations b ! nat (shard_index cmd)) (chunk_servers s) \<and>
     length (ec_shard_sources cmd) = length (locations b) \<and>
     (\<forall>i < length (locations b). ec_shard_sources cmd ! i =
        (if hm_contains (locations b ! i) (chunk_servers s) then locations b ! i else [])) \<and>
     nat (block_ec_data_shards b) \<le> length (filter (\<lambda>loc. hm_contains loc (chunk_servers s)) (locations b))"

lemma heal_replicated_block_sound:
  "(a, cmd) \<in> set (heal_replicated_block s b) \<Longrightarrow> replicate_sound s b a cmd"
  by (auto simp: heal_replicated_block_def replicate_sound_def replicate_command_def split: list.splits if_splits
      dest!: in_set_takeD)

lemma heal_ec_loop_mem:
  "p \<in> set (heal_ec_loop s b n xs) \<longleftrightarrow>
     nat (block_ec_data_shards b) \<le> n \<and>
     (\<exists>(i, loc) \<in> set xs. \<exists>t. \<not> hm_contains loc (chunk_servers s) \<and>
        find (\<lambda>t. t \<notin> set (locations b)) (hm_keys (chunk_servers s)) = Some t \<and>
        p = (t, reconstruct_command b i t
               (map (\<lambda>l. if hm_contains l (chunk_servers s) then l else []) (locations b))))"
  by (induction s b n xs rule: heal_ec_loop.induct) (auto split: option.splits)

lemma heal_ec_block_mem:
  "p \<in> set (heal_ec_block s b) \<longleftrightarrow>
     length (locations b) = nat (block_ec_data_shards b + block_ec_parity_shards b) \<and>
     nat (block_ec_data_shards b) \<le> length (filter (\<lambda>loc. hm_contains loc (chunk_servers s)) (locations b)) \<and>
     (\<exists>i < length (locations b). \<exists>t. \<not> hm_contains (locations b ! i) (chunk_servers s) \<and>
        find (\<lambda>t. t \<notin> set (locations b)) (hm_keys (chunk_servers s)) = Some t \<and>
        p = (t, reconstruct_command b i t
               (map (\<lambda>l. if hm_contains l (chunk_servers s) then l else []) (locations b))))"
  by (auto simp: heal_ec_block_def heal_ec_loop_mem in_set_enumerate_eq simp del: hm_contains_iff)

lemma heal_ec_block_sound: "(a, cmd) \<in> set (heal_ec_block s b) \<Longrightarrow> reconstruct_sound s b a cmd"
  by (auto simp: heal_ec_block_mem reconstruct_sound_def reconstruct_command_def find_Some_iff)


text \<open>The servers a block is to be copied to, over all queues.\<close>

definition scheduled_targets :: "MasterState \<Rightarrow> string \<Rightarrow> string set" where
  "scheduled_targets s bid = {target_chunk_server_address cmd |a cmd.
     cmd \<in> set (pending_for (pending_commands s) a) \<and> command_type cmd = REPLICATE \<and> cmd_block_id cmd = bid}"

lemma scheduled_by_healer:
  assumes "b \<in> set (block_list s)" "\<not> 0 < block_ec_data_shards b" "live_locs s b = source # rest"
    "t \<in> set (take (REPLICATION_FACTOR - length (live_locs s b)) (filter (\<lambda>t. t \<notin> set (locations b)) (hm_keys (chunk_servers s))))"
  shows "t \<in> scheduled_targets (heal_under_replicated_blocks s) (block_id b)"
proof -
  have "0 < REPLICATION_FACTOR - length (live_locs s b)" using assms(4) by (cases "REPLICATION_FACTOR - length (live_locs s b)") auto
  then have "(source, replicate_command (block_id b) t) \<in> set (heal_block s b)"
    using assms(2-4) by (auto simp: heal_block_def heal_replicated_block_def)
  moreover have "chunk_servers s \<noteq> []" using assms(4) by (auto simp: hm_keys_def)
  ultimately have "replicate_command (block_id b) t \<in> set (pending_for (pending_commands (heal_under_replicated_blocks s)) source)"
    using queued_by_healer [OF assms(1)] by blast
  then show ?thesis by (force simp: scheduled_targets_def replicate_command_def)
qed

lemma card_append_take:
  assumes "distinct xs" "distinct ys" "set xs \<inter> set ys = {}"
  shows "card (set xs \<union> set (take k ys)) = length xs + min k (length ys)"
proof -
  have "distinct (xs @ take k ys)"
    using assms set_take_subset [of k ys] by (simp only: distinct_append distinct_take) blast
  from distinct_card [OF this] show ?thesis by (simp add: min.commute)
qed


text \<open>C23. Lost shards are rebuilt: for an erasure-coded block with as many locations as shards, of which enough
  to decode are on live servers, and a live server without a shard, the healer queues a reconstruction of
  every shard whose server is dead. All of them go to the same server.\<close>

theorem healer_rebuilds_shards:
  assumes "b \<in> set (block_list s)" "0 < block_ec_data_shards b" "i < length (locations b)"
    and "length (locations b) = nat (block_ec_data_shards b + block_ec_parity_shards b)"
    and "nat (block_ec_data_shards b) \<le> length (filter (\<lambda>loc. hm_contains loc (chunk_servers s)) (locations b))"
    and "\<not> hm_contains (locations b ! i) (chunk_servers s)"
    and "find (\<lambda>t. t \<notin> set (locations b)) (hm_keys (chunk_servers s)) = Some target"
  shows "\<exists>cmd \<in> set (pending_for (pending_commands (heal_under_replicated_blocks s)) target).
    command_type cmd = RECONSTRUCT_EC_SHARD \<and> cmd_block_id cmd = block_id b \<and> shard_index cmd = int i"
proof -
  let ?cmd = "reconstruct_command b i target
    (map (\<lambda>l. if hm_contains l (chunk_servers s) then l else []) (locations b))"
  have "(target, ?cmd) \<in> set (heal_block s b)"
    unfolding heal_block_def if_P [OF assms(2)] heal_ec_block_mem using assms(3-7) by blast
  moreover have "chunk_servers s \<noteq> []" using assms(7) by (auto simp: hm_keys_def)
  ultimately have "?cmd \<in> set (pending_for (pending_commands (heal_under_replicated_blocks s)) target)"
    using queued_by_healer [OF assms(1)] by blast
  then show ?thesis by (rule rev_bexI) (simp add: reconstruct_command_def)
qed

subsection \<open>Liveness and balance\<close>

lemma healer_queues_live:
  assumes "\<not> hm_contains a (chunk_servers s)"
  shows "pending_for (pending_commands (heal_under_replicated_blocks s)) a = pending_for (pending_commands s) a"
proof -
  have "(a, cmd) \<notin> set (heal_block s b)" for b cmd
    using assms heal_replicated_block_sound [of a cmd s b] heal_ec_block_sound [of a cmd s b]
    by (auto simp: heal_block_def replicate_sound_def reconstruct_sound_def live_locs_def Let_def)
  then have "filter (\<lambda>p. fst p = a) (concat (map (heal_block s) (block_list s))) = []"
    by (auto simp: filter_empty_conv)
  then show ?thesis by (simp add: healer_queue)
qed

definition silent_servers :: "u64 \<Rightarrow> MasterState \<Rightarrow> string list" where
  "silent_servers now s =
     map fst (filter (\<lambda>(_, status). 15000 < u64_sub now (last_heartbeat status)) (chunk_servers s))"

lemma silent_servers_iff:
  assumes "hm_ok (chunk_servers s)"
  shows "a \<in> set (silent_servers now s) \<longleftrightarrow>
    (\<exists>st. hm_get (chunk_servers s) a = Some st \<and> 15000 < u64_sub now (last_heartbeat st))"
  unfolding silent_servers_def hm_ok_mem [OF assms, symmetric] by (auto simp: image_iff split_beta)

lemma check_liveness_servers:
  "chunk_servers (check_liveness now s) = fold hm_remove (silent_servers now s) (chunk_servers s)"
  by (simp add: check_liveness_def Let_def heal_under_replicated_blocks_def silent_servers_def)

lemma check_liveness_queue:
  assumes "a \<in> set (silent_servers now s)"
  shows "pending_for (pending_commands (check_liveness now s)) a = []"
proof -
  let ?s = "s\<lparr>chunk_servers := fold hm_remove (silent_servers now s) (chunk_servers s),
    pending_commands := fold hm_remove (silent_servers now s) (pending_commands s)\<rparr>"
  have "check_liveness now s = heal_under_replicated_blocks ?s"
    using assms unfolding check_liveness_def silent_servers_def [symmetric] Let_def by auto
  moreover have "\<not> hm_contains a (chunk_servers ?s)" "hm_get (pending_commands ?s) a = None"
    using assms by (simp_all add: hm_contains_def hm_get_fold_remove del: hm_contains_iff)
  ultimately show ?thesis using healer_queues_live [of a ?s] by (simp add: pending_for_def)
qed

text \<open>C24. The liveness check removes exactly the servers that have not sent a heartbeat for 15 seconds, with
  their queues, and keeps the others as they are, when no heartbeat is stamped later than the clock.\<close>

theorem check_liveness_removes_silent:
  assumes "hm_ok (chunk_servers s)" "\<And>a st. hm_get (chunk_servers s) a = Some st \<Longrightarrow> last_heartbeat st \<le> now"
  shows "hm_get (chunk_servers (check_liveness now s)) a =
      (case hm_get (chunk_servers s) a of
         Some st \<Rightarrow> if now \<le> last_heartbeat st + 15000 then Some st else None
       | None \<Rightarrow> None) \<and>
    (hm_contains a (chunk_servers s) \<longrightarrow> \<not> hm_contains a (chunk_servers (check_liveness now s)) \<longrightarrow>
       pending_for (pending_commands (check_liveness now s)) a = [])"
proof -
  have dead: "a \<in> set (silent_servers now s) \<longleftrightarrow>
      (\<exists>st. hm_get (chunk_servers s) a = Some st \<and> last_heartbeat st + 15000 < now)"
    unfolding silent_servers_iff [OF assms(1)] using assms(2) by (auto simp: u64_sub_def)
  then have get: "hm_get (chunk_servers (check_liveness now s)) a = (case hm_get (chunk_servers s) a of
         Some st \<Rightarrow> if now \<le> last_heartbeat st + 15000 then Some st else None
       | None \<Rightarrow> None)"
    by (auto simp: check_liveness_servers hm_get_fold_remove split: option.split)
  have "pending_for (pending_commands (check_liveness now s)) a = []" if "a \<in> set (silent_servers now s)"
    by (rule check_liveness_queue [OF that])
  with get dead show ?thesis by (auto simp: hm_contains_def simp del: hm_contains_iff split: option.splits if_splits)
qed

lemma sort_key_bounds:
  assumes "x \<in> set xs"
  shows "f (hd (sort_key f xs)) \<le> f x" "f x \<le> f (last (sort_key f xs))"
proof -
  have s: "sorted (map f (sort_key f xs))" and x: "f x \<in> set (map f (sort_key f xs))" using assms by auto
  have ne: "sort_key f xs \<noteq> []" using assms by (metis empty_iff empty_set set_sort)
  from s x ne show "f (hd (sort_key f xs)) \<le> f x" by (cases "sort_key f xs") auto
  from s x ne show "f x \<le> f (last (sort_key f xs))"
    by (cases "sort_key f xs" rule: rev_cases) (auto simp: sorted_append)
qed

text \<open>C25. The balancer asks for at most one copy per run, and only of a block that the fullest server holds
  and the emptiest one does not, between live servers whose free space differs by more than 100 MiB: the
  command is queued for the fullest server, every other queue is untouched.\<close>

theorem balancer_command:
  assumes "balance_blocks s \<noteq> s"
  shows "\<exists>a target b st st'. (a, st) \<in> set (chunk_servers s) \<and> (target, st') \<in> set (chunk_servers s) \<and>
    (\<forall>(x, st'') \<in> set (chunk_servers s). available_space st \<le> available_space st'' \<and>
       available_space st'' \<le> available_space st') \<and>
    available_space st + 100 * 1024 * 1024 < available_space st' \<and>
    b \<in> set (block_list s) \<and> a \<in> set (locations b) \<and> target \<notin> set (locations b) \<and>
    balance_blocks s = s\<lparr>pending_commands := hm_push a
      (default_command\<lparr>command_type := REPLICATE, cmd_block_id := block_id b, target_chunk_server_address := target\<rparr>)
      (pending_commands s)\<rparr>"
proof -
  define servers where "servers = map (\<lambda>(addr, status). (addr, available_space status)) (chunk_servers s)"
  let ?sorted = "sort_key snd servers"
  obtain a m where a: "hd ?sorted = (a, m)" by fastforce
  obtain target m' where t: "last ?sorted = (target, m')" by fastforce
  have len: "\<not> length servers < 2" and gap: "m < m'" "100 * 1024 * 1024 < m' - m"
    using assms a t by (auto simp: balance_blocks_def servers_def Let_def split: if_splits)
  have bal: "balance_blocks s = (case find (\<lambda>b. a \<in> set (locations b) \<and> target \<notin> set (locations b)) (block_list s) of
      Some b \<Rightarrow> s\<lparr>pending_commands := hm_push a
        (default_command\<lparr>command_type := REPLICATE, cmd_block_id := block_id b, target_chunk_server_address := target\<rparr>)
        (pending_commands s)\<rparr> | None \<Rightarrow> s)"
    using len gap a t by (simp add: balance_blocks_def servers_def [symmetric] Let_def block_list_def)
  then obtain b where b: "find (\<lambda>b. a \<in> set (locations b) \<and> target \<notin> set (locations b)) (block_list s) = Some b"
    using assms by (auto split: option.splits)
  have "?sorted \<noteq> []" using len by (metis length_0_conv length_sort zero_less_numeral)
  then have bounds: "(a, m) \<in> set servers" "(target, m') \<in> set servers" "\<forall>p \<in> set servers. m \<le> snd p \<and> snd p \<le> m'"
    using sort_key_bounds [where f = snd and xs = servers] a t hd_in_set [of ?sorted] last_in_set [of ?sorted] by auto
  then obtain st st' where "(a, st) \<in> set (chunk_servers s)" "available_space st = m"
      "(target, st') \<in> set (chunk_servers s)" "available_space st' = m'"
    by (auto simp: servers_def)
  moreover have "\<forall>(x, st'') \<in> set (chunk_servers s). m \<le> available_space st'' \<and> available_space st'' \<le> m'"
    using bounds(3) by (fastforce simp: servers_def)
  moreover have "b \<in> set (block_list s)" "a \<in> set (locations b)" "target \<notin> set (locations b)"
    using b by (auto simp: find_Some_iff)
  moreover have "m + 100 * 1024 * 1024 < m'" using gap by simp
  ultimately show ?thesis
    using bal unfolding b option.case(2) by (intro exI [of _ a] exI [of _ target] exI [of _ b] exI [of _ st] exI [of _ st']) simp
qed

subsection \<open>Witnesses\<close>

text \<open>Four servers on two racks, one of them without a rack; one replicated block with a lost replica.\<close>

definition example_server :: "string \<Rightarrow> u64 \<Rightarrow> u64 \<Rightarrow> string \<Rightarrow> server" where
  "example_server addr beat space rack =
     (addr, \<lparr>last_heartbeat = beat, used_space = 0, available_space = space, chunk_count = 1, rack_id = rack\<rparr>)"

definition example_servers :: "server list" where
  "example_servers = [example_server ''cs1'' 20000 10 ''r1'', example_server ''cs2'' 20000 400000000 ''r1'',
     example_server ''cs3'' 1000 30 ''r2'', example_server ''cs4'' 20000 40 []]"

definition example_block :: "string list \<Rightarrow> i32 \<Rightarrow> i32 \<Rightarrow> BlockInfo" where
  "example_block locs k m = \<lparr>block_id = ''b'', block_size = 8, locations = locs, checksum_crc32c = 0,
     block_ec_data_shards = k, block_ec_parity_shards = m, original_size = 0\<rparr>"

definition example_placement :: "BlockInfo \<Rightarrow> MasterState" where
  "example_placement b = init_master\<lparr>chunk_servers := example_servers,
     files := [(''/a'', (empty_file ''/a'' 0 0)\<lparr>blocks := [b]\<rparr>)]\<rparr>"

lemmas placement_example_defs = example_placement_def example_servers_def example_server_def example_block_def
  init_master_def empty_file_def block_list_def hm_values_def hm_keys_def live_locs_def

theorem rack_aware_selection_witness:
  "card (rack_of example_servers ` set (select_servers_rack_aware id example_servers 3)) = 3 \<and>
   distinct (select_servers_rack_aware id example_servers 3)"
proof -
  have d: "distinct (map fst example_servers)" by (simp add: example_servers_def example_server_def)
  have r: "rack_key ` set example_servers = {''r1'', ''r2'', ''__addr__cs4''}"
    by (auto simp: example_servers_def example_server_def rack_key_def)
  from rack_aware_selection [OF d, of id 3] r show ?thesis by simp
qed



theorem healer_rebuilds_shards_witness:
  "\<exists>cmd \<in> set (pending_for (pending_commands (heal_under_replicated_blocks
      (example_placement (example_block [''cs1'', ''gone''] 1 1)))) ''cs2'').
     command_type cmd = RECONSTRUCT_EC_SHARD \<and> cmd_block_id cmd = ''b'' \<and> shard_index cmd = 1"
proof -
  let ?b = "example_block [''cs1'', ''gone''] 1 1"
  let ?s = "example_placement ?b"
  have e: "?b \<in> set (block_list ?s)" "0 < block_ec_data_shards ?b" "1 < length (locations ?b)"
      "length (locations ?b) = nat (block_ec_data_shards ?b + block_ec_parity_shards ?b)"
      "nat (block_ec_data_shards ?b) \<le> length (filter (\<lambda>loc. hm_contains loc (chunk_servers ?s)) (locations ?b))"
      "\<not> hm_contains (locations ?b ! 1) (chunk_servers ?s)"
      "find (\<lambda>t. t \<notin> set (locations ?b)) (hm_keys (chunk_servers ?s)) = Some ''cs2''" "block_id ?b = ''b''"
    by (simp_all add: placement_example_defs)
  from healer_rebuilds_shards [OF e(1-7)] show ?thesis by (simp add: e(8))
qed

theorem check_liveness_removes_silent_witness:
  "hm_get (chunk_servers (check_liveness 21000 (example_placement (example_block [''cs3''] 0 0)))) ''cs3'' = None \<and>
   pending_for (pending_commands (check_liveness 21000 (example_placement (example_block [''cs3''] 0 0)))) ''cs3'' = []"
proof -
  let ?s = "example_placement (example_block [''cs3''] 0 0)"
  have "hm_ok (chunk_servers ?s)" by (simp add: placement_example_defs hm_ok_def)
  moreover have "last_heartbeat st \<le> 21000" if "hm_get (chunk_servers ?s) a = Some st" for a st
    using that by (auto simp: placement_example_defs split: if_splits)
  moreover have "map_option last_heartbeat (hm_get (chunk_servers ?s) ''cs3'') = Some 1000"
    by (simp add: placement_example_defs)
  ultimately show ?thesis
    using check_liveness_removes_silent [of ?s 21000 "''cs3''"]
    by (auto simp: hm_contains_def simp del: hm_contains_iff split: option.splits)
qed

theorem balancer_command_witness:
  "\<exists>a target. target \<noteq> a \<and> pending_commands (balance_blocks (example_placement (example_block [''cs1''] 0 0))) =
     hm_push a (default_command\<lparr>command_type := REPLICATE, cmd_block_id := ''b'', target_chunk_server_address := target\<rparr>) []"
proof -
  let ?s = "example_placement (example_block [''cs1''] 0 0)"
  have "pending_commands (balance_blocks ?s) \<noteq> pending_commands ?s"
    by (simp add: balance_blocks_def placement_example_defs hm_push_def)
  then have "balance_blocks ?s \<noteq> ?s" by auto
  from balancer_command [OF this] obtain a target b where b: "b \<in> set (block_list ?s)"
      "a \<in> set (locations b)" "target \<notin> set (locations b)"
      "balance_blocks ?s = ?s\<lparr>pending_commands := hm_push a
        (default_command\<lparr>command_type := REPLICATE, cmd_block_id := block_id b, target_chunk_server_address := target\<rparr>)
        (pending_commands ?s)\<rparr>"
    by blast
  have "pending_commands ?s = []" "block_id b = ''b''" using b(1) by (auto simp: placement_example_defs)
  with b(2-4) show ?thesis by (intro exI [of _ a] exI [of _ target]) auto
qed

end
