(* ===== verification/Checker.thy ===== *)
theory Checker
  imports Prelude
begin

section \<open>The linearizability checker (dfs/client/src/checker.rs)\<close>

text \<open>
  The offline checker of recorded histories: pairing invocations with returns, the check of keys that no
  rename touches, the backtracking search over the operations that renames link, and the diagnosis of a
  rejected history. Violations are values of a datatype in place of the printed messages. The order in which
  Rust iterates over the hash map of keys is an argument (\<open>perm\<close>). \<open>History\<close> holds what the checker
  decides.
\<close>

subsection \<open>Data types\<close>

record HistoryEntry =
  entry_id :: u64
  entry_client :: string
  entry_type :: string
  entry_op :: string
  entry_path :: string
  entry_src :: string
  entry_dst :: string
  entry_data_hash :: string
  entry_result :: string
  ts_ns :: u64

datatype OpType = Put string string | Get string | Delete string | Rename string string

datatype OpResult = Ok | NotFound | Error | PutOk string | GetOk string | Unknown

record Operation =
  op_id :: u64
  client :: string
  op_type :: OpType
  invoke_ts :: u64
  return_ts :: u64
  op_result :: OpResult

subsection \<open>Parsing a history\<close>

datatype ParseError = LineError nat string | NoInvoke u64 | UnknownEntryType string nat | UnknownOp string

definition parse_op_type :: "HistoryEntry \<Rightarrow> ParseError + OpType" where
  "parse_op_type e =
     (if entry_op e = ''put'' then Inr (Put (entry_path e) (entry_data_hash e))
      else if entry_op e = ''get'' then Inr (Get (entry_path e))
      else if entry_op e = ''delete'' then Inr (Delete (entry_path e))
      else if entry_op e = ''rename'' then Inr (Rename (entry_src e) (entry_dst e))
      else Inl (UnknownOp (entry_op e)))"

definition parse_result :: "HistoryEntry \<Rightarrow> OpResult" where
  "parse_result e =
     (let s = entry_result e
      in if s = ''ok'' then Ok
         else if s = ''not_found'' then NotFound
         else if s = ''error'' then Error
         else if starts_with s ''put_ok:'' then PutOk (drop 7 s)
         else if starts_with s ''get_ok:'' then GetOk (drop 7 s)
         else Unknown)"

text \<open>\<open>str::trim\<close> on ASCII white space.\<close>

definition is_space :: "char \<Rightarrow> bool" where
  "is_space c = (of_char c = (32 :: nat) \<or> (9 \<le> (of_char c :: nat) \<and> of_char c \<le> (13 :: nat)))"

definition trim :: "string \<Rightarrow> string" where
  "trim s = rev (dropWhile is_space (rev (dropWhile is_space s)))"

text \<open>The effect of one entry on the open invocations and the paired operations.\<close>

definition parse_entry :: "nat \<Rightarrow> HistoryEntry \<Rightarrow> (u64, HistoryEntry) hashmap \<Rightarrow> (u64, Operation) btreemap \<Rightarrow>
    ParseError + (u64, HistoryEntry) hashmap \<times> (u64, Operation) btreemap" where
  "parse_entry line_no e invokes ops =
     (if entry_type e = ''invoke'' then Inr (hm_insert (entry_id e) e invokes, ops)
      else if entry_type e = ''return''
      then case hm_get invokes (entry_id e) of
             Some call \<Rightarrow>
               (case parse_op_type call of
                  Inl err \<Rightarrow> Inl err
                | Inr t \<Rightarrow>
                    Inr (hm_remove (entry_id e) invokes,
                      bt_insert (entry_id call)
                        \<lparr>op_id = entry_id call, client = entry_client call, op_type = t, invoke_ts = ts_ns call,
                         return_ts = ts_ns e, op_result = parse_result e\<rparr> ops))
           | None \<Rightarrow> Inl (NoInvoke (entry_id e))
      else Inl (UnknownEntryType (entry_type e) (line_no + 1)))"

text \<open>A line is what the reader returns: the text, or an I/O error. \<open>from_str\<close> is the JSON parser.\<close>

fun parse_lines :: "(string \<Rightarrow> string + HistoryEntry) \<Rightarrow> nat \<Rightarrow> (string + string) list \<Rightarrow>
    (u64, HistoryEntry) hashmap \<Rightarrow> (u64, Operation) btreemap \<Rightarrow>
    ParseError + (u64, HistoryEntry) hashmap \<times> (u64, Operation) btreemap" where
  "parse_lines from_str line_no [] invokes ops = Inr (invokes, ops)"
| "parse_lines from_str line_no (l # ls) invokes ops =
     (case l of
        Inl err \<Rightarrow> Inl (LineError (line_no + 1) err)
      | Inr line \<Rightarrow>
          if trim line = [] then parse_lines from_str (line_no + 1) ls invokes ops
          else (case from_str (trim line) of
                  Inl err \<Rightarrow> Inl (LineError (line_no + 1) err)
                | Inr e \<Rightarrow>
                    (case parse_entry line_no e invokes ops of
                       Inl err \<Rightarrow> Inl err
                     | Inr (invokes', ops') \<Rightarrow> parse_lines from_str (line_no + 1) ls invokes' ops')))"

fun add_crashed :: "(u64 \<times> HistoryEntry) list \<Rightarrow> (u64, Operation) btreemap \<Rightarrow>
    ParseError + (u64, Operation) btreemap" where
  "add_crashed [] ops = Inr ops"
| "add_crashed ((i, call) # rest) ops =
     (case parse_op_type call of
        Inl err \<Rightarrow> Inl err
      | Inr t \<Rightarrow>
          add_crashed rest (bt_insert i
            \<lparr>op_id = i, client = entry_client call, op_type = t, invoke_ts = ts_ns call, return_ts = 0,
             op_result = Unknown\<rparr> ops))"

definition parse_history :: "(string \<Rightarrow> string + HistoryEntry) \<Rightarrow>
    ((u64, HistoryEntry) hashmap \<Rightarrow> (u64, HistoryEntry) hashmap) \<Rightarrow> (string + string) list \<Rightarrow>
    ParseError + Operation list" where
  "parse_history from_str perm reader =
     (case parse_lines from_str 0 reader [] [] of
        Inl err \<Rightarrow> Inl err
      | Inr (invokes, ops) \<Rightarrow>
          (case add_crashed (perm invokes) ops of
             Inl err \<Rightarrow> Inl err
           | Inr ops' \<Rightarrow> Inr (map snd ops')))"

subsection \<open>Keys without renames\<close>

datatype Violation =
    NoValidWrite string u64 "string option" u64 u64
  | NotLinearizable
  | StaleRead u64 string OpResult "string option"
  | ValueLost u64 string string
  | ValueDuplicated u64 string string
  | RenameViolation u64 string string OpResult "string option" "string option"
  | LinearizationViolation u64 OpType OpResult

fun op_key :: "OpType \<Rightarrow> string option" where
  "op_key (Put p h) = Some p"
| "op_key (Get p) = Some p"
| "op_key (Delete p) = Some p"
| "op_key (Rename s d) = None"

definition effect_ts :: "Operation \<Rightarrow> u64" where
  "effect_ts op = (if 0 < return_ts op then return_ts op else invoke_ts op)"

text \<open>A write event: when it takes effect and the value it leaves.\<close>

type_synonym WriteEvent = "u64 \<times> string option"

fun write_event :: "Operation \<Rightarrow> WriteEvent list" where
  "write_event op =
     (case op_type op of
        Put p h \<Rightarrow> [(effect_ts op, Some h)]
      | Delete p \<Rightarrow> [(effect_ts op, None)]
      | _ \<Rightarrow> [])"

definition is_get :: "Operation \<Rightarrow> bool" where
  "is_get op = (case op_type op of Get p \<Rightarrow> True | _ \<Rightarrow> False)"

definition register_writes :: "Operation list \<Rightarrow> WriteEvent list" where
  "register_writes ops = sort_key fst ((0, None) # concat (map write_event (sort_key invoke_ts ops)))"

text \<open>The value a read observed; \<open>None\<close> if the read is skipped.\<close>

definition read_value :: "Operation \<Rightarrow> string option option" where
  "read_value r =
     (if return_ts r = 0 then None
      else case op_result r of
             GetOk h \<Rightarrow> Some (Some h)
           | NotFound \<Rightarrow> Some None
           | Ok \<Rightarrow> Some None
           | _ \<Rightarrow> None)"

text \<open>The loop over the writes: is there one the read can have seen?\<close>

fun found_valid :: "u64 \<Rightarrow> u64 \<Rightarrow> string option \<Rightarrow> WriteEvent list \<Rightarrow> bool" where
  "found_valid invoke ret v [] = False"
| "found_valid invoke ret v ((ts, w) # ws) =
     (if ret < ts then False
      else if w \<noteq> v then found_valid invoke ret v ws
      else if (case ws of [] \<Rightarrow> False | (ts', _) # _ \<Rightarrow> ts' \<le> invoke) then found_valid invoke ret v ws
      else True)"

definition check_single_register :: "string \<Rightarrow> Operation list \<Rightarrow> Violation list + unit" where
  "check_single_register key ops =
     (let writes = register_writes ops;
          reads = filter is_get (sort_key invoke_ts ops);
          violations = concat (map (\<lambda>r.
            case read_value r of
              None \<Rightarrow> []
            | Some v \<Rightarrow> if found_valid (invoke_ts r) (return_ts r) v writes then []
                         else [NoValidWrite key (op_id r) v (invoke_ts r) (return_ts r)]) reads)
      in if violations = [] then Inr () else Inl violations)"

subsection \<open>Keys linked by renames\<close>

type_synonym RegisterState = "(string, string option) hashmap"

definition reg :: "RegisterState \<Rightarrow> string \<Rightarrow> string option" where
  "reg st k = (case hm_get st k of Some v \<Rightarrow> v | None \<Rightarrow> None)"

definition check_and_apply :: "Operation \<Rightarrow> RegisterState \<Rightarrow> RegisterState option" where
  "check_and_apply op st =
     (case op_type op of
        Put path data_hash \<Rightarrow>
          (case op_result op of
             Ok \<Rightarrow> Some (hm_insert path (Some data_hash) st)
           | PutOk _ \<Rightarrow> Some (hm_insert path (Some data_hash) st)
           | Error \<Rightarrow> None
           | _ \<Rightarrow> Some st)
      | Get path \<Rightarrow>
          (case op_result op of
             GetOk data_hash \<Rightarrow> if reg st path = Some data_hash then Some st else None
           | NotFound \<Rightarrow> if reg st path = None then Some st else None
           | Ok \<Rightarrow> if reg st path = None then Some st else None
           | _ \<Rightarrow> Some st)
      | Delete path \<Rightarrow>
          (case op_result op of
             Ok \<Rightarrow> Some (hm_insert path None st)
           | NotFound \<Rightarrow> if reg st path = None then Some st else None
           | _ \<Rightarrow> Some (hm_insert path None st))
      | Rename src dst \<Rightarrow>
          (let src_val = reg st src
           in case op_result op of
                Ok \<Rightarrow> if src_val \<noteq> None then Some (hm_insert src None (hm_insert dst src_val st)) else None
              | NotFound \<Rightarrow> if src_val = None then Some st else None
              | Error \<Rightarrow> None
              | _ \<Rightarrow> Some st))"

definition apply_op :: "Operation \<Rightarrow> RegisterState \<Rightarrow> bool \<Rightarrow> RegisterState option" where
  "apply_op op st applied =
     (if \<not> applied then Some st
      else case op_type op of
             Put path data_hash \<Rightarrow> Some (hm_insert path (Some data_hash) st)
           | Get path \<Rightarrow> Some st
           | Delete path \<Rightarrow> Some (hm_insert path None st)
           | Rename src dst \<Rightarrow>
               (let src_val = reg st src
                in if src_val \<noteq> None then Some (hm_insert src None (hm_insert dst src_val st)) else Some st))"

definition ambiguous :: "Operation \<Rightarrow> bool" where
  "ambiguous op \<longleftrightarrow> return_ts op = 0 \<or> op_result op = Error \<or> op_result op = Unknown"

text \<open>A loop that returns the first success.\<close>

fun first_some :: "('a \<Rightarrow> 'b option) \<Rightarrow> 'a list \<Rightarrow> 'b option" where
  "first_some f [] = None"
| "first_some f (x # xs) = (case f x of Some y \<Rightarrow> Some y | None \<Rightarrow> first_some f xs)"

lemma first_some_cong [fundef_cong]:
  "xs = ys \<Longrightarrow> (\<And>x. x \<in> set ys \<Longrightarrow> f x = g x) \<Longrightarrow> first_some f xs = first_some g ys"
proof (induction ys arbitrary: xs)
  case (Cons y ys)
  then show ?case by (auto split: option.split)
qed simp

definition u64_max :: u64 where
  "u64_max = 2 ^ 64 - 1"

definition min_return :: "Operation list \<Rightarrow> usize list \<Rightarrow> u64" where
  "min_return ops remaining =
     fold min (filter (\<lambda>r. 0 < r) (map (\<lambda>i. return_ts (ops ! i)) remaining)) u64_max"

text \<open>The search; on success the value is the order in \<open>linearized\<close>. On failure \<open>linearized\<close> and
  \<open>remaining\<close> are as they were.\<close>

function try_linearize :: "Operation list \<Rightarrow> RegisterState \<Rightarrow> usize list \<Rightarrow> usize list \<Rightarrow> bool \<Rightarrow> usize list option" where
  "try_linearize ops st linearized remaining limit_backtrack =
     (if remaining = [] then Some linearized
      else let candidates = filter (\<lambda>i. invoke_ts (ops ! i) \<le> min_return ops remaining) remaining
           in if candidates = []
              then first_some (\<lambda>idx.
                     case (case apply_op (ops ! idx) st True of
                             Some new_state \<Rightarrow>
                               try_linearize ops new_state (linearized @ [idx]) (remove1 idx remaining) limit_backtrack
                           | None \<Rightarrow> None) of
                       Some order \<Rightarrow> Some order
                     | None \<Rightarrow>
                         if \<not> limit_backtrack
                         then try_linearize ops st (linearized @ [idx]) (remove1 idx remaining) limit_backtrack
                         else None) remaining
              else first_some (\<lambda>idx.
                     if ambiguous (ops ! idx)
                     then case (case apply_op (ops ! idx) st True of
                                  Some new_state \<Rightarrow>
                                    try_linearize ops new_state (linearized @ [idx]) (remove1 idx remaining) limit_backtrack
                                | None \<Rightarrow> None) of
                            Some order \<Rightarrow> Some order
                          | None \<Rightarrow>
                              if \<not> limit_backtrack
                              then try_linearize ops st (linearized @ [idx]) (remove1 idx remaining) limit_backtrack
                              else None
                     else case check_and_apply (ops ! idx) st of
                            Some new_state \<Rightarrow>
                              try_linearize ops new_state (linearized @ [idx]) (remove1 idx remaining) limit_backtrack
                          | None \<Rightarrow> None) candidates)"
  by auto
termination
  by (relation "measure (\<lambda>(ops, st, lin, remaining, lb). length remaining)")
    (auto simp: length_remove1 dest: length_pos_if_in_set)

declare try_linearize.simps [simp del]

subsection \<open>Diagnosis\<close>

text \<open>One greedy pass: the state, the flags and whether there was progress.\<close>

fun diagnose_pass :: "(nat \<times> Operation) list \<Rightarrow> RegisterState \<Rightarrow> bool list \<Rightarrow> bool \<Rightarrow>
    RegisterState \<times> bool list \<times> bool" where
  "diagnose_pass [] st processed progress = (st, processed, progress)"
| "diagnose_pass ((i, op) # rest) st processed progress =
     (if processed ! i then diagnose_pass rest st processed progress
      else case (if ambiguous op then apply_op op st True else check_and_apply op st) of
             Some ns \<Rightarrow> diagnose_pass rest ns (processed[i := True]) True
           | None \<Rightarrow> diagnose_pass rest st processed progress)"

lemma diagnose_pass_flags:
  assumes "diagnose_pass xs st processed progress = (st', processed', progress')"
  shows "length processed' = length processed"
    "length (filter Not processed') \<le> length (filter Not processed)"
    "(\<forall>x \<in> set xs. fst x < length processed) \<Longrightarrow> progress' \<Longrightarrow> \<not> progress \<Longrightarrow>
       length (filter Not processed') < length (filter Not processed)"
proof -
  have flip: "Suc (length (filter Not (p[i := True]))) = length (filter Not p)"
    if "i < length p" "\<not> p ! i" for p and i :: nat
    using that by (induction p arbitrary: i) (auto split: nat.splits simp: nth_Cons)
  have upd: "length (filter Not (p[i := True])) \<le> length (filter Not p)" for p and i :: nat
    by (induction p arbitrary: i) (auto split: nat.splits)
  from assms show "length processed' = length processed"
    by (induction xs st processed progress rule: diagnose_pass.induct) (auto split: if_splits option.splits)
  have le: "length (filter Not processed') \<le> length (filter Not processed)"
    if "diagnose_pass xs st processed progress = (st', processed', progress')" for xs st processed progress
    using that
    by (induction xs st processed progress rule: diagnose_pass.induct)
      (auto split: if_splits option.splits intro: order_trans [OF _ upd])
  from le [OF assms] show "length (filter Not processed') \<le> length (filter Not processed)" .
  from assms show "(\<forall>x \<in> set xs. fst x < length processed) \<Longrightarrow> progress' \<Longrightarrow> \<not> progress \<Longrightarrow>
      length (filter Not processed') < length (filter Not processed)"
  proof (induction xs st processed progress rule: diagnose_pass.induct)
    case (2 i op rest st processed progress)
    show ?case
    proof (cases "processed ! i")
      case True
      with 2 show ?thesis by simp
    next
      case False
      let ?r = "if ambiguous op then apply_op op st True else check_and_apply op st"
      show ?thesis
      proof (cases ?r)
        case None
        with False 2 show ?thesis by simp
      next
        case (Some ns)
        with False 2 have "diagnose_pass rest ns (processed[i := True]) True = (st', processed', progress')"
          by simp
        from le [OF this] flip [of i processed] False 2(4) show ?thesis by simp
      qed
    qed
  qed simp
qed

text \<open>There is a flag per operation; the model stops where the index into the flags would panic.\<close>

function diagnose_loop :: "Operation list \<Rightarrow> RegisterState \<Rightarrow> bool list \<Rightarrow> RegisterState \<times> bool list" where
  "diagnose_loop ops st processed =
     (if length processed = length ops
      then case diagnose_pass (enumerate 0 ops) st processed False of
             (st', processed', progress) \<Rightarrow>
               if progress then diagnose_loop ops st' processed' else (st', processed')
      else (st, processed))"
  by auto
termination
  by (relation "measure (\<lambda>(ops, st, processed). length (filter Not processed))")
    (auto simp: in_set_enumerate_eq dest!: diagnose_pass_flags(3) [OF sym])

declare diagnose_loop.simps [simp del]

definition report_violation :: "RegisterState \<Rightarrow> Operation \<Rightarrow> Violation" where
  "report_violation st op =
     (case op_type op of
        Get path \<Rightarrow> StaleRead (op_id op) path (op_result op) (reg st path)
      | Rename src dst \<Rightarrow>
          (let src_v = reg st src; dst_v = reg st dst
           in if src_v = None \<and> dst_v = None \<and> op_result op = Ok then ValueLost (op_id op) src dst
              else if src_v \<noteq> None \<and> dst_v \<noteq> None \<and> op_result op = Ok then ValueDuplicated (op_id op) src dst
              else RenameViolation (op_id op) src dst (op_result op) src_v dst_v)
      | t \<Rightarrow> LinearizationViolation (op_id op) t (op_result op))"

definition diagnose_violations :: "Operation list \<Rightarrow> RegisterState \<Rightarrow> Violation list" where
  "diagnose_violations ops initial_state =
     (let sorted = sort_key invoke_ts ops;
          (st, processed) = diagnose_loop sorted initial_state (replicate (length sorted) False)
      in map (\<lambda>(i, op). report_violation st op) (filter (\<lambda>(i, op). \<not> processed ! i) (enumerate 0 sorted)))"

subsection \<open>The checks\<close>

fun op_keys :: "OpType \<Rightarrow> string list" where
  "op_keys (Put p h) = [p]"
| "op_keys (Get p) = [p]"
| "op_keys (Delete p) = [p]"
| "op_keys (Rename s d) = [s, d]"

definition initial_registers :: "Operation list \<Rightarrow> RegisterState" where
  "initial_registers ops = fold (\<lambda>k. hm_insert k None) (concat (map (\<lambda>op. op_keys (op_type op)) ops)) []"

definition check_rename_linked :: "Operation list \<Rightarrow> Violation list + unit" where
  "check_rename_linked ops =
     (let sorted = sort_key invoke_ts ops;
          initial_state = initial_registers sorted;
          limit_backtrack = 15 < length (filter ambiguous sorted)
      in case try_linearize sorted initial_state [] [0..<length sorted] limit_backtrack of
           Some _ \<Rightarrow> Inr ()
         | None \<Rightarrow>
             (let violations = diagnose_violations sorted initial_state
              in if violations = [] then Inl [NotLinearizable] else Inl violations))"

definition rename_keys :: "Operation list \<Rightarrow> string list" where
  "rename_keys ops = concat (map (\<lambda>op. case op_type op of Rename s d \<Rightarrow> [s, d] | _ \<Rightarrow> []) ops)"

definition touches_rename :: "Operation list \<Rightarrow> Operation \<Rightarrow> bool" where
  "touches_rename ops op = (case op_key (op_type op) of Some k \<Rightarrow> k \<in> set (rename_keys ops) | None \<Rightarrow> True)"

definition by_key :: "Operation list \<Rightarrow> (string, Operation list) hashmap" where
  "by_key ops = fold (\<lambda>op m. case op_key (op_type op) of Some k \<Rightarrow> hm_push k op m | None \<Rightarrow> m) ops []"

definition errors :: "'e list + unit \<Rightarrow> 'e list" where
  "errors r = (case r of Inl errs \<Rightarrow> errs | Inr _ \<Rightarrow> [])"

definition check_linearizability :: "((string, Operation list) hashmap \<Rightarrow> (string, Operation list) hashmap) \<Rightarrow>
    Operation list \<Rightarrow> Violation list + unit" where
  "check_linearizability perm ops =
     (let linked_ops = filter (touches_rename ops) ops;
          simple_ops = filter (\<lambda>op. \<not> touches_rename ops op) ops;
          violations =
            concat (map (\<lambda>(key, key_ops). errors (check_single_register key key_ops)) (perm (by_key simple_ops))) @
            (if linked_ops \<noteq> [] then errors (check_rename_linked linked_ops) else [])
      in if violations = [] then Inr () else Inl violations)"

end
