(* ===== verification/History.thy ===== *)
theory History
  imports Checker
begin

section \<open>What the checker decides\<close>

text \<open>
  The specification is the usual one: a history is linearizable if its operations can be put in a sequence
  that respects the order of operations that do not overlap and is a run of a map of registers with an atomic
  rename. An operation that failed or never returned may or may not have taken effect. The search over
  linked operations is proved to decide this for at most 15 such operations; the cheaper check of keys
  without renames and the division of a history into keys are proved sound with linearization points.
\<close>

subsection \<open>Linearizable histories\<close>

type_synonym registers = "string \<Rightarrow> string option"

fun effect :: "OpType \<Rightarrow> registers \<Rightarrow> registers" where
  "effect (Put p h) r = r(p := Some h)"
| "effect (Get p) r = r"
| "effect (Delete p) r = r(p := None)"
| "effect (Rename s d) r = (case r s of None \<Rightarrow> r | Some v \<Rightarrow> r(s := None, d := Some v))"

fun observes :: "OpType \<Rightarrow> OpResult \<Rightarrow> registers \<Rightarrow> bool" where
  "observes (Put p h) (PutOk h') r = True"
| "observes (Put p h) Ok r = True"
| "observes (Get p) (GetOk h) r \<longleftrightarrow> r p = Some h"
| "observes (Get p) NotFound r \<longleftrightarrow> r p = None"
| "observes (Delete p) Ok r = True"
| "observes (Delete p) NotFound r \<longleftrightarrow> r p = None"
| "observes (Rename s d) Ok r \<longleftrightarrow> r s \<noteq> None"
| "observes (Rename s d) NotFound r \<longleftrightarrow> r s = None"
| "observes _ _ r = False"

text \<open>A sequence of operations; the flag of an ambiguous one says whether it took effect.\<close>

definition allowed :: "registers \<Rightarrow> Operation \<Rightarrow> bool" where
  "allowed r op \<longleftrightarrow> ambiguous op \<or> observes (op_type op) (op_result op) r"

definition exec :: "Operation \<times> bool \<Rightarrow> registers \<Rightarrow> registers" where
  "exec x r = (if ambiguous (fst x) \<and> \<not> snd x then r else effect (op_type (fst x)) r)"

fun legal :: "registers \<Rightarrow> (Operation \<times> bool) list \<Rightarrow> bool" where
  "legal r [] = True"
| "legal r (x # xs) = (allowed r (fst x) \<and> legal (exec x r) xs)"

definition precedes :: "Operation \<Rightarrow> Operation \<Rightarrow> bool" where
  "precedes a b \<longleftrightarrow> 0 < return_ts a \<and> return_ts a < invoke_ts b"

definition linearization :: "registers \<Rightarrow> Operation multiset \<Rightarrow> (Operation \<times> bool) list \<Rightarrow> bool" where
  "linearization r M xs \<longleftrightarrow>
     mset (map fst xs) = M \<and> sorted_wrt (\<lambda>a b. \<not> precedes b a) (map fst xs) \<and> legal r xs"

definition linearizable :: "Operation list \<Rightarrow> bool" where
  "linearizable ops \<longleftrightarrow> (\<exists>xs. linearization (\<lambda>_. None) (mset ops) xs)"

text \<open>The histories that are recorded: times are in order, and the results are those of the operation.\<close>

definition timed :: "Operation \<Rightarrow> bool" where
  "timed op \<longleftrightarrow> invoke_ts op \<le> u64_max \<and> (return_ts op = 0 \<or> invoke_ts op \<le> return_ts op)"

fun typed_result :: "OpType \<Rightarrow> OpResult \<Rightarrow> bool" where
  "typed_result (Put p h) res \<longleftrightarrow> res = Ok \<or> (\<exists>h'. res = PutOk h')"
| "typed_result (Get p) res \<longleftrightarrow> res = NotFound \<or> (\<exists>h. res = GetOk h)"
| "typed_result (Delete p) res \<longleftrightarrow> res = Ok \<or> res = NotFound"
| "typed_result (Rename s d) res \<longleftrightarrow> res = Ok \<or> res = NotFound"

definition well_typed :: "Operation \<Rightarrow> bool" where
  "well_typed op \<longleftrightarrow> (ambiguous op \<or> typed_result (op_type op) (op_result op)) \<and>
     (\<forall>s d. op_type op = Rename s d \<longrightarrow> s \<noteq> d)"

subsection \<open>The register map of the checker\<close>

lemma reg_insert [simp]: "reg (hm_insert k v st) = (reg st)(k := v)"
  by (auto simp: reg_def fun_eq_iff)

lemma reg_initial [simp]: "reg (initial_registers ops) = (\<lambda>_. None)"
proof -
  have "reg (fold (\<lambda>k. hm_insert k None) ks st) = (\<lambda>k. if k \<in> set ks then None else reg st k)" for ks st
    by (induction ks arbitrary: st) (auto simp: fun_eq_iff)
  then show ?thesis by (auto simp: initial_registers_def reg_def)
qed

lemma apply_op_effect:
  assumes "well_typed op"
  obtains st' where "apply_op op st True = Some st'" "reg st' = effect (op_type op) (reg st)"
proof (cases "op_type op")
  case (Rename s d)
  with assms have "s \<noteq> d" by (auto simp: well_typed_def)
  with Rename that show thesis
    by (cases "reg st s") (auto simp: apply_op_def Let_def fun_upd_twist)
qed (use that in \<open>auto simp: apply_op_def\<close>)

lemma check_and_apply_effect:
  assumes "well_typed op" "\<not> ambiguous op"
  shows "case check_and_apply op st of
      Some st' \<Rightarrow> observes (op_type op) (op_result op) (reg st) \<and> reg st' = effect (op_type op) (reg st)
    | None \<Rightarrow> \<not> observes (op_type op) (op_result op) (reg st)"
proof -
  have t: "typed_result (op_type op) (op_result op)" "\<And>s d. op_type op = Rename s d \<Longrightarrow> s \<noteq> d"
    using assms by (auto simp: well_typed_def)
  show ?thesis
  proof (cases "op_type op")
    case (Rename s d)
    with t show ?thesis by (auto simp: check_and_apply_def Let_def fun_upd_twist split: option.splits)
  qed (use t in \<open>auto simp: check_and_apply_def fun_upd_idem\<close>)
qed

subsection \<open>The search\<close>

lemma first_some_Some: "first_some f xs = Some y \<Longrightarrow> \<exists>x \<in> set xs. f x = Some y"
  by (induction xs) (auto split: option.splits)

lemma first_someI: "x \<in> set xs \<Longrightarrow> f x \<noteq> None \<Longrightarrow> first_some f xs \<noteq> None"
  by (induction xs) (auto split: option.splits)

text \<open>What the loop tries for one candidate, as a function of the recursive call.\<close>

definition attempt :: "(RegisterState \<Rightarrow> 'r option) \<Rightarrow> bool \<Rightarrow> Operation \<Rightarrow> RegisterState \<Rightarrow> 'r option" where
  "attempt rec lb op st =
     (if ambiguous op
      then case (case apply_op op st True of Some ns \<Rightarrow> rec ns | None \<Rightarrow> None) of
             Some order \<Rightarrow> Some order
           | None \<Rightarrow> if \<not> lb then rec st else None
      else case check_and_apply op st of Some ns \<Rightarrow> rec ns | None \<Rightarrow> None)"

lemma attempt_sound:
  assumes "attempt rec lb op st = Some y" "well_typed op"
  obtains ns b where "rec ns = Some y" "allowed (reg st) op" "reg ns = exec (op, b) (reg st)"
proof (cases "ambiguous op")
  case True
  obtain st' where st': "apply_op op st True = Some st'" "reg st' = effect (op_type op) (reg st)"
    using apply_op_effect [OF assms(2)] .
  show thesis
  proof (cases "rec st'")
    case None
    with assms(1) True st' have "rec st = Some y" by (simp add: attempt_def split: if_splits)
    with True that [of st False] show thesis by (simp add: allowed_def exec_def)
  next
    case (Some z)
    with assms(1) True st' have "rec st' = Some y" by (simp add: attempt_def)
    with True st' that [of st' True] show thesis by (simp add: allowed_def exec_def)
  qed
next
  case False
  with assms(1) obtain ns where ns: "check_and_apply op st = Some ns" "rec ns = Some y"
    by (auto simp: attempt_def split: option.splits)
  with check_and_apply_effect [OF assms(2) False, of st] False that [of ns True] show thesis
    by (simp add: allowed_def exec_def)
qed

lemma attempt_complete:
  assumes "well_typed op" "allowed (reg st) op" "\<And>ns. reg ns = exec (op, b) (reg st) \<Longrightarrow> rec ns \<noteq> None"
  shows "attempt rec False op st \<noteq> None"
proof (cases "ambiguous op")
  case True
  obtain st' where "apply_op op st True = Some st'" "reg st' = effect (op_type op) (reg st)"
    using apply_op_effect [OF assms(1)] .
  with True assms(3) [of st'] assms(3) [of st] show ?thesis
    by (cases b) (auto simp: attempt_def exec_def split: option.splits)
next
  case False
  with check_and_apply_effect [OF assms(1) False, of st] assms(2,3) show ?thesis
    by (auto simp: attempt_def allowed_def exec_def split: option.splits)
qed

lemma fold_min_le: "fold min xs m \<le> y \<longleftrightarrow> m \<le> y \<or> (\<exists>x \<in> set xs. x \<le> y)" for m :: "'a::linorder"
  by (induction xs arbitrary: m) (auto simp: min_le_iff_disj)

lemma le_fold_min: "y \<le> fold min xs m \<longleftrightarrow> y \<le> m \<and> (\<forall>x \<in> set xs. y \<le> x)" for m :: "'a::linorder"
  by (induction xs arbitrary: m) auto

lemma candidate_iff:
  assumes "invoke_ts (ops ! i) \<le> u64_max"
  shows "invoke_ts (ops ! i) \<le> min_return ops remaining \<longleftrightarrow> (\<forall>j \<in> set remaining. \<not> precedes (ops ! j) (ops ! i))"
  using assms by (auto simp: min_return_def le_fold_min precedes_def not_less)

text \<open>There is a candidate as long as an operation remains.\<close>

lemma candidate_exists:
  assumes "remaining \<noteq> []" "\<forall>i \<in> set remaining. timed (ops ! i)"
  shows "\<exists>i \<in> set remaining. \<forall>j \<in> set remaining. \<not> precedes (ops ! j) (ops ! i)"
proof -
  let ?i = "arg_min_on (\<lambda>i. invoke_ts (ops ! i)) (set remaining)"
  have i: "?i \<in> set remaining" "\<And>j. j \<in> set remaining \<Longrightarrow> invoke_ts (ops ! ?i) \<le> invoke_ts (ops ! j)"
    using arg_min_if_finite [of "set remaining" "\<lambda>i. invoke_ts (ops ! i)"] assms(1) by (auto simp: not_less)
  have "\<not> precedes (ops ! j) (ops ! ?i)" if "j \<in> set remaining" for j
    using i(2) [OF that] assms(2) that by (auto simp: precedes_def timed_def)
  with i(1) show ?thesis by blast
qed

lemma try_linearize_step:
  assumes "remaining \<noteq> []" "\<forall>i \<in> set remaining. timed (ops ! i)"
  shows "try_linearize ops st lin remaining lb =
    first_some (\<lambda>i. attempt (\<lambda>ns. try_linearize ops ns (lin @ [i]) (remove1 i remaining) lb) lb (ops ! i) st)
      (filter (\<lambda>i. \<forall>j \<in> set remaining. \<not> precedes (ops ! j) (ops ! i)) remaining)"
proof -
  have f: "filter (\<lambda>i. invoke_ts (ops ! i) \<le> min_return ops remaining) remaining =
      filter (\<lambda>i. \<forall>j \<in> set remaining. \<not> precedes (ops ! j) (ops ! i)) remaining"
    using assms(2) candidate_iff by (intro filter_cong) (auto simp: timed_def)
  have "filter (\<lambda>i. \<forall>j \<in> set remaining. \<not> precedes (ops ! j) (ops ! i)) remaining \<noteq> []"
    using candidate_exists [OF assms] by (auto simp: filter_empty_conv)
  with assms(1) show ?thesis
    by (subst try_linearize.simps) (simp only: f Let_def if_False attempt_def refl)
qed

lemma mset_remove1_map:
  "i \<in> set remaining \<Longrightarrow> add_mset (f i) (image_mset f (mset (remove1 i remaining))) = image_mset f (mset remaining)"
  by (induction remaining) auto

lemma linearization_Cons:
  "linearization r M (x # xs) \<longleftrightarrow>
     (\<exists>M'. M = add_mset (fst x) M' \<and> (\<forall>y \<in># M'. \<not> precedes y (fst x)) \<and> allowed r (fst x) \<and>
       linearization (exec x r) M' xs)"
  by (auto simp: linearization_def)

lemma try_linearize_sound:
  assumes "try_linearize ops st lin remaining lb = Some order"
    and "\<forall>i \<in> set remaining. timed (ops ! i) \<and> well_typed (ops ! i)"
  shows "\<exists>xs. linearization (reg st) (image_mset ((!) ops) (mset remaining)) xs"
  using assms
proof (induction "length remaining" arbitrary: remaining st lin)
  case 0
  then show ?case by (auto simp: linearization_def intro: exI [of _ "[]"])
next
  case (Suc n)
  then have ne: "remaining \<noteq> []" by auto
  let ?f = "\<lambda>i. attempt (\<lambda>ns. try_linearize ops ns (lin @ [i]) (remove1 i remaining) lb) lb (ops ! i) st"
  obtain i where i: "i \<in> set remaining" "\<forall>j \<in> set remaining. \<not> precedes (ops ! j) (ops ! i)" "?f i = Some order"
    using first_some_Some [OF trans [OF try_linearize_step [OF ne, symmetric] Suc.prems(1)]] Suc.prems(2) by auto
  obtain ns b where ns: "try_linearize ops ns (lin @ [i]) (remove1 i remaining) lb = Some order"
      "allowed (reg st) (ops ! i)" "reg ns = exec (ops ! i, b) (reg st)"
    using attempt_sound [OF i(3)] Suc.prems(2) i(1) by blast
  have sub: "set (remove1 i remaining) \<subseteq> set remaining" by (rule set_remove1_subset)
  moreover have "n = length (remove1 i remaining)" using Suc.hyps(2) i(1) by (simp add: length_remove1)
  ultimately obtain xs where "linearization (reg ns) (image_mset ((!) ops) (mset (remove1 i remaining))) xs"
    using Suc.hyps(1) [OF _ ns(1)] Suc.prems(2) by blast
  then have "linearization (reg st) (image_mset ((!) ops) (mset remaining)) ((ops ! i, b) # xs)"
    unfolding linearization_Cons using i sub ns(2,3)
    by (intro exI [of _ "image_mset ((!) ops) (mset (remove1 i remaining))"])
      (auto simp: mset_remove1_map [OF i(1)] simp del: mset_remove1)
  then show ?case ..
qed

lemma try_linearize_complete:
  assumes "linearization (reg st) (image_mset ((!) ops) (mset remaining)) xs"
    and "\<forall>i \<in> set remaining. timed (ops ! i) \<and> well_typed (ops ! i)"
  shows "try_linearize ops st lin remaining False \<noteq> None"
  using assms
proof (induction xs arbitrary: remaining st lin)
  case Nil
  then show ?case by (subst try_linearize.simps) (simp add: linearization_def)
next
  case (Cons x xs)
  obtain op b where x: "x = (op, b)" by fastforce
  obtain M' where M': "image_mset ((!) ops) (mset remaining) = add_mset op M'" "\<forall>y \<in># M'. \<not> precedes y op"
      "allowed (reg st) op" "linearization (exec (op, b) (reg st)) M' xs"
    using Cons.prems(1) unfolding linearization_Cons x by auto
  have "op \<in># image_mset ((!) ops) (mset remaining)" unfolding M'(1) by simp
  then obtain i where i: "i \<in> set remaining" "ops ! i = op" by auto
  then have rest: "M' = image_mset ((!) ops) (mset (remove1 i remaining))"
    using mset_remove1_map [OF i(1), of "(!) ops"] M'(1) by simp
  have "timed op" "well_typed op" using Cons.prems(2) i by auto
  then have "\<not> precedes op op" by (auto simp: precedes_def timed_def)
  have "\<not> precedes (ops ! j) op" if "j \<in> set remaining" for j
  proof -
    have "ops ! j \<in># add_mset op M'" using that by (simp flip: M'(1))
    with M'(2) \<open>\<not> precedes op op\<close> show ?thesis by auto
  qed
  then have cand: "i \<in> set (filter (\<lambda>i. \<forall>j \<in> set remaining. \<not> precedes (ops ! j) (ops ! i)) remaining)"
    using i by simp
  have "try_linearize ops ns (lin @ [i]) (remove1 i remaining) False \<noteq> None" if "reg ns = exec (op, b) (reg st)" for ns
    using Cons.prems(2) M'(4) set_remove1_subset [of i remaining] that unfolding rest
    by (intro Cons.IH) auto
  from attempt_complete [OF \<open>well_typed op\<close> M'(3) this]
  have "attempt (\<lambda>ns. try_linearize ops ns (lin @ [i]) (remove1 i remaining) False) False (ops ! i) st \<noteq> None"
    using i(2) by simp
  then have "first_some (\<lambda>i. attempt (\<lambda>ns. try_linearize ops ns (lin @ [i]) (remove1 i remaining) False) False (ops ! i) st)
      (filter (\<lambda>i. \<forall>j \<in> set remaining. \<not> precedes (ops ! j) (ops ! i)) remaining) \<noteq> None"
    by (rule first_someI [OF cand])
  moreover have "remaining \<noteq> []" using i by auto
  ultimately show ?case
    using Cons.prems(2) by (subst try_linearize_step) auto
qed

lemma image_nth_upt: "image_mset ((!) xs) (mset [0..<length xs]) = mset xs"
  by (metis map_nth mset_map)

lemma check_rename_linked_iff:
  "check_rename_linked ops = Inr () \<longleftrightarrow>
     try_linearize (sort_key invoke_ts ops) (initial_registers (sort_key invoke_ts ops)) [] [0..<length ops]
       (15 < length (filter ambiguous ops)) \<noteq> None"
proof -
  have "mset (filter ambiguous (sort_key invoke_ts ops)) = mset (filter ambiguous ops)" by simp
  then have "length (filter ambiguous (sort_key invoke_ts ops)) = length (filter ambiguous ops)"
    by (rule mset_eq_length)
  then show ?thesis by (auto simp: check_rename_linked_def Let_def split: option.splits)
qed

lemma rename_linked_sound:
  assumes "check_rename_linked ops = Inr ()" "\<forall>op \<in> set ops. timed op \<and> well_typed op"
  shows "linearizable ops"
proof -
  let ?s = "sort_key invoke_ts ops"
  obtain order where "try_linearize ?s (initial_registers ?s) [] [0..<length ?s] (15 < length (filter ambiguous ops)) = Some order"
    using assms(1) unfolding check_rename_linked_iff by auto
  moreover have "timed (?s ! i) \<and> well_typed (?s ! i)" if "i < length ?s" for i
    using assms(2) nth_mem [OF that] by simp
  ultimately have "\<exists>xs. linearization (reg (initial_registers ?s)) (image_mset ((!) ?s) (mset [0..<length ?s])) xs"
    by (intro try_linearize_sound) (simp_all only: set_upt, auto)
  then show ?thesis unfolding image_nth_upt by (simp add: linearizable_def)
qed

lemma rename_linked_complete:
  assumes "linearizable ops" "\<forall>op \<in> set ops. timed op \<and> well_typed op" "length (filter ambiguous ops) \<le> 15"
  shows "check_rename_linked ops = Inr ()"
proof -
  let ?s = "sort_key invoke_ts ops"
  obtain xs where "linearization (\<lambda>_. None) (mset ?s) xs" using assms(1) by (auto simp: linearizable_def)
  then have "linearization (reg (initial_registers ?s)) (image_mset ((!) ?s) (mset [0..<length ?s])) xs"
    unfolding image_nth_upt by simp
  moreover have "timed (?s ! i) \<and> well_typed (?s ! i)" if "i < length ?s" for i
    using assms(2) nth_mem [OF that] by simp
  ultimately have "try_linearize ?s (initial_registers ?s) [] [0..<length ?s] False \<noteq> None"
    by (intro try_linearize_complete) (simp_all only: set_upt, auto)
  then show ?thesis using assms(3) unfolding check_rename_linked_iff by (simp add: not_less)
qed

subsection \<open>Linearization points\<close>

text \<open>A sequence whose operations carry a point in time inside their interval, in order.\<close>

type_synonym pointed = "(u64 \<times> Operation \<times> bool) list"

definition in_interval :: "u64 \<times> Operation \<times> bool \<Rightarrow> bool" where
  "in_interval x \<longleftrightarrow> invoke_ts (fst (snd x)) \<le> fst x \<and>
     (return_ts (fst (snd x)) = 0 \<or> fst x \<le> return_ts (fst (snd x)))"

definition pointed_run :: "Operation multiset \<Rightarrow> pointed \<Rightarrow> bool" where
  "pointed_run M xs \<longleftrightarrow> mset (map (fst \<circ> snd) xs) = M \<and> sorted (map fst xs) \<and>
     (\<forall>x \<in> set xs. in_interval x) \<and> legal (\<lambda>_. None) (map snd xs)"

fun annotate :: "u64 \<Rightarrow> (Operation \<times> bool) list \<Rightarrow> pointed" where
  "annotate m [] = []"
| "annotate m (x # xs) = (let p = max m (invoke_ts (fst x)) in (p, x) # annotate p xs)"

lemma annotate_props:
  assumes "sorted_wrt (\<lambda>a b. \<not> precedes b a) (map fst xs)"
    and "\<forall>x \<in> set xs. timed (fst x) \<and> (return_ts (fst x) = 0 \<or> m \<le> return_ts (fst x))"
  shows "map snd (annotate m xs) = xs \<and> sorted (map fst (annotate m xs)) \<and>
    (\<forall>x \<in> set (annotate m xs). m \<le> fst x \<and> in_interval x)"
  using assms
proof (induction xs arbitrary: m)
  case (Cons x xs)
  let ?p = "max m (invoke_ts (fst x))"
  have "\<forall>y \<in> set xs. timed (fst y) \<and> (return_ts (fst y) = 0 \<or> ?p \<le> return_ts (fst y))"
    using Cons.prems by (auto simp: precedes_def not_less)
  with Cons.IH [of ?p] Cons.prems(1) have
    "map snd (annotate ?p xs) = xs \<and> sorted (map fst (annotate ?p xs)) \<and>
      (\<forall>y \<in> set (annotate ?p xs). ?p \<le> fst y \<and> in_interval y)" by simp
  moreover have "in_interval (?p, x)" using Cons.prems(2) by (auto simp: in_interval_def timed_def)
  ultimately show ?case by (auto simp: Let_def)
qed simp

lemma pointed_run_exists:
  assumes "linearizable ops" "\<forall>op \<in> set ops. timed op"
  shows "\<exists>xs. pointed_run (mset ops) xs"
proof -
  obtain xs where xs: "mset (map fst xs) = mset ops" "sorted_wrt (\<lambda>a b. \<not> precedes b a) (map fst xs)"
      "legal (\<lambda>_. None) xs"
    using assms(1) by (auto simp: linearizable_def linearization_def)
  have "\<forall>x \<in> set xs. timed (fst x)" using assms(2) mset_eq_setD [OF xs(1)] by auto
  with annotate_props [OF xs(2), of 0] have
    "map snd (annotate 0 xs) = xs \<and> sorted (map fst (annotate 0 xs)) \<and> (\<forall>x \<in> set (annotate 0 xs). in_interval x)"
    by auto
  with xs have "pointed_run (mset ops) (annotate 0 xs)"
    by (simp add: pointed_run_def flip: map_map)
  then show ?thesis ..
qed

lemma pointed_run_linearizable:
  assumes "pointed_run (mset ops) xs"
  shows "linearizable ops"
proof -
  have "sorted_wrt (\<lambda>a b. \<not> precedes (fst (snd b)) (fst (snd a))) xs"
  proof (rule sorted_wrt_mono_rel)
    show "sorted_wrt (\<lambda>a b. fst a \<le> fst b) xs" using assms by (simp add: pointed_run_def sorted_wrt_map)
    fix a b assume "a \<in> set xs" "b \<in> set xs" "fst a \<le> fst b"
    moreover from this assms have "in_interval a" "in_interval b" by (simp_all add: pointed_run_def)
    ultimately show "\<not> precedes (fst (snd b)) (fst (snd a))" by (auto simp: in_interval_def precedes_def)
  qed
  with assms show ?thesis
    unfolding linearizable_def linearization_def
    by (intro exI [of _ "map snd xs"]) (auto simp: pointed_run_def sorted_wrt_map)
qed

subsection \<open>Locality: runs on disjoint keys combine\<close>

lemma observes_cong:
  "(\<And>k. k \<in> set (op_keys t) \<Longrightarrow> r k = r' k) \<Longrightarrow> observes t res r = observes t res r'"
  by (cases t; cases res) auto

lemma effect_other: "k \<notin> set (op_keys t) \<Longrightarrow> effect t r k = r k"
  by (cases t) (auto split: option.split)

lemma effect_cong:
  "(\<And>k. k \<in> set (op_keys t) \<Longrightarrow> r k = r' k) \<Longrightarrow> k \<in> set (op_keys t) \<Longrightarrow> effect t r k = effect t r' k"
  by (cases t) (auto split: option.splits)

lemma legal_compose:
  assumes "\<forall>x \<in> set xs. set (op_keys (op_type (fst x))) \<subseteq> K (part x)"
    and "\<And>c d. c \<noteq> d \<Longrightarrow> K c \<inter> K d = {}"
    and "\<And>c. legal (rs c) (filter (\<lambda>x. part x = c) xs)"
    and "\<And>c k. k \<in> K c \<Longrightarrow> rs c k = r k"
  shows "legal r xs"
  using assms(1,3,4)
proof (induction xs arbitrary: r rs)
  case (Cons x xs)
  let ?c = "part x" and ?t = "op_type (fst x)"
  define rs' where "rs' = rs(?c := exec x (rs ?c))"
  have keys: "set (op_keys ?t) \<subseteq> K ?c" using Cons.prems(1) by simp
  have agree: "rs ?c k = r k" if "k \<in> set (op_keys ?t)" for k using Cons.prems(3) keys that by blast
  have x: "allowed (rs ?c) (fst x)" "legal (exec x (rs ?c)) (filter (\<lambda>y. part y = ?c) xs)"
    using Cons.prems(2) [of ?c] by simp_all
  have "allowed r (fst x)" using x(1) observes_cong [OF agree] by (auto simp: allowed_def)
  moreover have "legal (exec x r) xs"
  proof (rule Cons.IH)
    show "\<forall>y \<in> set xs. set (op_keys (op_type (fst y))) \<subseteq> K (part y)" using Cons.prems(1) by simp
    show "legal (rs' c) (filter (\<lambda>y. part y = c) xs)" for c
      using x(2) Cons.prems(2) [of c] by (cases "c = ?c") (auto simp: rs'_def split: if_splits)
    show "rs' c k = exec x r k" if k: "k \<in> K c" for c k
    proof (cases "c = ?c")
      case True
      then show ?thesis
        using Cons.prems(3) [OF k] effect_cong [where t = ?t and k = k, OF agree] effect_other [of k ?t]
        by (cases "k \<in> set (op_keys ?t)") (simp_all add: rs'_def exec_def)
    next
      case False
      then have "k \<notin> set (op_keys ?t)" using assms(2) [OF False] k keys by blast
      with False Cons.prems(3) [OF k] show ?thesis by (simp add: rs'_def exec_def effect_other)
    qed
  qed
  ultimately show ?case by simp
qed simp

lemma mset_partition:
  "distinct cs \<Longrightarrow> f ` set xs \<subseteq> set cs \<Longrightarrow> mset (concat (map (\<lambda>c. filter (\<lambda>x. f x = c) xs) cs)) = mset xs"
proof (induction cs arbitrary: xs)
  case (Cons c cs)
  let ?ys = "filter (\<lambda>x. f x \<noteq> c) xs"
  have "map (\<lambda>d. filter (\<lambda>x. f x = d) xs) cs = map (\<lambda>d. filter (\<lambda>x. f x = d) ?ys) cs"
    using Cons.prems(1) by (auto intro!: filter_cong)
  moreover have "mset (concat (map (\<lambda>d. filter (\<lambda>x. f x = d) ?ys) cs)) = mset ?ys"
    using Cons.prems by (intro Cons.IH) auto
  moreover have "mset xs = mset (filter (\<lambda>x. f x = c) xs) + mset ?ys"
    using multiset_partition [of "mset xs" "\<lambda>x. f x = c"] by simp
  ultimately show ?case by (simp only: list.map concat.simps mset_append)
qed auto

lemma mset_map_concat: "mset (map f (concat xss)) = (\<Sum>xs \<leftarrow> xss. mset (map f xs))"
  by (induction xss) simp_all

lemma filter_concat_component:
  assumes "distinct cs" "\<And>c x. c \<in> set cs \<Longrightarrow> x \<in> set (ys c) \<Longrightarrow> f x = c"
  shows "filter (\<lambda>x. f x = c) (concat (map ys cs)) = (if c \<in> set cs then ys c else [])"
  using assms
proof (induction cs)
  case (Cons d cs)
  then have "filter (\<lambda>x. f x = c) (ys d) = (if c = d then ys d else [])"
    by (auto simp: filter_empty_conv intro!: filter_True)
  with Cons show ?case by auto
qed simp

lemma pointed_compose:
  assumes "\<forall>op \<in> set ops. set (op_keys (op_type op)) \<subseteq> K (part op)"
    and "\<And>c d. c \<noteq> d \<Longrightarrow> K c \<inter> K d = {}" "distinct cs" "part ` set ops \<subseteq> set cs"
    and "\<And>c. c \<in> set cs \<Longrightarrow> pointed_run (mset (filter (\<lambda>op. part op = c) ops)) (ys c)"
  shows "\<exists>xs. pointed_run (mset ops) xs"
proof -
  define xs where "xs = sort_key fst (concat (map ys cs))"
  have mem: "fst (snd x) \<in> set ops \<and> part (fst (snd x)) = c" if "c \<in> set cs" "x \<in> set (ys c)" for c x
  proof -
    have "mset (map (fst \<circ> snd) (ys c)) = mset (filter (\<lambda>op. part op = c) ops)"
      using assms(5) [OF that(1)] by (simp add: pointed_run_def)
    from mset_eq_setD [OF this] that(2) show ?thesis by auto
  qed
  have "filter (\<lambda>x. part (fst (snd x)) = c) (concat (map ys cs)) = (if c \<in> set cs then ys c else [])" for c
    using assms(3) mem by (intro filter_concat_component) auto
  then have part: "filter (\<lambda>x. part (fst (snd x)) = c) xs = (if c \<in> set cs then ys c else [])" for c
    using assms(5) [of c] by (simp add: xs_def filter_sort sort_key_id_if_sorted pointed_run_def)
  have set: "set xs = (\<Union>c \<in> set cs. set (ys c))" by (simp add: xs_def)
  have "legal (\<lambda>_. None) (map snd xs)"
  proof (rule legal_compose [where K = K and part = "\<lambda>x. part (fst x)" and rs = "\<lambda>_ _. None"])
    show "\<forall>x \<in> set (map snd xs). set (op_keys (op_type (fst x))) \<subseteq> K (part (fst x))"
      using assms(1) mem by (auto simp: set) blast
    show "legal (\<lambda>_. None) (filter (\<lambda>x. part (fst x) = c) (map snd xs))" for c
      using assms(5) [of c] part [of c] by (auto simp: filter_map o_def pointed_run_def)
  qed (use assms(2) in auto)
  moreover have "mset (map (fst \<circ> snd) xs) = mset ops"
  proof -
    have "mset (map (fst \<circ> snd) xs) = (\<Sum>c \<leftarrow> cs. mset (map (fst \<circ> snd) (ys c)))"
      using mset_map_concat [of "fst \<circ> snd" "map ys cs"] by (simp add: xs_def o_def)
    also have "\<dots> = (\<Sum>c \<leftarrow> cs. mset (filter (\<lambda>op. part op = c) ops))"
      using assms(5) by (intro arg_cong [where f = sum_list] map_cong) (auto simp: pointed_run_def)
    also have "\<dots> = mset ops"
      using mset_partition [OF assms(3,4)] by (simp add: mset_concat o_def)
    finally show ?thesis .
  qed
  moreover have "\<forall>x \<in> set xs. in_interval x" using assms(5) by (auto simp: set pointed_run_def)
  ultimately show ?thesis by (intro exI [of _ xs]) (simp add: pointed_run_def xs_def)
qed

subsection \<open>A key without renames\<close>

text \<open>The values a pointed sequence writes to its key.\<close>

fun written :: "u64 \<times> Operation \<times> bool \<Rightarrow> WriteEvent list" where
  "written (p, op, b) = (case op_type op of Put _ h \<Rightarrow> [(p, Some h)] | Delete _ \<Rightarrow> [(p, None)] | _ \<Rightarrow> [])"

definition register_run :: "string \<Rightarrow> WriteEvent list \<Rightarrow> Operation multiset \<Rightarrow> pointed \<Rightarrow> bool" where
  "register_run key ws M xs \<longleftrightarrow> pointed_run M xs \<and> concat (map written xs) = ws \<and>
     (\<forall>x \<in> set xs. op_key (op_type (fst (snd x))) = Some key \<and> snd (snd x))"

lemma legal_append: "legal r (xs @ ys) \<longleftrightarrow> legal r xs \<and> legal (fold exec xs r) ys"
  by (induction xs arbitrary: r) auto

lemma register_value:
  assumes "\<forall>x \<in> set xs. op_key (op_type (fst (snd x))) = Some key \<and> snd (snd x)"
  shows "fold exec (map snd xs) r key = snd (last ((t, r key) # concat (map written xs)))"
  using assms
proof (induction xs arbitrary: r t)
  case (Cons x xs)
  obtain p op b where x: "x = (p, op, b)" using prod_cases3 by blast
  have IH: "fold exec (map snd xs) r' key = snd (last ((t', r' key) # concat (map written xs)))" for r' t'
    using Cons by simp
  have e: "exec (op, True) r = effect (op_type op) r" by (simp add: exec_def)
  show ?case
  proof (cases "written x")
    case Nil
    with Cons.prems x show ?thesis
      by (cases "op_type op") (simp_all add: e IH [of _ t] del: last.simps)
  next
    case (Cons w ws)
    with Cons.prems x show ?thesis
      by (cases "op_type op") (simp_all add: e IH [of _ p] last_ConsR del: last.simps)
  qed
qed simp

text \<open>Where a read that passed the check fits.\<close>

lemma valid_position:
  assumes "found_valid inv_ts ret v ((t, w) # concat (map written xs))"
    and "sorted (map fst xs)" "\<forall>x \<in> set xs. t \<le> fst x" "inv_ts \<le> ret"
  shows "\<exists>as bs p. xs = as @ bs \<and> (\<forall>x \<in> set as. fst x \<le> p) \<and> (\<forall>x \<in> set bs. p \<le> fst x) \<and>
    t \<le> p \<and> inv_ts \<le> p \<and> p \<le> ret \<and> snd (last ((t, w) # concat (map written as))) = v"
  using assms
proof (induction xs arbitrary: t w)
  case Nil
  then show ?case by (intro exI [of _ "[]"] exI [of _ "max t inv_ts"]) (auto split: if_splits)
next
  case (Cons x xs)
  obtain p op b where x: "x = (p, op, b)" using prod_cases3 by blast
  have sorted: "sorted (map fst xs)" "\<forall>y \<in> set xs. p \<le> fst y" "t \<le> p" using Cons.prems(2,3) x by auto
  show ?case
  proof (cases "written x")
    case Nil
    with Cons.prems(1) have "found_valid inv_ts ret v ((t, w) # concat (map written xs))" by simp
    from Cons.IH [OF this sorted(1) _ Cons.prems(4)] Cons.prems(3)
    obtain as bs q where q: "xs = as @ bs" "\<forall>x \<in> set as. fst x \<le> q" "\<forall>x \<in> set bs. q \<le> fst x"
      "t \<le> q" "inv_ts \<le> q" "q \<le> ret" "snd (last ((t, w) # concat (map written as))) = v" by auto
    show ?thesis
    proof (cases "p \<le> q")
      case True
      with q Nil x show ?thesis by (intro exI [of _ "x # as"] exI [of _ bs] exI [of _ q]) auto
    next
      case False
      have "as = []" using q(1,2) sorted(2) False by (cases as) auto
      with q x False show ?thesis by (intro exI [of _ "[]"] exI [of _ "x # bs"] exI [of _ q]) auto
    qed
  next
    case (Cons e es)
    then obtain u where u: "written x = [(p, u)]" by (auto simp: x split: OpType.splits)
    show ?thesis
    proof (cases "w = v \<and> \<not> p \<le> inv_ts")
      case True
      with Cons.prems(1) u have "t \<le> ret" by (auto split: if_splits)
      with True sorted Cons.prems(4) x show ?thesis
        by (intro exI [of _ "[]"] exI [of _ "x # xs"] exI [of _ "max t inv_ts"]) fastforce
    next
      case False
      with Cons.prems(1) u have "found_valid inv_ts ret v ((p, u) # concat (map written xs))"
        by (auto split: if_splits)
      from Cons.IH [OF this sorted(1,2) Cons.prems(4)]
      obtain as bs q where q: "xs = as @ bs" "\<forall>x \<in> set as. fst x \<le> q" "\<forall>x \<in> set bs. q \<le> fst x"
        "p \<le> q" "inv_ts \<le> q" "q \<le> ret" "snd (last ((p, u) # concat (map written as))) = v" by auto
      with x u sorted(3) show ?thesis by (intro exI [of _ "x # as"] exI [of _ bs] exI [of _ q]) auto
    qed
  qed
qed

lemma insert_read:
  assumes "register_run key ws M (as @ bs)" "op_type op = Get key" "in_interval (p, op, True)"
    and "\<forall>x \<in> set as. fst x \<le> p" "\<forall>x \<in> set bs. p \<le> fst x"
    and "allowed (fold exec (map snd as) (\<lambda>_. None)) op"
  shows "register_run key ws (add_mset op M) (as @ (p, op, True) # bs)"
proof -
  have "exec (op, True) r = r" for r using assms(2) by (simp add: exec_def)
  with assms show ?thesis
    by (auto simp: register_run_def pointed_run_def legal_append sorted_append)
qed

lemma position_at:
  assumes "sorted (map fst xs)"
  obtains as bs where "xs = as @ bs" "\<forall>x \<in> set as. fst x \<le> p" "\<forall>x \<in> set bs. p \<le> fst x"
proof -
  let ?as = "takeWhile (\<lambda>x. fst x \<le> p) xs" and ?bs = "dropWhile (\<lambda>x. fst x \<le> p) xs"
  have "p \<le> fst y" if "y \<in> set ?bs" for y
  proof (cases ?bs)
    case (Cons z zs)
    then have "\<not> fst z \<le> p" by (metis hd_dropWhile list.discI list.sel(1))
    moreover have "sorted (map fst ?bs)"
      using assms by (metis map_append sorted_append takeWhile_dropWhile_id)
    ultimately show ?thesis using that Cons by auto
  next
    case Nil
    with that show ?thesis by (simp only: list.set) blast
  qed
  then show thesis by (intro that [of ?as ?bs]) (auto dest: set_takeWhileD)
qed

lemma add_read:
  assumes "register_run key ws M xs" "op_type op = Get key" "timed op" "well_typed op"
    and "\<And>v. read_value op = Some v \<Longrightarrow> found_valid (invoke_ts op) (return_ts op) v ((0, None) # ws)"
  shows "\<exists>xs'. register_run key ws (add_mset op M) xs'"
proof (cases "ambiguous op")
  case True
  have "sorted (map fst xs)" using assms(1) by (simp add: register_run_def pointed_run_def)
  then obtain as bs where ab: "xs = as @ bs" "\<forall>x \<in> set as. fst x \<le> invoke_ts op" "\<forall>x \<in> set bs. invoke_ts op \<le> fst x"
    using position_at by blast
  have "in_interval (invoke_ts op, op, True)" using assms(3) by (auto simp: in_interval_def timed_def)
  from insert_read [OF _ assms(2) this ab(2,3)] assms(1) True ab(1) show ?thesis by (auto simp: allowed_def)
next
  case False
  with assms(2,4) have "typed_result (Get key) (op_result op)" by (auto simp: well_typed_def)
  then obtain v where v: "read_value op = Some v" "\<And>r. r key = v \<Longrightarrow> observes (Get key) (op_result op) r"
    using False by (auto simp: read_value_def ambiguous_def)
  have run: "concat (map written xs) = ws" "sorted (map fst xs)"
      "\<forall>x \<in> set xs. op_key (op_type (fst (snd x))) = Some key \<and> snd (snd x)"
    using assms(1) by (auto simp: register_run_def pointed_run_def)
  have "invoke_ts op \<le> return_ts op" using False assms(3) by (auto simp: ambiguous_def timed_def)
  with valid_position [of "invoke_ts op" "return_ts op" v 0 None xs] assms(5) [OF v(1)] run
  obtain as bs p where ab: "xs = as @ bs" "\<forall>x \<in> set as. fst x \<le> p" "\<forall>x \<in> set bs. p \<le> fst x"
      "invoke_ts op \<le> p" "p \<le> return_ts op" "snd (last ((0, None) # concat (map written as))) = v"
    by auto
  have "fold exec (map snd as) (\<lambda>_. None) key = v"
    using register_value [of as key "\<lambda>_. None" 0] run(3) ab(1,6) by simp
  with v(2) assms(2) have "allowed (fold exec (map snd as) (\<lambda>_. None)) op" by (simp add: allowed_def)
  moreover have "in_interval (p, op, True)" using ab(4,5) by (simp add: in_interval_def)
  ultimately have "register_run key ws (add_mset op M) (as @ (p, op, True) # bs)"
    using insert_read assms(1,2) ab(1-3) by blast
  then show ?thesis ..
qed

lemma insort_key_map: "insort_key f (g x) (map g xs) = map g (insort_key (\<lambda>x. f (g x)) x xs)"
  by (induction xs) auto

lemma sort_key_map: "sort_key f (map g xs) = map g (sort_key (\<lambda>x. f (g x)) xs)"
  by (induction xs) (simp_all add: insort_key_map)

lemma sort_key_zero: "sort_key fst ((0 :: nat, v) # xs) = (0, v) # sort_key fst xs"
  by (cases "sort_key fst xs") simp_all

definition write_run :: "Operation list \<Rightarrow> pointed" where
  "write_run ops =
     map (\<lambda>op. (effect_ts op, op, True)) (sort_key effect_ts (filter (\<lambda>op. \<not> is_get op) (sort_key invoke_ts ops)))"

lemma register_writes_run:
  assumes "\<forall>op \<in> set ops. op_key (op_type op) = Some key"
  shows "register_writes ops = (0, None) # concat (map written (write_run ops))"
proof -
  define val where "val op = (case op_type op of Put _ h \<Rightarrow> Some h | _ \<Rightarrow> None)" for op :: Operation
  have "concat (map write_event xs) = map (\<lambda>op. (effect_ts op, val op)) (filter (\<lambda>op. \<not> is_get op) xs)"
    "concat (map written (map (\<lambda>op. (effect_ts op, op, True)) (filter (\<lambda>op. \<not> is_get op) xs))) =
       map (\<lambda>op. (effect_ts op, val op)) (filter (\<lambda>op. \<not> is_get op) xs)"
    if "\<forall>op \<in> set xs. op_key (op_type op) = Some key" for xs
    using that by (induction xs) (auto simp: is_get_def val_def split: OpType.splits)
  note ev = this(1) [of "sort_key invoke_ts ops"] and wr = this(2)
  have f: "filter (\<lambda>op. \<not> is_get op) (sort_key effect_ts (filter (\<lambda>op. \<not> is_get op) (sort_key invoke_ts ops))) =
      sort_key effect_ts (filter (\<lambda>op. \<not> is_get op) (sort_key invoke_ts ops))" by (simp add: filter_sort)
  show ?thesis
    using assms wr [of "sort_key effect_ts (filter (\<lambda>op. \<not> is_get op) (sort_key invoke_ts ops))"]
    unfolding register_writes_def sort_key_zero by (simp add: ev sort_key_map write_run_def f)
qed

text \<open>Deletes of such a key that returned \<open>NotFound\<close> are outside the claim: the check never looks at them.\<close>

definition definite_write :: "Operation \<Rightarrow> bool" where
  "definite_write op \<longleftrightarrow> (\<forall>p. op_type op = Delete p \<longrightarrow> ambiguous op \<or> op_result op = Ok)"

lemma write_run_register:
  assumes "\<forall>op \<in> set ops. op_key (op_type op) = Some key \<and> timed op \<and> well_typed op \<and> definite_write op"
  shows "register_run key (concat (map written (write_run ops))) (mset (filter (\<lambda>op. \<not> is_get op) ops)) (write_run ops)"
proof -
  have ok: "allowed r op" if "op \<in> set ops" "\<not> is_get op" for op r
  proof -
    have "op_key (op_type op) = Some key" "well_typed op" "definite_write op" using assms that(1) by auto
    with that(2) show ?thesis
      by (cases "op_type op") (auto simp: allowed_def well_typed_def definite_write_def is_get_def)
  qed
  have "legal r (map (\<lambda>op. (op, True)) xs)" if "\<forall>op \<in> set xs. op \<in> set ops \<and> \<not> is_get op" for r xs
    using that by (induction xs arbitrary: r) (auto intro: ok)
  then have "legal (\<lambda>_. None) (map snd (write_run ops))" by (simp add: write_run_def o_def)
  moreover have "\<forall>x \<in> set (write_run ops). in_interval x \<and> op_key (op_type (fst (snd x))) = Some key \<and> snd (snd x)"
    using assms by (auto simp: write_run_def in_interval_def effect_ts_def timed_def)
  moreover have "sorted (map fst (write_run ops))" by (simp add: write_run_def o_def)
  moreover have "mset (map (fst \<circ> snd) (write_run ops)) = mset (filter (\<lambda>op. \<not> is_get op) ops)"
    by (simp add: write_run_def o_def)
  ultimately show ?thesis by (simp add: register_run_def pointed_run_def)
qed

lemma check_single_register_iff:
  "check_single_register key ops = Inr () \<longleftrightarrow>
     (\<forall>r \<in> set ops. is_get r \<longrightarrow>
       (\<forall>v. read_value r = Some v \<longrightarrow> found_valid (invoke_ts r) (return_ts r) v (register_writes ops)))"
  by (auto simp: check_single_register_def Let_def split: option.splits)

lemma single_register_sound:
  assumes "check_single_register key ops = Inr ()"
    and "\<forall>op \<in> set ops. op_key (op_type op) = Some key \<and> timed op \<and> well_typed op \<and> definite_write op"
  shows "\<exists>xs. pointed_run (mset ops) xs"
proof -
  let ?ws = "concat (map written (write_run ops))" and ?reads = "filter is_get (sort_key invoke_ts ops)"
  have writes: "register_writes ops = (0, None) # ?ws" using assms(2) by (intro register_writes_run [of ops key]) simp
  have valid: "found_valid (invoke_ts r) (return_ts r) v ((0, None) # ?ws)" if "r \<in> set ?reads" "read_value r = Some v" for r v
    using assms(1) that unfolding check_single_register_iff writes by simp
  have "\<exists>xs. register_run key ?ws (mset (filter (\<lambda>op. \<not> is_get op) ops) + mset rs) xs" if "set rs \<subseteq> set ?reads" for rs
    using that
  proof (induction rs)
    case Nil
    then show ?case using write_run_register [OF assms(2)] by auto
  next
    case (Cons r rs)
    then obtain xs where xs: "register_run key ?ws (mset (filter (\<lambda>op. \<not> is_get op) ops) + mset rs) xs" by auto
    have r: "r \<in> set ops" "is_get r" using Cons.prems by auto
    then have "op_type r = Get key" "timed r" "well_typed r"
      using assms(2) by (auto simp: is_get_def split: OpType.splits)
    from add_read [OF xs this valid] Cons.prems show ?case by simp
  qed
  from this [of ?reads] obtain xs
    where "register_run key ?ws (mset (filter (\<lambda>op. \<not> is_get op) ops) + mset ?reads) xs" by auto
  moreover have "mset (filter (\<lambda>op. \<not> is_get op) ops) + mset ?reads = mset ops"
    using multiset_partition [of "mset ops" is_get] by (simp add: add.commute)
  ultimately show ?thesis by (auto simp: register_run_def)
qed

subsection \<open>The whole history\<close>

lemma by_key_fold:
  "hm_get (fold (\<lambda>op m. case op_key (op_type op) of Some k \<Rightarrow> hm_push k op m | None \<Rightarrow> m) ops m) k =
    (if filter (\<lambda>op. op_key (op_type op) = Some k) ops = [] then hm_get m k
     else Some ((case hm_get m k of Some vs \<Rightarrow> vs | None \<Rightarrow> []) @ filter (\<lambda>op. op_key (op_type op) = Some k) ops))"
proof (induction ops arbitrary: m)
  case (Cons op ops)
  then show ?case by (cases "op_key (op_type op)") (auto simp: hm_push_def)
qed simp

lemma hm_ok_by_key: "hm_ok (by_key ops)"
proof -
  have "hm_ok m \<Longrightarrow> hm_ok (fold (\<lambda>op m. case op_key (op_type op) of Some k \<Rightarrow> hm_push k op m | None \<Rightarrow> m) ops m)" for m
    by (induction ops arbitrary: m) (auto split: option.split)
  then show ?thesis by (simp add: by_key_def)
qed

lemma by_key_mem:
  "(k, l) \<in> set (by_key ops) \<longleftrightarrow> l = filter (\<lambda>op. op_key (op_type op) = Some k) ops \<and> l \<noteq> []"
  unfolding hm_ok_mem [OF hm_ok_by_key] by (auto simp: by_key_def by_key_fold)

lemma errors_single: "errors (check_single_register k ops) = [] \<longleftrightarrow> check_single_register k ops = Inr ()"
  by (simp add: check_single_register_def errors_def Let_def)

lemma errors_linked: "errors (check_rename_linked ops) = [] \<longleftrightarrow> check_rename_linked ops = Inr ()"
  by (auto simp: check_rename_linked_def errors_def Let_def split: option.splits)

lemma check_linearizability_iff:
  assumes "\<And>m. mset (perm m) = mset m"
  shows "check_linearizability perm ops = Inr () \<longleftrightarrow>
    (\<forall>(k, l) \<in> set (by_key (filter (\<lambda>op. \<not> touches_rename ops op) ops)). check_single_register k l = Inr ()) \<and>
    (filter (touches_rename ops) ops = [] \<or> check_rename_linked (filter (touches_rename ops) ops) = Inr ())"
proof -
  have "set (perm m) = set m" for m using mset_eq_setD [OF assms] .
  then show ?thesis
    by (simp add: check_linearizability_def Let_def errors_linked split_beta errors_single)
qed

definition part_of :: "Operation list \<Rightarrow> Operation \<Rightarrow> string option" where
  "part_of ops op = (if touches_rename ops op then None else op_key (op_type op))"

definition part_keys :: "Operation list \<Rightarrow> string option \<Rightarrow> string set" where
  "part_keys ops c = (case c of None \<Rightarrow> set (rename_keys ops) | Some k \<Rightarrow> {k} - set (rename_keys ops))"

lemma part_of_keys: "op \<in> set ops \<Longrightarrow> set (op_keys (op_type op)) \<subseteq> part_keys ops (part_of ops op)"
proof (cases "op_type op")
  case (Rename s d)
  moreover assume "op \<in> set ops"
  ultimately have "{s, d} \<subseteq> set (rename_keys ops)"
    unfolding rename_keys_def set_concat set_map by (intro subsetI UnionI) auto
  with Rename show ?thesis by (simp add: part_of_def part_keys_def touches_rename_def)
qed (auto simp: part_of_def part_keys_def touches_rename_def)

lemma part_of_None: "part_of ops op = None \<longleftrightarrow> touches_rename ops op"
  by (auto simp: part_of_def touches_rename_def split: option.splits)

lemma accepted_parts:
  assumes "check_linearizability perm ops = Inr ()" "\<And>m. mset (perm m) = mset m"
    and "\<forall>op \<in> set ops. timed op \<and> well_typed op \<and> (touches_rename ops op \<or> definite_write op)"
  shows "\<exists>xs. pointed_run (mset (filter (\<lambda>op. part_of ops op = c) ops)) xs"
proof (cases c)
  case None
  let ?linked = "filter (touches_rename ops) ops"
  have "?linked = [] \<or> linearizable ?linked"
    using assms rename_linked_sound [of ?linked] unfolding check_linearizability_iff [OF assms(2)] by auto
  moreover have "pointed_run {#} []" by (simp add: pointed_run_def)
  moreover have "\<forall>op \<in> set ?linked. timed op" using assms(3) by auto
  ultimately have "\<exists>xs. pointed_run (mset ?linked) xs"
    using pointed_run_exists [of ?linked] by (metis mset.simps(1))
  then show ?thesis unfolding None part_of_None .
next
  case (Some k)
  let ?simple = "filter (\<lambda>op. \<not> touches_rename ops op) ops"
  let ?l = "filter (\<lambda>op. part_of ops op = c) ops"
  have l: "?l = filter (\<lambda>op. op_key (op_type op) = Some k) ?simple"
    by (auto simp: Some part_of_def filter_filter intro!: filter_cong)
  show ?thesis
  proof (cases "?l = []")
    case True
    moreover have "pointed_run {#} []" by (simp add: pointed_run_def)
    ultimately show ?thesis by auto
  next
    case False
    then have "(k, ?l) \<in> set (by_key ?simple)" using l by (simp add: by_key_mem)
    then have "check_single_register k ?l = Inr ()"
      using assms(1) unfolding check_linearizability_iff [OF assms(2)] by blast
    moreover have "\<forall>op \<in> set ?l. op_key (op_type op) = Some k \<and> timed op \<and> well_typed op \<and> definite_write op"
      unfolding l using assms(3) by auto
    ultimately show ?thesis by (rule single_register_sound)
  qed
qed

lemma accepted_linearizable:
  assumes "check_linearizability perm ops = Inr ()" "\<And>m. mset (perm m) = mset m"
    and "\<forall>op \<in> set ops. timed op \<and> well_typed op \<and> (touches_rename ops op \<or> definite_write op)"
  shows "linearizable ops"
proof -
  obtain ys where "\<And>c. pointed_run (mset (filter (\<lambda>op. part_of ops op = c) ops)) (ys c)"
    using accepted_parts [OF assms] by metis
  then have "\<exists>xs. pointed_run (mset ops) xs"
    using part_of_keys
    by (intro pointed_compose [where K = "part_keys ops" and part = "part_of ops" and ys = ys
          and cs = "remdups (map (part_of ops) ops)"])
      (auto simp: part_keys_def split: option.splits)
  then show ?thesis using pointed_run_linearizable by blast
qed

subsection \<open>What the checker promises\<close>

text \<open>C26. On operations that renames link, the backtracking search decides linearizability exactly: for a
  history with ordered time stamps, results that fit their operations, no rename of a file onto itself and at
  most 15 failed or crashed operations, it accepts if and only if there is a sequential order of the
  operations that respects real time and explains every observed result.\<close>

theorem rename_check_exact:
  assumes "\<forall>op \<in> set ops. timed op \<and> well_typed op" "length (filter ambiguous ops) \<le> 15"
  shows "check_rename_linked ops = Inr () \<longleftrightarrow> linearizable ops"
  using rename_linked_sound rename_linked_complete assms by blast

text \<open>C27. An accepted history is linearizable as a whole: the separate checks of the keys and of the linked
  operations, in whatever order the hash map yields the keys, give one sequential order of all operations.
  The claim leaves out deletes that returned NotFound on a key that no rename touches.\<close>

theorem accepted_history_linearizable:
  assumes "check_linearizability perm ops = Inr ()" "\<And>m. mset (perm m) = mset m"
    and "\<forall>op \<in> set ops. timed op \<and> well_typed op \<and> (touches_rename ops op \<or> definite_write op)"
  shows "linearizable ops"
  using assms by (rule accepted_linearizable)

definition example_op :: "u64 \<Rightarrow> OpType \<Rightarrow> u64 \<Rightarrow> u64 \<Rightarrow> OpResult \<Rightarrow> Operation" where
  "example_op i t a b res =
     \<lparr>op_id = i, client = ''c'', op_type = t, invoke_ts = a, return_ts = b, op_result = res\<rparr>"

text \<open>A rename that moved a value, and a read of another key.\<close>

definition example_history :: "Operation list" where
  "example_history =
     [example_op 1 (Put ''a'' ''v'') 1 2 Ok, example_op 2 (Rename ''a'' ''b'') 3 4 Ok,
      example_op 3 (Get ''b'') 5 6 (GetOk ''v''), example_op 4 (Put ''c'' ''w'') 1 9 Ok]"

lemmas history_defs = example_history_def example_op_def timed_def well_typed_def ambiguous_def u64_max_def
  touches_rename_def rename_keys_def definite_write_def

lemma example_linked:
  "linearizable [example_op 1 (Put ''a'' ''v'') 1 2 Ok, example_op 2 (Rename ''a'' ''b'') 3 4 Ok,
     example_op 3 (Get ''b'') 5 6 (GetOk ''v'')]"
  unfolding linearizable_def linearization_def
  by (intro exI [of _ "[(example_op 1 (Put ''a'' ''v'') 1 2 Ok, True), (example_op 2 (Rename ''a'' ''b'') 3 4 Ok, True),
     (example_op 3 (Get ''b'') 5 6 (GetOk ''v''), True)]"])
    (simp add: example_op_def allowed_def exec_def ambiguous_def precedes_def)

theorem rename_check_exact_witness:
  "check_rename_linked [example_op 1 (Put ''a'' ''v'') 1 2 Ok, example_op 2 (Rename ''a'' ''b'') 3 4 Ok,
     example_op 3 (Get ''b'') 5 6 (GetOk ''v'')] = Inr ()"
  using example_linked by (subst rename_check_exact) (simp_all add: history_defs)

theorem accepted_history_linearizable_witness: "linearizable example_history"
proof (rule accepted_history_linearizable [of id])
  have linked: "filter (touches_rename example_history) example_history =
      [example_op 1 (Put ''a'' ''v'') 1 2 Ok, example_op 2 (Rename ''a'' ''b'') 3 4 Ok, example_op 3 (Get ''b'') 5 6 (GetOk ''v'')]"
    by (simp add: history_defs)
  have simple: "by_key (filter (\<lambda>op. \<not> touches_rename example_history op) example_history) =
      [(''c'', [example_op 4 (Put ''c'' ''w'') 1 9 Ok])]"
    by (simp add: history_defs by_key_def hm_push_def)
  have "check_rename_linked (filter (touches_rename example_history) example_history) = Inr ()"
    unfolding linked using example_linked by (rule rename_linked_complete) (simp_all add: history_defs)
  moreover have "check_single_register ''c'' [example_op 4 (Put ''c'' ''w'') 1 9 Ok] = Inr ()"
    unfolding check_single_register_iff by (simp add: example_op_def is_get_def)
  ultimately show "check_linearizability id example_history = Inr ()"
    by (subst check_linearizability_iff) (simp_all add: simple)
qed (simp_all add: history_defs)

definition long_write :: "Operation list" where
  "long_write = [example_op 1 (Put ''a'' ''v'') 1 9 Ok, example_op 2 (Get ''a'') 3 4 (GetOk ''v'')]"

definition failed_write :: "Operation list" where
  "failed_write = [example_op 1 (Put ''a'' ''v'') 1 2 Error, example_op 2 (Get ''a'') 3 4 NotFound]"

text \<open>C30. The check of a key without renames rejects linearizable histories. It fixes the effect of a write
  at the moment it returns, so a read that returns the new value before the write has returned counts as a
  violation; and it takes a failed write to have happened, so a read that finds nothing afterwards does too.\<close>

theorem register_check_rejects_linearizable:
  "linearizable long_write \<and> check_linearizability id long_write \<noteq> Inr () \<and>
   linearizable failed_write \<and> check_linearizability id failed_write \<noteq> Inr ()"
proof (intro conjI)
  show "linearizable long_write"
    unfolding linearizable_def linearization_def
    by (intro exI [of _ "[(example_op 1 (Put ''a'' ''v'') 1 9 Ok, True), (example_op 2 (Get ''a'') 3 4 (GetOk ''v''), True)]"])
      (simp add: long_write_def example_op_def allowed_def exec_def ambiguous_def precedes_def)
  show "linearizable failed_write"
    unfolding linearizable_def linearization_def
    by (intro exI [of _ "[(example_op 1 (Put ''a'' ''v'') 1 2 Error, False), (example_op 2 (Get ''a'') 3 4 NotFound, True)]"])
      (simp add: failed_write_def example_op_def allowed_def exec_def ambiguous_def precedes_def)
  have "by_key (filter (\<lambda>op. \<not> touches_rename long_write op) long_write) = [(''a'', long_write)]"
    "by_key (filter (\<lambda>op. \<not> touches_rename failed_write op) failed_write) = [(''a'', failed_write)]"
    by (simp_all add: long_write_def failed_write_def history_defs by_key_def hm_push_def)
  moreover have "check_single_register ''a'' long_write \<noteq> Inr ()" "check_single_register ''a'' failed_write \<noteq> Inr ()"
    unfolding check_single_register_iff
    by (simp_all add: long_write_def failed_write_def example_op_def is_get_def read_value_def register_writes_def effect_ts_def)
  ultimately show "check_linearizability id long_write \<noteq> Inr ()" "check_linearizability id failed_write \<noteq> Inr ()"
    by (subst check_linearizability_iff; simp)+
qed

definition lost_delete :: "Operation list" where
  "lost_delete = [example_op 1 (Put ''a'' ''v'') 1 2 Ok, example_op 2 (Delete ''a'') 3 4 NotFound]"

text \<open>C31. The check of a key without renames accepts a history that is not linearizable: a delete that
  returned NotFound although the file had been written before is not looked at.\<close>

theorem register_check_misses_delete:
  "check_linearizability id lost_delete = Inr () \<and> \<not> linearizable lost_delete"
proof (intro conjI notI)
  have "filter (touches_rename lost_delete) lost_delete = []"
    "by_key (filter (\<lambda>op. \<not> touches_rename lost_delete op) lost_delete) = [(''a'', lost_delete)]"
    by (simp_all add: lost_delete_def history_defs by_key_def hm_push_def)
  moreover have "check_single_register ''a'' lost_delete = Inr ()"
    unfolding check_single_register_iff by (simp add: lost_delete_def example_op_def is_get_def)
  ultimately show "check_linearizability id lost_delete = Inr ()"
    by (subst check_linearizability_iff) simp_all
  assume "linearizable lost_delete"
  then obtain xs where xs: "mset (map fst xs) = mset lost_delete" "sorted_wrt (\<lambda>a b. \<not> precedes b a) (map fst xs)"
      "legal (\<lambda>_. None) xs"
    by (auto simp: linearizable_def linearization_def)
  have "length xs = 2" using mset_eq_length [OF xs(1)] by (simp add: lost_delete_def)
  then obtain o1 b1 o2 b2 where "xs = [(o1, b1), (o2, b2)]" by (auto simp: numeral_2_eq_2 length_Suc_conv)
  with xs show False
    by (auto simp: lost_delete_def example_op_def allowed_def exec_def ambiguous_def precedes_def add_eq_conv_ex)
qed

end
