(* ===== verification/Workload.thy ===== *)
theory Workload
  imports History Complex_Main
begin

section \<open>The workload generator (dfs/client/src/workload.rs)\<close>

text \<open>
  What the generator records about each operation: an entry when it calls the client and one when the call
  returns. The random draws, the clock, the operation counter and the outcome of the call are arguments;
  \<open>md5_hex\<close> is the hash of the md5 crate. The entries of concurrent tasks are interleaved in the log: a log
  is any list in which the return of a call comes after its invocation.
\<close>

subsection \<open>Recording an operation\<close>

record WorkloadConfig =
  ops_per_client :: usize
  num_clients :: usize
  key_space :: usize
  rename_ratio :: rat
  history_path :: string

definition key_path :: "usize \<Rightarrow> string" where
  "key_path index =
     (if even index then ''/a/lin_'' @ string_of_nat index else ''/z/lin_'' @ string_of_nat index)"

definition do_put :: "(string \<Rightarrow> string) \<Rightarrow> string \<Rightarrow> usize \<Rightarrow> u64 \<Rightarrow> u64 \<Rightarrow> u64 \<Rightarrow> u64 \<Rightarrow> string + unit \<Rightarrow>
    HistoryEntry \<times> HistoryEntry" where
  "do_put md5_hex client_name idx opid t_data t_invoke t_return result =
     (let p = key_path idx;
          data = ''data_'' @ string_of_nat opid @ ''_'' @ string_of_nat t_data;
          data_hash = md5_hex data;
          invoke = \<lparr>entry_id = opid, entry_client = client_name, entry_type = ''invoke'', entry_op = ''put'',
                    entry_path = p, entry_src = [], entry_dst = [], entry_data_hash = data_hash,
                    entry_result = [], ts_ns = t_invoke\<rparr>
      in (invoke, invoke\<lparr>entry_type := ''return'',
            entry_result := (case result of Inr _ \<Rightarrow> ''put_ok:'' @ data_hash | Inl _ \<Rightarrow> ''error''),
            ts_ns := t_return\<rparr>))"

definition do_get :: "(string \<Rightarrow> string) \<Rightarrow> string \<Rightarrow> usize \<Rightarrow> u64 \<Rightarrow> u64 \<Rightarrow> u64 \<Rightarrow> string + string \<Rightarrow>
    HistoryEntry \<times> HistoryEntry" where
  "do_get md5_hex client_name idx opid t_invoke t_return result =
     (let invoke = \<lparr>entry_id = opid, entry_client = client_name, entry_type = ''invoke'', entry_op = ''get'',
                    entry_path = key_path idx, entry_src = [], entry_dst = [], entry_data_hash = [],
                    entry_result = [], ts_ns = t_invoke\<rparr>
      in (invoke, invoke\<lparr>entry_type := ''return'',
            entry_result := (case result of
                Inr data \<Rightarrow> ''get_ok:'' @ md5_hex data
              | Inl msg \<Rightarrow> if contains_str msg ''not found'' \<or> contains_str msg ''Not found'' \<or>
                             contains_str msg ''File not found'' then ''not_found'' else ''error''),
            ts_ns := t_return\<rparr>))"

definition failure_result :: "string + unit \<Rightarrow> string" where
  "failure_result result =
     (case result of
        Inr _ \<Rightarrow> ''ok''
      | Inl msg \<Rightarrow> if contains_str msg ''not found'' \<or> contains_str msg ''Not found'' then ''not_found'' else ''error'')"

definition do_delete :: "string \<Rightarrow> usize \<Rightarrow> u64 \<Rightarrow> u64 \<Rightarrow> u64 \<Rightarrow> string + unit \<Rightarrow> HistoryEntry \<times> HistoryEntry" where
  "do_delete client_name idx opid t_invoke t_return result =
     (let invoke = \<lparr>entry_id = opid, entry_client = client_name, entry_type = ''invoke'', entry_op = ''delete'',
                    entry_path = key_path idx, entry_src = [], entry_dst = [], entry_data_hash = [],
                    entry_result = [], ts_ns = t_invoke\<rparr>
      in (invoke, invoke\<lparr>entry_type := ''return'', entry_result := failure_result result, ts_ns := t_return\<rparr>))"

definition do_rename :: "usize \<Rightarrow> string \<Rightarrow> usize \<Rightarrow> usize \<Rightarrow> u64 \<Rightarrow> u64 \<Rightarrow> u64 \<Rightarrow> string + unit \<Rightarrow>
    HistoryEntry \<times> HistoryEntry" where
  "do_rename keys client_name src_idx dst_idx opid t_invoke t_return result =
     (let dst_idx = (if dst_idx = src_idx then (src_idx + 1) mod keys else dst_idx);
          invoke = \<lparr>entry_id = opid, entry_client = client_name, entry_type = ''invoke'', entry_op = ''rename'',
                    entry_path = [], entry_src = key_path src_idx, entry_dst = key_path dst_idx,
                    entry_data_hash = [], entry_result = [], ts_ns = t_invoke\<rparr>
      in (invoke, invoke\<lparr>entry_type := ''return'', entry_result := failure_result result, ts_ns := t_return\<rparr>))"

text \<open>One turn of a client task: the random draws, the counter and clock readings, and what the client
  returned, select and determine the two entries.\<close>

record turn =
  is_rename :: bool
  choice :: nat
  turn_idx :: usize
  turn_dst_idx :: usize
  turn_id :: u64
  t_data :: u64
  t_invoke :: u64
  t_return :: u64
  outcome :: "string + string"

definition run_turn :: "(string \<Rightarrow> string) \<Rightarrow> WorkloadConfig \<Rightarrow> string \<Rightarrow> turn \<Rightarrow> HistoryEntry \<times> HistoryEntry" where
  "run_turn md5_hex config client_name t =
     (let done = (case outcome t of Inl msg \<Rightarrow> Inl msg | Inr _ \<Rightarrow> Inr ())
      in if is_rename t
         then do_rename (key_space config) client_name (turn_idx t) (turn_dst_idx t) (turn_id t) (t_invoke t) (t_return t) done
         else if choice t = 0
         then do_put md5_hex client_name (turn_idx t) (turn_id t) (t_data t) (t_invoke t) (t_return t) done
         else if choice t = 1
         then do_get md5_hex client_name (turn_idx t) (turn_id t) (t_invoke t) (t_return t) (outcome t)
         else do_delete client_name (turn_idx t) (turn_id t) (t_invoke t) (t_return t) done)"

subsection \<open>Parsing what was recorded\<close>

text \<open>A log: an invocation has a new id, and a return follows the invocation with its id and is the first one.\<close>

definition valid_log :: "HistoryEntry list \<Rightarrow> bool" where
  "valid_log es \<longleftrightarrow> (\<forall>ps e ss. es = ps @ e # ss \<longrightarrow>
     (entry_type e = ''invoke'' \<and> (\<forall>x \<in> set ps. entry_id x \<noteq> entry_id e)) \<or>
     (entry_type e = ''return'' \<and> (\<exists>c \<in> set ps. entry_type c = ''invoke'' \<and> entry_id c = entry_id e) \<and>
        \<not> (\<exists>r \<in> set ps. entry_type r = ''return'' \<and> entry_id r = entry_id e)))"

definition entry_of :: "string \<Rightarrow> HistoryEntry list \<Rightarrow> u64 \<Rightarrow> HistoryEntry option" where
  "entry_of ty es i = find (\<lambda>e. entry_type e = ty \<and> entry_id e = i) es"

definition operation_of :: "HistoryEntry \<Rightarrow> HistoryEntry option \<Rightarrow> Operation" where
  "operation_of c r =
     \<lparr>op_id = entry_id c, client = entry_client c, op_type = projr (parse_op_type c), invoke_ts = ts_ns c,
      return_ts = (case r of Some e \<Rightarrow> ts_ns e | None \<Rightarrow> 0),
      op_result = (case r of Some e \<Rightarrow> parse_result e | None \<Rightarrow> Unknown)\<rparr>"

lemma find_snoc: "find P (xs @ [x]) = (case find P xs of Some y \<Rightarrow> Some y | None \<Rightarrow> if P x then Some x else None)"
  by (induction xs) auto

lemma entry_of_snoc:
  "entry_of ty (es @ [e]) i = (case entry_of ty es i of Some x \<Rightarrow> Some x |
     None \<Rightarrow> if entry_type e = ty \<and> entry_id e = i then Some e else None)"
  by (simp add: entry_of_def find_snoc)

lemma entry_of_None: "entry_of ty es i = None \<longleftrightarrow> (\<forall>e \<in> set es. entry_type e = ty \<longrightarrow> entry_id e \<noteq> i)"
  by (auto simp: entry_of_def find_None_iff)

lemma entry_of_Some: "entry_of ty es i = Some e \<Longrightarrow> e \<in> set es \<and> entry_type e = ty \<and> entry_id e = i"
  by (auto simp: entry_of_def find_Some_iff)

text \<open>The state of the parser after the entries \<open>ps\<close>.\<close>

definition parsed :: "HistoryEntry list \<Rightarrow> (u64, HistoryEntry) hashmap \<Rightarrow> (u64, Operation) btreemap \<Rightarrow> bool" where
  "parsed ps invokes ops \<longleftrightarrow> hm_ok invokes \<and> bt_ok ops \<and>
     (\<forall>i. hm_get invokes i = (if entry_of ''return'' ps i = None then entry_of ''invoke'' ps i else None)) \<and>
     (\<forall>i. map_of ops i = (case (entry_of ''invoke'' ps i, entry_of ''return'' ps i) of
        (Some c, Some r) \<Rightarrow> Some (operation_of c (Some r)) | _ \<Rightarrow> None))"

lemma parse_entry_parsed:
  assumes "parsed ps invokes ops" "valid_log (ps @ e # ss)" "\<forall>c \<in> set ps. \<exists>t. parse_op_type c = Inr t"
  obtains invokes' ops' where "parse_entry n e invokes ops = Inr (invokes', ops')" "parsed (ps @ [e]) invokes' ops'"
proof -
  have v: "(entry_type e = ''invoke'' \<and> (\<forall>x \<in> set ps. entry_id x \<noteq> entry_id e)) \<or>
     (entry_type e = ''return'' \<and> (\<exists>c \<in> set ps. entry_type c = ''invoke'' \<and> entry_id c = entry_id e) \<and>
        \<not> (\<exists>r \<in> set ps. entry_type r = ''return'' \<and> entry_id r = entry_id e))"
    using assms(2) unfolding valid_log_def by blast
  show thesis
  proof (cases "entry_type e = ''invoke''")
    case True
    then have "entry_of ''invoke'' ps (entry_id e) = None" "entry_of ''return'' ps (entry_id e) = None"
      using v by (auto simp: entry_of_None)
    with True assms(1) have "parsed (ps @ [e]) (hm_insert (entry_id e) e invokes) ops"
      by (auto simp: parsed_def entry_of_snoc split: option.splits)
    with True that show thesis by (simp add: parse_entry_def)
  next
    case False
    then obtain c where c: "entry_of ''invoke'' ps (entry_id e) = Some c" and r: "entry_of ''return'' ps (entry_id e) = None"
      and ty: "entry_type e = ''return''"
      using v entry_of_None [of "''invoke''" ps "entry_id e"] entry_of_None [of "''return''" ps "entry_id e"]
      by (cases "entry_of ''invoke'' ps (entry_id e)") auto
    have id: "entry_id c = entry_id e" "c \<in> set ps" using entry_of_Some [OF c] by simp_all
    then obtain t where t: "parse_op_type c = Inr t" using assms(3) by blast
    have get: "hm_get invokes (entry_id e) = Some c" using assms(1) c r by (simp add: parsed_def)
    have "parsed (ps @ [e]) (hm_remove (entry_id e) invokes) (bt_insert (entry_id c) (operation_of c (Some e)) ops)"
      using assms(1) c r ty id(1) by (auto simp: parsed_def entry_of_snoc split: option.splits)
    moreover have "parse_entry n e invokes ops =
        Inr (hm_remove (entry_id e) invokes, bt_insert (entry_id c) (operation_of c (Some e)) ops)"
      using get t ty by (simp add: parse_entry_def operation_of_def)
    ultimately show thesis using that by blast
  qed
qed

lemma parse_lines_parsed:
  assumes "parsed ps invokes ops" "valid_log (ps @ es)" "\<forall>c \<in> set (ps @ es). \<exists>t. parse_op_type c = Inr t"
    and "\<forall>e \<in> set es. from_str (to_string e) = Inr e \<and> trim (to_string e) = to_string e \<and> to_string e \<noteq> []"
  shows "\<exists>invokes' ops'. parse_lines from_str n (map (Inr \<circ> to_string) es) invokes ops = Inr (invokes', ops') \<and>
    parsed (ps @ es) invokes' ops'"
  using assms
proof (induction es arbitrary: ps invokes ops n)
  case (Cons e es)
  have ps: "\<forall>c \<in> set ps. \<exists>t. parse_op_type c = Inr t" using Cons.prems(3) by simp
  obtain invokes' ops' where step: "parse_entry n e invokes ops = Inr (invokes', ops')" "parsed (ps @ [e]) invokes' ops'"
    using parse_entry_parsed [OF Cons.prems(1,2) ps] .
  with Cons.IH [OF step(2), of "n + 1"] Cons.prems show ?case by simp
qed simp

lemma add_crashed_parsed:
  assumes "bt_ok ops" "distinct (map fst xs)" "\<forall>(i, c) \<in> set xs. entry_id c = i \<and> (\<exists>t. parse_op_type c = Inr t)"
  shows "\<exists>ops'. add_crashed xs ops = Inr ops' \<and> bt_ok ops' \<and>
    (\<forall>i. map_of ops' i = (case map_of xs i of Some c \<Rightarrow> Some (operation_of c None) | None \<Rightarrow> map_of ops i))"
  using assms
proof (induction xs arbitrary: ops)
  case (Cons x xs)
  obtain i c where x: "x = (i, c)" by fastforce
  obtain t where t: "parse_op_type c = Inr t" "entry_id c = i" using Cons.prems(3) x by auto
  let ?op = "operation_of c None"
  have "add_crashed (x # xs) ops = add_crashed xs (bt_insert i ?op ops)"
    using x t by (simp add: operation_of_def)
  moreover obtain ops' where ops': "add_crashed xs (bt_insert i ?op ops) = Inr ops'" "bt_ok ops'"
      "\<And>j. map_of ops' j = (case map_of xs j of Some c \<Rightarrow> Some (operation_of c None) | None \<Rightarrow> map_of (bt_insert i ?op ops) j)"
    using Cons.IH [of "bt_insert i ?op ops"] Cons.prems x by auto
  moreover have "map_of xs i = None" using Cons.prems(2) x by (auto simp: map_of_eq_None_iff)
  then have "map_of ops' j = (case map_of (x # xs) j of Some c \<Rightarrow> Some (operation_of c None) | None \<Rightarrow> map_of ops j)" for j
    using ops'(3) [of j] x Cons.prems(1) by (simp split: option.split)
  ultimately show ?case by simp
qed simp

lemma valid_log_fresh:
  assumes "valid_log (ps @ e # ss)" "x \<in> set ps" "entry_id x = entry_id e"
  shows "entry_type e = ''return''"
  using assms unfolding valid_log_def by blast

lemma valid_log_unique:
  assumes "valid_log es" "c \<in> set es" "d \<in> set es" "entry_id c = entry_id d"
    and "entry_type c = ''invoke''" "entry_type d = ''invoke''"
  shows "c = d"
proof (rule ccontr)
  assume "c \<noteq> d"
  obtain ps ss where es: "es = ps @ c # ss" using split_list [OF assms(2)] by blast
  show False
  proof (cases "d \<in> set ps")
    case True
    with valid_log_fresh [of ps c ss d] assms es show False by simp
  next
    case False
    with assms(3) es \<open>c \<noteq> d\<close> have "d \<in> set ss" by auto
    then obtain us vs where "ss = us @ d # vs" using split_list by fast
    with es valid_log_fresh [of "ps @ c # us" d vs c] assms show False by simp
  qed
qed

lemma entry_of_invoke:
  assumes "valid_log es" "c \<in> set es" "entry_type c = ''invoke''"
  shows "entry_of ''invoke'' es (entry_id c) = Some c"
proof (cases "entry_of ''invoke'' es (entry_id c)")
  case None
  with assms(2,3) show ?thesis unfolding entry_of_None by blast
next
  case (Some d)
  note d = entry_of_Some [OF Some]
  then have "c = d" using assms(3) by (intro valid_log_unique [OF assms(1,2)]) auto
  with Some show ?thesis by simp
qed

lemma map_of_perm:
  assumes "hm_ok m" "mset m' = mset m"
  shows "distinct (map fst m')" "map_of m' = map_of m"
proof -
  have "mset (map fst m') = mset (map fst m)" using assms(2) by simp
  then show d: "distinct (map fst m')" using assms(1) by (metis hm_ok_def mset_eq_imp_distinct_iff)
  show "map_of m' = map_of m"
    using map_of_inject_set [OF d] assms(1) mset_eq_setD [OF assms(2)] by (simp add: hm_ok_def)
qed

lemma parse_recorded:
  assumes "valid_log es" "\<forall>c \<in> set es. \<exists>t. parse_op_type c = Inr t" "\<And>m. mset (perm m) = mset m"
    and "\<forall>e \<in> set es. from_str (to_string e) = Inr e \<and> trim (to_string e) = to_string e \<and> to_string e \<noteq> []"
  shows "\<exists>ops. parse_history from_str perm (map (Inr \<circ> to_string) es) = Inr ops \<and> sorted_wrt (<) (map op_id ops) \<and>
    set ops = {operation_of c (entry_of ''return'' es (entry_id c)) |c. c \<in> set es \<and> entry_type c = ''invoke''}"
proof -
  have "parsed [] [] []" by (simp add: parsed_def entry_of_def)
  from parse_lines_parsed [OF this, of es from_str to_string 0] assms obtain invokes ops where
    lines: "parse_lines from_str 0 (map (Inr \<circ> to_string) es) [] [] = Inr (invokes, ops)" and p: "parsed es invokes ops"
    by auto
  have ok: "hm_ok invokes" "bt_ok ops" using p by (simp_all add: parsed_def)
  note perm = map_of_perm [OF ok(1) assms(3)]
  have mem: "entry_id c = i \<and> (\<exists>t. parse_op_type c = Inr t)" if "(i, c) \<in> set (perm invokes)" for i c
  proof -
    have "hm_get invokes i = Some c" using map_of_is_SomeI [OF perm(1) that] perm(2) by simp
    then have "entry_of ''invoke'' es i = Some c" using p by (auto simp: parsed_def split: if_splits)
    with assms(2) entry_of_Some show ?thesis by fastforce
  qed
  then obtain ops' where crashed: "add_crashed (perm invokes) ops = Inr ops'" "bt_ok ops'"
      "\<And>i. map_of ops' i = (case map_of (perm invokes) i of Some c \<Rightarrow> Some (operation_of c None) | None \<Rightarrow> map_of ops i)"
    using add_crashed_parsed [OF ok(2) perm(1)] by auto
  have get: "map_of ops' i = (case entry_of ''invoke'' es i of
      Some c \<Rightarrow> Some (operation_of c (entry_of ''return'' es i)) | None \<Rightarrow> None)" for i
    using p unfolding crashed(3) perm(2) by (auto simp: parsed_def split: option.splits)
  have ids: "op_id op = i" if "(i, op) \<in> set ops'" for i op
    using that get [of i] crashed(2) entry_of_Some
    by (fastforce simp: bt_ok_mem operation_of_def split: option.splits)
  then have eq: "map op_id (map snd ops') = map fst ops'" by (auto simp: map_eq_conv)
  have "sorted_wrt (<) (map op_id (map snd ops'))" unfolding eq using crashed(2) by (simp add: bt_ok_def)
  moreover have "set (map snd ops') = {operation_of c (entry_of ''return'' es (entry_id c)) |c. c \<in> set es \<and> entry_type c = ''invoke''}"
    (is "?l = ?r")
  proof (rule set_eqI)
    fix op
    have "op \<in> ?l \<longleftrightarrow> (\<exists>i. map_of ops' i = Some op)" using crashed(2) by (force simp flip: bt_ok_mem)
    also have "\<dots> \<longleftrightarrow> (\<exists>i c. entry_of ''invoke'' es i = Some c \<and> op = operation_of c (entry_of ''return'' es i))"
      unfolding get by (auto split: option.splits)
    also have "\<dots> \<longleftrightarrow> op \<in> ?r"
      using entry_of_invoke [OF assms(1)] entry_of_Some [of "''invoke''" es] by blast
    finally show "op \<in> ?l \<longleftrightarrow> op \<in> ?r" .
  qed
  ultimately show ?thesis by (intro exI [of _ "map snd ops'"]) (simp add: parse_history_def lines crashed(1))
qed

subsection \<open>What the recording promises\<close>


lemma key_path_inject [simp]: "key_path i = key_path j \<longleftrightarrow> i = j"
  by (auto simp: key_path_def)

lemmas turn_defs = run_turn_def do_put_def do_get_def do_delete_def do_rename_def Let_def

lemma run_turn_entries:
  assumes "run_turn md5_hex config n t = (c, r)"
  shows "entry_type c = ''invoke''" "entry_type r = ''return''" "entry_id c = turn_id t" "entry_id r = turn_id t"
    "ts_ns c = t_invoke t" "ts_ns r = t_return t" "\<exists>ty. parse_op_type c = Inr ty" "\<exists>ty. parse_op_type r = Inr ty"
  using assms by (auto simp: turn_defs parse_op_type_def split: if_splits)

lemma rename_draw:
  "i < n \<Longrightarrow> 2 \<le> n \<Longrightarrow> i \<noteq> (if j = i then (i + 1) mod n else j)" for n :: nat
  by (cases "i + 1 = n") auto

lemma parse_put_ok: "entry_result e = ''put_ok:'' @ h \<Longrightarrow> parse_result e = PutOk h"
  by (simp add: parse_result_def)

lemma parse_get_ok: "entry_result e = ''get_ok:'' @ h \<Longrightarrow> parse_result e = GetOk h"
  by (simp add: parse_result_def)

lemma parse_error: "entry_result e = ''error'' \<Longrightarrow> parse_result e = Error"
  by (simp add: parse_result_def)

lemma parse_not_found: "entry_result e = ''not_found'' \<Longrightarrow> parse_result e = NotFound"
  by (simp add: parse_result_def)

lemma failure_result_cases:
  assumes "entry_result e = failure_result x"
  shows "parse_result e = Ok \<or> parse_result e = NotFound \<or> parse_result e = Error"
  using assms by (cases x) (simp_all add: parse_result_def failure_result_def)

lemma run_turn_well_typed:
  assumes "run_turn md5_hex config n t = (c, r)" "2 \<le> key_space config" "turn_idx t < key_space config"
  shows "well_typed (operation_of c (Some r))" "well_typed (operation_of c None)"
proof -
  have ops: "op_type (operation_of c x) = projr (parse_op_type c)" for x by (simp add: operation_of_def)
  have ne: "s \<noteq> d" if "projr (parse_op_type c) = Rename s d" for s d
    using assms that rename_draw [of "turn_idx t" "key_space config" "turn_dst_idx t"]
    by (auto simp: turn_defs parse_op_type_def split: if_splits)
  show "well_typed (operation_of c None)"
    using ne by (auto simp: well_typed_def ambiguous_def operation_of_def)
  have "typed_result (projr (parse_op_type c)) (parse_result r) \<or> parse_result r = Error"
  proof (cases "is_rename t \<or> (choice t \<noteq> 0 \<and> choice t \<noteq> 1)")
    case True
    then obtain x where x: "entry_result r = failure_result x" and
        ty: "(\<exists>p. projr (parse_op_type c) = Delete p) \<or> (\<exists>s d. projr (parse_op_type c) = Rename s d)"
      using assms(1) by (auto simp: turn_defs parse_op_type_def split: if_splits)
    from ty failure_result_cases [OF x] show ?thesis by auto
  next
    case False
    then consider "\<not> is_rename t" "choice t = 0" | "\<not> is_rename t" "choice t = 1" by auto
    then show ?thesis
    proof cases
      case 1
      with assms(1) obtain p h where "projr (parse_op_type c) = Put p h"
          "entry_result r = ''put_ok:'' @ h \<or> entry_result r = ''error''"
        by (cases "outcome t") (auto simp: turn_defs parse_op_type_def)
      then show ?thesis using parse_put_ok parse_error by fastforce
    next
      case 2
      with assms(1) obtain p h where "projr (parse_op_type c) = Get p"
          "entry_result r = ''get_ok:'' @ h \<or> entry_result r = ''error'' \<or> entry_result r = ''not_found''"
        by (cases "outcome t") (auto simp: turn_defs parse_op_type_def split: if_splits)
      then show ?thesis using parse_get_ok parse_error parse_not_found by fastforce
    qed
  qed
  then show "well_typed (operation_of c (Some r))"
    using ne by (auto simp: well_typed_def ambiguous_def operation_of_def)
qed

text \<open>C28. Every history the workload generator can record fits the checker: with at least two keys, ids that
  are not reused and a clock that does not run backwards during a call, in whatever way the entries of
  concurrent clients are interleaved and wherever the log is cut off, it parses into operations with ordered
  times, with results of their kind, and without renames of a file onto itself.\<close>

theorem workload_history_fits:
  assumes "valid_log es" "\<And>m. mset (perm m) = mset m"
    and "\<forall>e \<in> set es. from_str (to_string e) = Inr e \<and> trim (to_string e) = to_string e \<and> to_string e \<noteq> []"
    and "\<forall>e \<in> set es. \<exists>(n, t) \<in> turns. e = fst (run_turn md5_hex config n t) \<or> e = snd (run_turn md5_hex config n t)"
    and "\<forall>x \<in> turns. \<forall>y \<in> turns. turn_id (snd x) = turn_id (snd y) \<longrightarrow> x = y" "2 \<le> key_space config"
    and "\<forall>(n, t) \<in> turns. turn_idx t < key_space config \<and> t_invoke t \<le> t_return t \<and> t_invoke t \<le> u64_max"
  shows "\<exists>ops. parse_history from_str perm (map (Inr \<circ> to_string) es) = Inr ops \<and>
    (\<forall>op \<in> set ops. timed op \<and> well_typed op)"
proof -
  have from_turn: "\<exists>n t c r. (n, t) \<in> turns \<and> run_turn md5_hex config n t = (c, r) \<and> (e = c \<or> e = r)"
    if e: "e \<in> set es" for e
  proof -
    obtain x where x: "x \<in> turns" "case x of (n, t) \<Rightarrow> e = fst (run_turn md5_hex config n t) \<or> e = snd (run_turn md5_hex config n t)"
      using bspec [OF assms(4) e] by (rule bexE)
    obtain n t where nt: "x = (n, t)" by fastforce
    obtain c r where "run_turn md5_hex config n t = (c, r)" by fastforce
    with x nt show ?thesis by (intro exI [of _ n] exI [of _ t] exI [of _ c] exI [of _ r]) auto
  qed
  have ok: "timed (operation_of c (entry_of ''return'' es (entry_id c))) \<and> well_typed (operation_of c (entry_of ''return'' es (entry_id c)))"
    if c: "c \<in> set es" "entry_type c = ''invoke''" for c
  proof -
    obtain n t c' r where t': "(n, t) \<in> turns" "run_turn md5_hex config n t = (c', r)" "c = c' \<or> c = r"
      using from_turn [OF c(1)] by blast
    then have "c = c'" using c(2) run_turn_entries(2) [OF t'(2)] by auto
    with t' have t: "(n, t) \<in> turns" "run_turn md5_hex config n t = (c, r)" by simp_all
    have "entry_of ''return'' es (entry_id c) = None \<or> entry_of ''return'' es (entry_id c) = Some r"
    proof (cases "entry_of ''return'' es (entry_id c)")
      case (Some r')
      note r' = entry_of_Some [OF Some]
      then obtain n' t' c' r'' where t': "(n', t') \<in> turns" "run_turn md5_hex config n' t' = (c', r'')" "r' = c' \<or> r' = r''"
        using from_turn by blast
      then have "r' = r''" using r' run_turn_entries(1) [OF t'(2)] by auto
      then have "turn_id t' = turn_id t" using r' run_turn_entries(3) [OF t(2)] run_turn_entries(4) [OF t'(2)] by simp
      then have "(n', t') = (n, t)" using bspec [OF bspec [OF assms(5) t'(1)] t(1)] by simp
      with t t' \<open>r' = r''\<close> Some show ?thesis by simp
    qed simp
    moreover have "timed (operation_of c (Some r))" "timed (operation_of c None)"
      using assms(7) t run_turn_entries(5,6) [OF t(2)] by (auto simp: timed_def operation_of_def)
    moreover have "turn_idx t < key_space config" using assms(7) t(1) by auto
    ultimately show ?thesis using run_turn_well_typed [OF t(2) assms(6)] by auto
  qed
  have "\<forall>e \<in> set es. \<exists>t. parse_op_type e = Inr t"
  proof
    fix e assume "e \<in> set es"
    then obtain n t c r where "run_turn md5_hex config n t = (c, r)" "e = c \<or> e = r" using from_turn by blast
    then show "\<exists>t. parse_op_type e = Inr t" using run_turn_entries(7,8) by blast
  qed
  from parse_recorded [OF assms(1) this assms(2,3)] ok show ?thesis by auto
qed

subsection \<open>Witnesses\<close>

text \<open>A read of a missing file, alone in the log.\<close>

definition example_turn :: turn where
  "example_turn = \<lparr>is_rename = False, choice = 1, turn_idx = 0, turn_dst_idx = 0, turn_id = 7, t_data = 0,
     t_invoke = 1, t_return = 2, outcome = Inl ''not found''\<rparr>"

definition example_config :: WorkloadConfig where
  "example_config = \<lparr>ops_per_client = 1, num_clients = 1, key_space = 2, rename_ratio = 0, history_path = ''h''\<rparr>"

abbreviation example_entries :: "HistoryEntry \<times> HistoryEntry" where
  "example_entries \<equiv> run_turn id example_config ''c0'' example_turn"

definition example_json :: "HistoryEntry \<Rightarrow> string" where
  "example_json e = (if entry_type e = ''invoke'' then ''i'' else ''r'')"

definition example_from_str :: "string \<Rightarrow> string + HistoryEntry" where
  "example_from_str s = Inr (if s = ''i'' then fst example_entries else snd example_entries)"

lemmas example_turn_defs = run_turn_def do_get_def example_turn_def example_config_def Let_def

lemma example_log: "valid_log [fst example_entries, snd example_entries]"
  unfolding valid_log_def by (auto simp: Cons_eq_append_conv example_turn_defs)

lemma example_encoding:
  "\<forall>e \<in> set [fst example_entries, snd example_entries].
     example_from_str (example_json e) = Inr e \<and> trim (example_json e) = example_json e \<and> example_json e \<noteq> []"
  by (simp add: example_from_str_def example_json_def example_turn_defs trim_def is_space_def of_char_def)


theorem workload_history_fits_witness:
  "\<exists>ops. parse_history example_from_str id (map (Inr \<circ> example_json) [fst example_entries, snd example_entries]) = Inr ops \<and>
     (\<forall>op \<in> set ops. timed op \<and> well_typed op)"
  using example_encoding
  by (intro workload_history_fits [OF example_log, where turns = "{(''c0'', example_turn)}" and md5_hex = id and config = example_config])
    (simp_all add: example_config_def example_turn_def u64_max_def)

end
