(* ===== verification/Program.thy ===== *)
theory Program
  imports AppState RaftNode
begin

section \<open>Request handlers as programs\<close>

text \<open>
  A request handler or background task runs beside other tasks: between two of its actions on shared data the
  data can change. A handler is therefore a tree of actions: it locks and reads or updates the state of its
  node, proposes a command to Raft and waits for the outcome, asks Raft for a read index or for information,
  calls another server, reads the clock or draws a fresh identifier. What an action returns selects the rest of
  the program; an update returns the state it found, as under one lock. \<open>run\<close> relates a program to the actions of one execution and its result, whatever the
  environment answers.
\<close>

text \<open>What becomes of a proposal: applied, refused with a hint at the leader, the reply channel dropped, or the
  channel to the Raft task closed.\<close>

datatype raft_reply = Applied | NotLeader "string option" | Dropped | ChannelClosed

datatype ('s, 'q, 'r, 'a) prog =
    Ret 'a
  | Read "'s \<Rightarrow> ('s, 'q, 'r, 'a) prog"
  | Write "'s \<Rightarrow> 's" "'s \<Rightarrow> ('s, 'q, 'r, 'a) prog"
  | Propose Command "raft_reply \<Rightarrow> ('s, 'q, 'r, 'a) prog"
  | Send Command "('s, 'q, 'r, 'a) prog"
  | ReadIndex "raft_reply \<Rightarrow> ('s, 'q, 'r, 'a) prog"
  | LeaderInfo "string option option \<Rightarrow> ('s, 'q, 'r, 'a) prog"
  | GetInfo "ClusterInfo option option \<Rightarrow> ('s, 'q, 'r, 'a) prog"
  | Call string 'q "'r option \<Rightarrow> ('s, 'q, 'r, 'a) prog"
  | Clock "u64 \<Rightarrow> ('s, 'q, 'r, 'a) prog"
  | Uuid "string \<Rightarrow> ('s, 'q, 'r, 'a) prog"

datatype ('s, 'q, 'r) action =
    DidRead 's
  | DidWrite 's "'s \<Rightarrow> 's"
  | DidPropose Command raft_reply
  | DidSend Command
  | DidReadIndex raft_reply
  | DidCall string 'q "'r option"
  | DidOther

inductive run :: "('s, 'q, 'r, 'a) prog \<Rightarrow> ('s, 'q, 'r) action list \<Rightarrow> 'a \<Rightarrow> bool" where
  run_Ret: "run (Ret a) [] a"
| run_Read: "run (k s) tr a \<Longrightarrow> run (Read k) (DidRead s # tr) a"
| run_Write: "run (k s) tr a \<Longrightarrow> run (Write f k) (DidWrite s f # tr) a"
| run_Propose: "run (k x) tr a \<Longrightarrow> run (Propose c k) (DidPropose c x # tr) a"
| run_Send: "run p tr a \<Longrightarrow> run (Send c p) (DidSend c # tr) a"
| run_ReadIndex: "run (k x) tr a \<Longrightarrow> run (ReadIndex k) (DidReadIndex x # tr) a"
| run_LeaderInfo: "run (k l) tr a \<Longrightarrow> run (LeaderInfo k) (DidOther # tr) a"
| run_GetInfo: "run (k i) tr a \<Longrightarrow> run (GetInfo k) (DidOther # tr) a"
| run_Call: "run (k y) tr a \<Longrightarrow> run (Call addr q k) (DidCall addr q y # tr) a"
| run_Clock: "run (k t) tr a \<Longrightarrow> run (Clock k) (DidOther # tr) a"
| run_Uuid: "run (k u) tr a \<Longrightarrow> run (Uuid k) (DidOther # tr) a"

inductive_simps run_simps [simp]:
  "run (Ret x) tr a" "run (Read k) tr a" "run (Write f k) tr a" "run (Propose c k) tr a" "run (Send c p) tr a"
  "run (ReadIndex k) tr a" "run (LeaderInfo k) tr a" "run (GetInfo k) tr a" "run (Call addr q k) tr a"
  "run (Clock k) tr a" "run (Uuid k) tr a"

fun proposed :: "('s, 'q, 'r) action \<Rightarrow> Command list" where
  "proposed (DidPropose c x) = [c]"
| "proposed (DidSend c) = [c]"
| "proposed _ = []"

text \<open>A loop over a list whose body decides how to go on.\<close>

fun for_each :: "'x list \<Rightarrow> ('x \<Rightarrow> ('s, 'q, 'r, 'a) prog \<Rightarrow> ('s, 'q, 'r, 'a) prog) \<Rightarrow> ('s, 'q, 'r, 'a) prog \<Rightarrow>
    ('s, 'q, 'r, 'a) prog" where
  "for_each [] body k = k"
| "for_each (x # xs) body k = body x (for_each xs body k)"

subsection \<open>Errors and addresses\<close>

datatype Status =
    Internal string
  | OutOfRange string
  | Unavailable string
  | StatusNotFound string
  | FailedPrecondition string
  | DataLoss string

definition unwrap_or_default :: "string option \<Rightarrow> string" where
  "unwrap_or_default x = (case x of Some s \<Rightarrow> s | None \<Rightarrow> [])"

text \<open>The two ways the code completes an address.\<close>

definition with_scheme :: "string \<Rightarrow> string" where
  "with_scheme peer = (if starts_with peer ''http://'' then peer else ''http://'' @ peer)"

definition with_http :: "string \<Rightarrow> string" where
  "with_http peer = (if starts_with peer ''http'' then peer else ''http://'' @ peer)"

end
