(* ===== verification/MasterRpc.thy ===== *)
theory MasterRpc
  imports Program Placement
begin

section \<open>The request handlers of a master (dfs/metaserver/src/master.rs)\<close>

text \<open>
  The throughput monitor and the handlers of \<open>MasterService\<close> apart from cross-shard transactions. A handler is
  a program over the state of its node; its result is a response or a status. \<open>crc\<close> is the hash of the
  consistent-hash strategy and \<open>perm\<close> the iteration order of the rack map.
\<close>

text \<open>Addition of \<open>i32\<close> values wraps, and a cast to \<open>usize\<close> extends the sign.\<close>

definition i32_add :: "i32 \<Rightarrow> i32 \<Rightarrow> i32" where
  "i32_add a b = (a + b + 2 ^ 31) mod 2 ^ 32 - 2 ^ 31"

definition i32_as_usize :: "i32 \<Rightarrow> usize" where
  "i32_as_usize a = nat (a mod 2 ^ 64)"

subsection \<open>Throughput monitor\<close>

record PrefixMetrics =
  rps :: rat
  bps :: rat
  last_count :: u64
  last_bytes :: u64

record ThroughputMonitor =
  metrics :: "(string, PrefixMetrics) hashmap"
  split_threshold_rps :: rat
  merge_threshold_rps :: rat
  split_cooldown_secs :: u64
  last_split_time :: int

text \<open>Instants are milliseconds.\<close>

definition ThroughputMonitor_new :: "int \<Rightarrow> rat \<Rightarrow> rat \<Rightarrow> u64 \<Rightarrow> ThroughputMonitor" where
  "ThroughputMonitor_new now split_threshold merge_threshold cooldown =
     \<lparr>metrics = [], split_threshold_rps = split_threshold, merge_threshold_rps = merge_threshold,
      split_cooldown_secs = cooldown, last_split_time = now - 1000 * int cooldown\<rparr>"

text \<open>\<open>split('/')\<close>.\<close>

fun split_slash :: "string \<Rightarrow> string list" where
  "split_slash [] = [[]]"
| "split_slash (c # cs) =
     (if c = CHR ''/'' then [] # split_slash cs
      else case split_slash cs of w # ws \<Rightarrow> (c # w) # ws | [] \<Rightarrow> [[c]])"

definition get_path_prefix :: "string \<Rightarrow> string" where
  "get_path_prefix p =
     (let parts = filter (\<lambda>s. s \<noteq> []) (split_slash p)
      in if parts \<noteq> [] then ''/'' @ parts ! 0 @ ''/'' else ''/'')"

definition record_request :: "string \<Rightarrow> u64 \<Rightarrow> ThroughputMonitor \<Rightarrow> ThroughputMonitor" where
  "record_request p bytes m =
     (let prefix = get_path_prefix p;
          entry = (case hm_get (metrics m) prefix of
                     Some e \<Rightarrow> e | None \<Rightarrow> \<lparr>rps = 0, bps = 0, last_count = 0, last_bytes = 0\<rparr>)
      in m\<lparr>metrics := hm_insert prefix
              (entry\<lparr>last_count := last_count entry + 1, last_bytes := last_bytes entry + bytes\<rparr>) (metrics m)\<rparr>)"

definition decay_entry :: "PrefixMetrics \<Rightarrow> PrefixMetrics" where
  "decay_entry m =
     m\<lparr>rps := rps m * (3 / 10) + of_nat (last_count m) / 5 * (7 / 10),
       bps := bps m * (3 / 10) + of_nat (last_bytes m) / 5 * (7 / 10), last_count := 0, last_bytes := 0\<rparr>"

definition decay_metrics :: "ThroughputMonitor \<Rightarrow> ThroughputMonitor" where
  "decay_metrics m = m\<lparr>metrics := map (\<lambda>(p, e). (p, decay_entry e)) (metrics m)\<rparr>"

subsection \<open>The node\<close>

record MasterConfig =
  cfg_shard_id :: string
  cfg_config_server_addrs :: "string list"
  cfg_master_address :: string
  cfg_split_threshold_rps :: rat
  cfg_split_cooldown_secs :: u64
  cfg_merge_threshold_rps :: rat
  cfg_ca_cert_path :: "string option"
  cfg_domain_name :: "string option"
  cold_threshold_secs :: u64
  ec_threshold_secs :: u64

record MyMaster =
  my_state :: AppState
  my_shard_map :: ShardMap
  my_shard_id :: string
  my_monitor :: ThroughputMonitor
  my_config :: MasterConfig
  my_term :: u64

definition MyMaster_new :: "int \<Rightarrow> AppState \<Rightarrow> ShardMap \<Rightarrow> MasterConfig \<Rightarrow> MyMaster" where
  "MyMaster_new now st m config =
     \<lparr>my_state = st, my_shard_map = m, my_shard_id = cfg_shard_id config,
      my_monitor = ThroughputMonitor_new now (cfg_split_threshold_rps config) (cfg_merge_threshold_rps config)
        (cfg_split_cooldown_secs config),
      my_config = config, my_term = 0\<rparr>"

text \<open>The body of \<open>run_term_updater\<close>.\<close>

definition update_term :: "(MyMaster, 'q, 'r, unit) prog" where
  "update_term = GetInfo (\<lambda>reply.
     case reply of
       Some (Some info) \<Rightarrow> Write (\<lambda>n. n\<lparr>my_term := ci_current_term info\<rparr>) (\<lambda>_. Ret ())
     | _ \<Rightarrow> Ret ())"

definition on_master :: "(MasterState \<Rightarrow> MasterState) \<Rightarrow> MyMaster \<Rightarrow> MyMaster" where
  "on_master f n = (case my_state n of MasterApp s \<Rightarrow> n\<lparr>my_state := MasterApp (f s)\<rparr> | ConfigApp _ \<Rightarrow> n)"

type_synonym ('q, 'r, 'a) handler = "(MyMaster, 'q, 'r, Status + 'a) prog"

record Ack =
  success :: bool
  error_message :: string
  leader_hint :: string

definition ack_ok :: Ack where
  "ack_ok = \<lparr>success = True, error_message = [], leader_hint = []\<rparr>"

definition ack_error :: "string \<Rightarrow> Ack" where
  "ack_error msg = \<lparr>success = False, error_message = msg, leader_hint = []\<rparr>"

definition ack_not_leader :: "string option \<Rightarrow> Ack" where
  "ack_not_leader leader_opt =
     \<lparr>success = False, error_message = ''Not Leader'', leader_hint = unwrap_or_default leader_opt\<rparr>"

text \<open>Propose a command and turn the outcome into a response.\<close>

definition propose_ack :: "string \<Rightarrow> Command \<Rightarrow> ('s, 'q, 'r, Status + Ack) prog" where
  "propose_ack dropped c = Propose c (\<lambda>reply.
     case reply of
       Applied \<Rightarrow> Ret (Inr ack_ok)
     | NotLeader leader_opt \<Rightarrow> Ret (Inr (ack_not_leader leader_opt))
     | Dropped \<Rightarrow> Ret (Inl (Internal dropped))
     | ChannelClosed \<Rightarrow> Ret (Inl (Internal ''Raft channel closed'')))"

definition ensure_linearizable_read :: "('q, 'r, 'a) handler \<Rightarrow> ('q, 'r, 'a) handler" where
  "ensure_linearizable_read k = ReadIndex (\<lambda>reply.
     case reply of
       Applied \<Rightarrow> k
     | NotLeader (Some hint) \<Rightarrow> Ret (Inl (FailedPrecondition (''Not Leader|'' @ hint)))
     | NotLeader None \<Rightarrow> Ret (Inl (FailedPrecondition ''Not Leader''))
     | Dropped \<Rightarrow> Ret (Inl (Internal ''Raft node shutdown''))
     | ChannelClosed \<Rightarrow> Ret (Inl (Internal ''Failed to send to Raft node: channel closed'')))"

definition check_shard_ownership :: "crc_fn \<Rightarrow> string \<Rightarrow> ('q, 'r, 'a) handler \<Rightarrow> ('q, 'r, 'a) handler" where
  "check_shard_ownership crc p k = Read (\<lambda>n.
     case get_shard crc p (my_shard_map n) of
       Some target_shard \<Rightarrow>
         if target_shard \<noteq> my_shard_id n
         then let target_peers = (case get_shard_peers target_shard (my_shard_map n) of Some ps \<Rightarrow> ps | None \<Rightarrow> []);
                  hint = (case target_peers of x # _ \<Rightarrow> x | [] \<Rightarrow> [])
              in Ret (Inl (OutOfRange (''REDIRECT:'' @ hint)))
         else k
     | None \<Rightarrow> k)"

definition check_safe_mode :: "('q, 'r, 'a) handler \<Rightarrow> ('q, 'r, 'a) handler" where
  "check_safe_mode k = Read (\<lambda>n.
     case my_state n of
       MasterApp s \<Rightarrow>
         if is_in_safe_mode s
         then Ret (Inl (Unavailable ''Cluster is in Safe Mode. Write operations are blocked.''))
         else k
     | ConfigApp _ \<Rightarrow> k)"

definition monitor_request :: "string \<Rightarrow> u64 \<Rightarrow> (MyMaster, 'q, 'r, 'a) prog \<Rightarrow> (MyMaster, 'q, 'r, 'a) prog" where
  "monitor_request p bytes k = Write (\<lambda>n. n\<lparr>my_monitor := record_request p bytes (my_monitor n)\<rparr>) (\<lambda>_. k)"

subsection \<open>Files\<close>

definition get_file_info :: "crc_fn \<Rightarrow> string \<Rightarrow> ('q, 'r, FileMetadata option) handler" where
  "get_file_info crc p =
     monitor_request p 0
       (Clock (\<lambda>now_ms. Send (MasterCmd (UpdateAccessStats p now_ms))
         (check_shard_ownership crc p
           (ensure_linearizable_read
             (Read (\<lambda>n. case my_state n of
                MasterApp s \<Rightarrow> Ret (Inr (hm_get (files s) p))
              | ConfigApp _ \<Rightarrow> Ret (Inl (Internal ''Invalid state'')))))))) "

definition create_file :: "crc_fn \<Rightarrow> string \<Rightarrow> i32 \<Rightarrow> i32 \<Rightarrow> ('q, 'r, Ack) handler" where
  "create_file crc p ec_data ec_parity =
     monitor_request p 0
       (check_shard_ownership crc p
         (check_safe_mode
           (Read (\<lambda>n.
              let go = propose_ack ''Raft response error'' (MasterCmd (CreateFile p ec_data ec_parity))
              in case my_state n of
                   MasterApp s \<Rightarrow> if hm_contains p (files s) then Ret (Inr (ack_error ''File already exists'')) else go
                 | ConfigApp _ \<Rightarrow> go))))"

definition delete_file :: "crc_fn \<Rightarrow> string \<Rightarrow> ('q, 'r, Ack) handler" where
  "delete_file crc p =
     monitor_request p 0
       (check_shard_ownership crc p
         (check_safe_mode
           (Read (\<lambda>n.
              let go = propose_ack ''Raft response error'' (MasterCmd (DeleteFile p))
              in case my_state n of
                   MasterApp s \<Rightarrow> if \<not> hm_contains p (files s) then Ret (Inr (ack_error ''File not found'')) else go
                 | ConfigApp _ \<Rightarrow> go))))"

record AllocateBlockResponse =
  resp_block :: "BlockInfo option"
  chunk_server_addresses :: "string list"
  alloc_leader_hint :: string
  resp_ec_data_shards :: i32
  resp_ec_parity_shards :: i32
  resp_master_term :: u64

text \<open>The choice of servers under the lock: an error, or the servers and the policy of the file.\<close>

definition plan_allocation :: "((string, server list) hashmap \<Rightarrow> (string, server list) hashmap) \<Rightarrow> string \<Rightarrow> AppState \<Rightarrow>
    Status + string list \<times> i32 \<times> i32" where
  "plan_allocation perm p st =
     (case st of
        MasterApp s \<Rightarrow>
          (case hm_get (files s) p of
             None \<Rightarrow> Inl (StatusNotFound ''File not found'')
           | Some file_meta \<Rightarrow>
               (let ec_data = ec_data_shards file_meta;
                    ec_parity = ec_parity_shards file_meta;
                    candidates = chunk_servers s;
                    total = i32_as_usize (i32_add ec_data ec_parity)
                in if 0 < ec_data \<and> 0 < ec_parity \<and> length candidates < total
                   then Inl (Unavailable (''Need '' @ string_of_nat total @ '' chunk servers for EC('' @
                          string_of_nat (nat ec_data) @ '','' @ string_of_nat (nat ec_parity) @ ''), only '' @
                          string_of_nat (length candidates) @ '' available''))
                   else let needed = (if 0 < ec_data \<and> 0 < ec_parity then total
                                      else min DEFAULT_REPLICATION_FACTOR (length candidates))
                        in if needed = 0 then Inl (Unavailable ''No chunk servers available'')
                           else Inr (select_servers_rack_aware perm candidates needed, ec_data, ec_parity)))
      | ConfigApp _ \<Rightarrow> Inl (Internal ''Wrong state type''))"

definition new_block :: "string \<Rightarrow> string list \<Rightarrow> i32 \<Rightarrow> i32 \<Rightarrow> BlockInfo" where
  "new_block bid locs ec_data ec_parity =
     \<lparr>block_id = bid, block_size = 0, locations = locs, checksum_crc32c = 0, block_ec_data_shards = ec_data,
      block_ec_parity_shards = ec_parity, original_size = 0\<rparr>"

text \<open>The term of the response is loaded after the proposal is sent and before its outcome is known.\<close>

definition allocate_block :: "crc_fn \<Rightarrow> ((string, server list) hashmap \<Rightarrow> (string, server list) hashmap) \<Rightarrow> string \<Rightarrow>
    ('q, 'r, AllocateBlockResponse) handler" where
  "allocate_block crc perm p =
     monitor_request p 0
       (check_shard_ownership crc p
         (check_safe_mode
           (Read (\<lambda>n.
              case plan_allocation perm p (my_state n) of
                Inl err \<Rightarrow> Ret (Inl err)
              | Inr (selected, ec_data, ec_parity) \<Rightarrow> Uuid (\<lambda>bid. Read (\<lambda>n'.
                  Propose (MasterCmd (AllocateBlock p bid selected)) (\<lambda>reply.
                    case reply of
                      ChannelClosed \<Rightarrow> Ret (Inl (Internal ''Raft channel closed''))
                    | Dropped \<Rightarrow> Ret (Inl (Internal ''Raft response error''))
                    | NotLeader leader_opt \<Rightarrow>
                        Ret (Inr \<lparr>resp_block = None, chunk_server_addresses = [],
                                  alloc_leader_hint = unwrap_or_default leader_opt, resp_ec_data_shards = 0,
                                  resp_ec_parity_shards = 0, resp_master_term = 0\<rparr>)
                    | Applied \<Rightarrow>
                        Ret (Inr \<lparr>resp_block = Some (new_block bid selected ec_data ec_parity),
                                  chunk_server_addresses = selected, alloc_leader_hint = [],
                                  resp_ec_data_shards = ec_data, resp_ec_parity_shards = ec_parity,
                                  resp_master_term = my_term n'\<rparr>))))))))"

definition complete_file :: "crc_fn \<Rightarrow> string \<Rightarrow> u64 \<Rightarrow> string \<Rightarrow> u64 \<Rightarrow> BlockChecksumInfo list \<Rightarrow>
    ('q, 'r, bool) handler" where
  "complete_file crc p sz etag created checksums =
     check_shard_ownership crc p
       (Propose (MasterCmd (CompleteFile p sz (if etag = [] then None else Some etag)
           (if created = 0 then None else Some created) checksums)) (\<lambda>reply.
          case reply of
            Applied \<Rightarrow> Ret (Inr True)
          | NotLeader _ \<Rightarrow> Ret (Inr False)
          | Dropped \<Rightarrow> Ret (Inl (Internal ''Raft response error''))
          | ChannelClosed \<Rightarrow> Ret (Inl (Internal ''Raft channel closed''))))"

definition list_files :: "string \<Rightarrow> ('q, 'r, string list) handler" where
  "list_files pre =
     ensure_linearizable_read
       (Read (\<lambda>n. case my_state n of
          MasterApp s \<Rightarrow>
            Ret (Inr (if pre = [] then hm_keys (files s)
                      else filter (\<lambda>k. starts_with k pre) (hm_keys (files s))))
        | ConfigApp _ \<Rightarrow> Ret (Inl (Internal ''Invalid state''))))"

definition get_block_locations :: "string \<Rightarrow> ('q, 'r, string list option) handler" where
  "get_block_locations bid =
     ensure_linearizable_read
       (Read (\<lambda>n. case my_state n of
          MasterApp s \<Rightarrow>
            Ret (Inr (map_option locations
              (find (\<lambda>b. block_id b = bid) (concat (map blocks (hm_values (files s)))))))
        | ConfigApp _ \<Rightarrow> Ret (Inr None)))"

subsection \<open>Chunk servers\<close>

definition register_chunk_server :: "string \<Rightarrow> u64 \<Rightarrow> string \<Rightarrow> ('q, 'r, bool) handler" where
  "register_chunk_server addr capacity rack =
     Clock (\<lambda>now.
       Write (on_master (\<lambda>s. s\<lparr>chunk_servers := hm_insert addr
           \<lparr>last_heartbeat = now, used_space = 0, available_space = capacity, chunk_count = 0, rack_id = rack\<rparr>
           (chunk_servers s)\<rparr>))
         (\<lambda>_. Ret (Inr True)))"

record HeartbeatRequest =
  hb_address :: string
  hb_used_space :: u64
  hb_available_space :: u64
  hb_chunk_count :: u64
  hb_bad_blocks :: "string list"
  hb_rack_id :: string

record HeartbeatResponse =
  hb_success :: bool
  hb_commands :: "ChunkServerCommand list"
  hb_master_term :: u64

definition record_server :: "u64 \<Rightarrow> HeartbeatRequest \<Rightarrow> MasterState \<Rightarrow> MasterState" where
  "record_server now req s =
     (let addr = hb_address req;
          rack = (if hb_rack_id req \<noteq> [] then hb_rack_id req
                  else case hm_get (chunk_servers s) addr of Some st \<Rightarrow> rack_id st | None \<Rightarrow> [])
      in s\<lparr>chunk_servers := hm_insert addr
            \<lparr>last_heartbeat = now, used_space = hb_used_space req, available_space = hb_available_space req,
             chunk_count = hb_chunk_count req, rack_id = rack\<rparr> (chunk_servers s)\<rparr>)"

definition report_bad_block :: "string \<Rightarrow> string \<Rightarrow> MasterState \<Rightarrow> MasterState" where
  "report_bad_block addr bid s =
     s\<lparr>bad_block_locations := hm_insert bid
         (hs_insert addr (case hm_get (bad_block_locations s) bid of Some h \<Rightarrow> h | None \<Rightarrow> []))
         (bad_block_locations s)\<rparr>"

text \<open>The update of the state under the lock before the pending commands are taken; the clock is read three
  times.\<close>

definition heartbeat_state :: "u64 \<Rightarrow> u64 \<Rightarrow> u64 \<Rightarrow> HeartbeatRequest \<Rightarrow> MasterState \<Rightarrow> MasterState" where
  "heartbeat_state now now2 now3 req s =
     (let is_new_chunkserver = (\<not> hm_contains (hb_address req) (chunk_servers s));
          s = record_server now req s;
          s = (if is_in_safe_mode s \<and> is_new_chunkserver
               then update_reported_blocks now2 (hb_chunk_count req) s else s);
          s = (if is_in_safe_mode s \<and> should_exit_safe_mode now3 s then exit_safe_mode s else s)
      in if hb_bad_blocks req \<noteq> []
         then heal_under_replicated_blocks (fold (report_bad_block (hb_address req)) (hb_bad_blocks req) s)
         else s)"

definition take_commands :: "string \<Rightarrow> MasterState \<Rightarrow> MasterState" where
  "take_commands addr s = s\<lparr>pending_commands := hm_remove addr (pending_commands s)\<rparr>"

definition heartbeat :: "HeartbeatRequest \<Rightarrow> ('q, 'r, HeartbeatResponse) handler" where
  "heartbeat req =
     Clock (\<lambda>now. Clock (\<lambda>now2. Clock (\<lambda>now3.
       Write (on_master (\<lambda>s. take_commands (hb_address req) (heartbeat_state now now2 now3 req s)))
         (\<lambda>n. case my_state n of
            MasterApp s \<Rightarrow>
              Ret (Inr \<lparr>hb_success = True,
                        hb_commands = pending_for (pending_commands (heartbeat_state now now2 now3 req s)) (hb_address req),
                        hb_master_term = my_term n\<rparr>)
          | ConfigApp _ \<Rightarrow> Ret (Inr \<lparr>hb_success = False, hb_commands = [], hb_master_term = 0\<rparr>)))))"

subsection \<open>Safe mode\<close>

record SafeModeStatus =
  st_is_safe_mode :: bool
  st_is_manual :: bool
  st_chunk_server_count :: u32
  st_expected_blocks :: u32
  st_reported_blocks :: u32
  st_threshold :: rat
  st_entered_at :: u64

definition get_safe_mode_status :: "('q, 'r, SafeModeStatus) handler" where
  "get_safe_mode_status =
     ensure_linearizable_read
       (Read (\<lambda>n. case my_state n of
          MasterApp s \<Rightarrow>
            Ret (Inr \<lparr>st_is_safe_mode = safe_mode s, st_is_manual = safe_mode_manual s,
                      st_chunk_server_count = length (chunk_servers s) mod 2 ^ 32,
                      st_expected_blocks = expected_block_count s mod 2 ^ 32,
                      st_reported_blocks = reported_block_count s mod 2 ^ 32,
                      st_threshold = safe_mode_threshold s, st_entered_at = safe_mode_entered_at s\<rparr>)
        | ConfigApp _ \<Rightarrow> Ret (Inl (Internal ''Wrong state type''))))"

definition set_safe_mode :: "bool \<Rightarrow> ('q, 'r, bool) handler" where
  "set_safe_mode enter =
     Clock (\<lambda>now.
       Write (on_master (if enter then force_enter_safe_mode now else force_exit_safe_mode))
         (\<lambda>n. case my_state n of
            MasterApp _ \<Rightarrow> Ret (Inr enter)
          | ConfigApp _ \<Rightarrow> Ret (Inl (Internal ''Wrong state type''))))"

subsection \<open>Raft membership\<close>

definition add_raft_server :: "u32 \<Rightarrow> string \<Rightarrow> ('q, 'r, Ack) handler" where
  "add_raft_server sid addr = propose_ack ''Raft response error'' (Membership (AddServer sid addr))"

definition remove_raft_server :: "u32 \<Rightarrow> ('q, 'r, Ack) handler" where
  "remove_raft_server sid = GetInfo (\<lambda>reply.
     case reply of
       None \<Rightarrow> Ret (Inl (Internal ''Raft channel closed''))
     | Some None \<Rightarrow> Ret (Inl (Internal ''Failed to get cluster info''))
     | Some (Some info) \<Rightarrow>
         if ci_role info \<noteq> Leader
         then LeaderInfo (\<lambda>l. Ret (Inr (ack_not_leader (case l of Some hint \<Rightarrow> hint | None \<Rightarrow> None))))
         else if length (ci_peers info) + 1 \<le> 1
         then Ret (Inr (ack_error ''Cannot remove server: would leave cluster empty''))
         else propose_ack ''Raft response error'' (Membership (RemoveServer sid)))"

record ClusterMember =
  cm_server_id :: u32
  cm_address :: string
  cm_is_self :: bool

record GetClusterInfoResponse =
  gi_node_id :: u32
  gi_role :: string
  gi_current_term :: u64
  gi_leader_id :: u32
  gi_leader_address :: string
  gi_members :: "ClusterMember list"
  gi_commit_index :: u64
  gi_last_applied :: u64

definition role_str :: "Role \<Rightarrow> string" where
  "role_str r = (case r of Leader \<Rightarrow> ''Leader'' | Follower \<Rightarrow> ''Follower'' | Candidate \<Rightarrow> ''Candidate'')"

definition get_cluster_info :: "('q, 'r, GetClusterInfoResponse) handler" where
  "get_cluster_info = GetInfo (\<lambda>reply.
     case reply of
       None \<Rightarrow> Ret (Inl (Internal ''Raft channel closed''))
     | Some None \<Rightarrow> Ret (Inl (Internal ''Failed to get cluster info''))
     | Some (Some info) \<Rightarrow>
         Ret (Inr \<lparr>gi_node_id = ci_node_id info mod 2 ^ 32, gi_role = role_str (ci_role info),
                   gi_current_term = ci_current_term info,
                   gi_leader_id = (case ci_leader_id info of Some i \<Rightarrow> i mod 2 ^ 32 | None \<Rightarrow> 0),
                   gi_leader_address = unwrap_or_default (ci_leader_address info),
                   gi_members = map (\<lambda>(i, a). \<lparr>cm_server_id = i mod 2 ^ 32, cm_address = a, cm_is_self = False\<rparr>)
                     (enumerate 0 (ci_peers info)),
                   gi_commit_index = ci_commit_index info, gi_last_applied = ci_last_applied info\<rparr>))"

subsection \<open>Migration of metadata\<close>

text \<open>\<open>path[..pos + 1]\<close> for the position of the last slash.\<close>

definition parent_prefix :: "string \<Rightarrow> string option" where
  "parent_prefix p = (let d = rev (dropWhile (\<lambda>c. c \<noteq> CHR ''/'') (rev p)) in if d = [] then None else Some d)"

definition ingest_metadata :: "FileMetadata list \<Rightarrow> ('q, 'r, Ack) handler" where
  "ingest_metadata fs =
     (let shuffle_prefix = (case fs of [] \<Rightarrow> None | f # _ \<Rightarrow> parent_prefix (path f))
      in Propose (MasterCmd (IngestBatch fs)) (\<lambda>reply.
           case reply of
             Applied \<Rightarrow>
               (case shuffle_prefix of
                  Some pre \<Rightarrow> Send (MasterCmd (TriggerShuffle pre)) (Ret (Inr ack_ok))
                | None \<Rightarrow> Ret (Inr ack_ok))
           | NotLeader hint \<Rightarrow> Ret (Inr (ack_not_leader hint))
           | Dropped \<Rightarrow> Ret (Inl (Internal ''Internal error''))
           | ChannelClosed \<Rightarrow> Ret (Inl (Internal ''Raft channel closed''))))"

definition initiate_shuffle :: "crc_fn \<Rightarrow> string \<Rightarrow> ('q, 'r, Ack) handler" where
  "initiate_shuffle crc pre =
     check_shard_ownership crc pre
       (check_safe_mode (propose_ack ''Internal error'' (MasterCmd (TriggerShuffle pre))))"

end
