(* ===== verification/TwoPhase.thy ===== *)
theory TwoPhase
  imports MasterRpc
begin

section \<open>Cross-shard renames (dfs/metaserver/src/master.rs)\<close>

text \<open>
  The two-phase commit of a rename between shards: the coordinator in \<open>rename\<close>, the handlers of the
  participant, and one pass of the two background tasks that finish what a crash or a lost message left behind.
  \<open>rpc\<close> holds the requests a master sends to other servers and \<open>rpc_reply\<close> their responses; a request that
  changes the configuration has the fields of its command.
\<close>

datatype rpc =
    PrepareTransaction string string "FileMetadata option" string
  | CommitTransaction string
  | AbortTransaction string
  | InquireTransaction string
  | IngestMetadata "FileMetadata list"
  | FetchShardMap
  | ConfigRequest ConfigCommand

datatype rpc_reply =
    AckReply Ack
  | InquireReply string
  | ShardMapReply "(ShardId, string list) hashmap"
  | SplitReply Ack "string list"

subsection \<open>Requests to the destination shard\<close>

text \<open>The three \<open>send_*_to_dest_shard\<close> loops: try the peers in order, go on after an error or a hint at another
  leader, and stop at the first other response.\<close>

fun send_to_dest_shard :: "rpc \<Rightarrow> string list \<Rightarrow> (bool \<Rightarrow> (MyMaster, rpc, rpc_reply, 'a) prog) \<Rightarrow>
    (MyMaster, rpc, rpc_reply, 'a) prog" where
  "send_to_dest_shard req [] k = k False"
| "send_to_dest_shard req (peer # dest_peers) k =
     Call (with_scheme peer) req (\<lambda>resp.
       case resp of
         Some (AckReply a) \<Rightarrow>
           if success a then k True
           else if leader_hint a \<noteq> [] then send_to_dest_shard req dest_peers k
           else k False
       | _ \<Rightarrow> send_to_dest_shard req dest_peers k)"

definition send_prepare_to_dest_shard :: "string \<Rightarrow> string \<Rightarrow> string \<Rightarrow> FileMetadata \<Rightarrow> string list \<Rightarrow>
    (bool \<Rightarrow> (MyMaster, rpc, rpc_reply, 'a) prog) \<Rightarrow> (MyMaster, rpc, rpc_reply, 'a) prog" where
  "send_prepare_to_dest_shard sid tid p metadata dest_peers k =
     send_to_dest_shard (PrepareTransaction tid p (Some metadata) sid) dest_peers k"

definition send_commit_to_dest_shard :: "string \<Rightarrow> string list \<Rightarrow>
    (bool \<Rightarrow> (MyMaster, rpc, rpc_reply, 'a) prog) \<Rightarrow> (MyMaster, rpc, rpc_reply, 'a) prog" where
  "send_commit_to_dest_shard tid dest_peers k = send_to_dest_shard (CommitTransaction tid) dest_peers k"

definition send_abort_to_dest_shard :: "string \<Rightarrow> string list \<Rightarrow>
    (bool \<Rightarrow> (MyMaster, rpc, rpc_reply, 'a) prog) \<Rightarrow> (MyMaster, rpc, rpc_reply, 'a) prog" where
  "send_abort_to_dest_shard tid dest_peers k = send_to_dest_shard (AbortTransaction tid) dest_peers k"

subsection \<open>The coordinator\<close>

text \<open>Steps 4 to 8: commit at the participant, then delete the source and finish the record.\<close>

definition rename_commit :: "string \<Rightarrow> string \<Rightarrow> string \<Rightarrow> string list \<Rightarrow> (rpc, rpc_reply, Ack) handler" where
  "rename_commit tid source_path source_shard dest_peers =
     send_commit_to_dest_shard tid dest_peers (\<lambda>ok.
       if \<not> ok then Ret (Inr (ack_error ''Cross-shard commit pending, will be retried''))
       else Propose (MasterCmd (ApplyTransactionOperation tid \<lparr>op_shard_id = source_shard, op_type = Delete source_path\<rparr>))
         (\<lambda>_. Propose (MasterCmd (UpdateTransactionState tid Committed))
           (\<lambda>_. Propose (MasterCmd (SetParticipantAcked tid)) (\<lambda>_. Ret (Inr ack_ok)))))"

text \<open>Step 3: prepare at the participant, or abort on both sides.\<close>

definition rename_prepare :: "string \<Rightarrow> string \<Rightarrow> string \<Rightarrow> string \<Rightarrow> string \<Rightarrow> FileMetadata \<Rightarrow> string list \<Rightarrow>
    (rpc, rpc_reply, Ack) handler" where
  "rename_prepare sid tid source_path dest_path source_shard dest_metadata dest_peers =
     send_prepare_to_dest_shard sid tid dest_path dest_metadata dest_peers (\<lambda>ok.
       if ok then rename_commit tid source_path source_shard dest_peers
       else send_abort_to_dest_shard tid dest_peers (\<lambda>_.
         Propose (MasterCmd (UpdateTransactionState tid Aborted))
           (\<lambda>_. Ret (Inr (ack_error ''Cross-shard prepare failed'')))))"

text \<open>Steps 1 and 2: the record, first pending, then prepared.\<close>

definition rename_cross_shard :: "string \<Rightarrow> string \<Rightarrow> string \<Rightarrow> string \<Rightarrow> string \<Rightarrow> FileMetadata \<Rightarrow> string list \<Rightarrow>
    string \<Rightarrow> (rpc, rpc_reply, Ack) handler" where
  "rename_cross_shard sid source_path dest_path source_shard dest_shard source_metadata dest_peers tid =
     (let dest_metadata = source_metadata\<lparr>path := dest_path\<rparr>
      in Clock (\<lambda>now.
        Propose (MasterCmd (CreateTransactionRecord
            (new_rename now tid source_path dest_path source_shard dest_shard dest_metadata)))
          (\<lambda>reply. case reply of
             ChannelClosed \<Rightarrow> Ret (Inr (ack_error ''Internal error: Raft unavailable''))
           | NotLeader leader_opt \<Rightarrow> Ret (Inr (ack_not_leader leader_opt))
           | Dropped \<Rightarrow> Ret (Inr (ack_error ''Internal error: Raft commit failed''))
           | Applied \<Rightarrow>
               Propose (MasterCmd (UpdateTransactionState tid Prepared))
                 (\<lambda>reply. case reply of
                    Applied \<Rightarrow>
                      rename_prepare sid tid source_path dest_path source_shard dest_metadata dest_peers
                  | ChannelClosed \<Rightarrow>
                      send_abort_to_dest_shard tid dest_peers
                        (\<lambda>_. Ret (Inr (ack_error ''Internal error: Raft unavailable'')))
                  | _ \<Rightarrow>
                      send_abort_to_dest_shard tid dest_peers
                        (\<lambda>_. Ret (Inr (ack_error ''Internal error: Raft commit failed'')))))))"

definition rename_between :: "string \<Rightarrow> string \<Rightarrow> string \<Rightarrow> string list \<Rightarrow> string \<Rightarrow> string \<Rightarrow> (rpc, rpc_reply, Ack) handler" where
  "rename_between sid source_shard dest_shard dest_peers source_path dest_path =
     Read (\<lambda>n.
       case my_state n of
         ConfigApp _ \<Rightarrow> Ret (Inl (Internal ''Wrong state type''))
       | MasterApp s \<Rightarrow>
           (case hm_get (files s) source_path of
              None \<Rightarrow> Ret (Inr (ack_error (''Source file not found: '' @ source_path)))
            | Some source_metadata \<Rightarrow>
                if source_shard = dest_shard
                then propose_ack ''Raft response error'' (MasterCmd (RenameFile source_path dest_path))
                else Uuid (rename_cross_shard sid source_path dest_path source_shard dest_shard
                       source_metadata dest_peers)))"

definition rename :: "crc_fn \<Rightarrow> string \<Rightarrow> string \<Rightarrow> (rpc, rpc_reply, Ack) handler" where
  "rename crc source_path dest_path =
     monitor_request source_path 0
       (check_shard_ownership crc source_path
         (check_safe_mode
           (Read (\<lambda>m.
              let sid = my_shard_id m;
                  source_shard = (case get_shard crc source_path (my_shard_map m) of Some s \<Rightarrow> s | None \<Rightarrow> sid);
                  dest_shard = (case get_shard crc dest_path (my_shard_map m) of Some s \<Rightarrow> s | None \<Rightarrow> sid);
                  dest_peers = (case get_shard_peers dest_shard (my_shard_map m) of Some ps \<Rightarrow> ps | None \<Rightarrow> [])
              in rename_between sid source_shard dest_shard dest_peers source_path dest_path))))"

subsection \<open>The participant\<close>

definition default_metadata :: FileMetadata where
  "default_metadata = empty_file [] 0 0"

definition participant_record :: "u64 \<Rightarrow> string \<Rightarrow> string \<Rightarrow> string \<Rightarrow> FileMetadata option \<Rightarrow> string \<Rightarrow> TransactionRecord" where
  "participant_record now sid tid p metadata coordinator =
     \<lparr>tx_id = tid, tx_type = Rename [] p, tx_state = Prepared, timestamp = now, participants = [coordinator, sid],
      operations = [\<lparr>op_shard_id = sid,
                     op_type = Create p (case metadata of Some m \<Rightarrow> m | None \<Rightarrow> default_metadata)\<rparr>],
      coordinator_shard = coordinator, participant_acked = False, inquiry_count = 0\<rparr>"

definition prepare_transaction :: "crc_fn \<Rightarrow> string \<Rightarrow> string \<Rightarrow> FileMetadata option \<Rightarrow> string \<Rightarrow>
    (rpc, rpc_reply, Ack) handler" where
  "prepare_transaction crc tid p metadata coordinator =
     Read (\<lambda>n.
       let prepare =
             check_shard_ownership crc p
               (Read (\<lambda>n'.
                  let create = Clock (\<lambda>now. Read (\<lambda>n''.
                        propose_ack ''Raft response error'' (MasterCmd (CreateTransactionRecord
                          (participant_record now (my_shard_id n'') tid p metadata coordinator)))))
                  in case my_state n' of
                       MasterApp s \<Rightarrow>
                         if hm_contains p (files s)
                         then Ret (Inr (ack_error (''Destination file already exists: '' @ p)))
                         else create
                     | ConfigApp _ \<Rightarrow> create))
       in case my_state n of
            MasterApp s \<Rightarrow> if hm_contains tid (transaction_records s) then Ret (Inr ack_ok) else prepare
          | ConfigApp _ \<Rightarrow> prepare)"

definition find_record :: "string \<Rightarrow> MyMaster \<Rightarrow> TransactionRecord option" where
  "find_record tid n =
     (case my_state n of MasterApp s \<Rightarrow> hm_get (transaction_records s) tid | ConfigApp _ \<Rightarrow> None)"

definition first_operation :: "TransactionRecord \<Rightarrow> TxOperation option" where
  "first_operation r = (case operations r of [] \<Rightarrow> None | oper # _ \<Rightarrow> Some oper)"

definition commit_transaction :: "string \<Rightarrow> (rpc, rpc_reply, Ack) handler" where
  "commit_transaction tid =
     Read (\<lambda>n.
       if (case find_record tid n of Some r \<Rightarrow> tx_state r = Committed | None \<Rightarrow> False) then Ret (Inr ack_ok)
       else Read (\<lambda>n'.
         case Option.bind (find_record tid n') first_operation of
           Some oper \<Rightarrow>
             Propose (MasterCmd (ApplyTransactionOperation tid oper)) (\<lambda>reply.
               case reply of
                 ChannelClosed \<Rightarrow> Ret (Inl (Internal ''Raft channel closed''))
               | Dropped \<Rightarrow> Ret (Inl (Internal ''Raft response error''))
               | NotLeader leader_opt \<Rightarrow> Ret (Inr (ack_not_leader leader_opt))
               | Applied \<Rightarrow>
                   Propose (MasterCmd (UpdateTransactionState tid Committed)) (\<lambda>_. Ret (Inr ack_ok)))
         | None \<Rightarrow> Ret (Inr (ack_error (''Transaction not found: '' @ tid)))))"

definition abort_transaction :: "string \<Rightarrow> (rpc, rpc_reply, Ack) handler" where
  "abort_transaction tid = propose_ack ''Raft response error'' (MasterCmd (UpdateTransactionState tid Aborted))"

definition inquire_transaction :: "string \<Rightarrow> (rpc, rpc_reply, string) handler" where
  "inquire_transaction tid =
     ensure_linearizable_read
       (Read (\<lambda>n. case my_state n of
          MasterApp s \<Rightarrow>
            Ret (Inr (case hm_get (transaction_records s) tid of
                        Some r \<Rightarrow> (case tx_state r of
                                      Committed \<Rightarrow> ''COMMITTED'' | Aborted \<Rightarrow> ''ABORTED'' | _ \<Rightarrow> ''UNKNOWN'')
                      | None \<Rightarrow> ''UNKNOWN''))
        | ConfigApp _ \<Rightarrow> Ret (Inl (Internal ''Wrong state type''))))"

subsection \<open>Background tasks\<close>

text \<open>The helpers propose a command and only log a failure.\<close>

definition via_raft :: "MasterCommand \<Rightarrow> (MyMaster, rpc, rpc_reply, 'a) prog \<Rightarrow> (MyMaster, rpc, rpc_reply, 'a) prog" where
  "via_raft c k = Propose (MasterCmd c) (\<lambda>_. k)"

definition abort_via_raft :: "string \<Rightarrow> (MyMaster, rpc, rpc_reply, 'a) prog \<Rightarrow> (MyMaster, rpc, rpc_reply, 'a) prog" where
  "abort_via_raft tid k = via_raft (UpdateTransactionState tid Aborted) k"

definition commit_via_raft :: "string \<Rightarrow> (MyMaster, rpc, rpc_reply, 'a) prog \<Rightarrow> (MyMaster, rpc, rpc_reply, 'a) prog" where
  "commit_via_raft tid k = via_raft (UpdateTransactionState tid Committed) k"

definition delete_via_raft :: "string \<Rightarrow> (MyMaster, rpc, rpc_reply, 'a) prog \<Rightarrow> (MyMaster, rpc, rpc_reply, 'a) prog" where
  "delete_via_raft tid k = via_raft (DeleteTransactionRecord tid) k"

definition apply_operation_via_raft :: "string \<Rightarrow> TxOperation \<Rightarrow> (MyMaster, rpc, rpc_reply, 'a) prog \<Rightarrow>
    (MyMaster, rpc, rpc_reply, 'a) prog" where
  "apply_operation_via_raft tid oper k = via_raft (ApplyTransactionOperation tid oper) k"

definition increment_inquiry_count_via_raft :: "string \<Rightarrow> (MyMaster, rpc, rpc_reply, 'a) prog \<Rightarrow>
    (MyMaster, rpc, rpc_reply, 'a) prog" where
  "increment_inquiry_count_via_raft tid k = via_raft (IncrementInquiryCount tid) k"

definition MAX_INQUIRY_RETRIES :: u32 where
  "MAX_INQUIRY_RETRIES = 60"

fun inquire_peers :: "string \<Rightarrow> string list \<Rightarrow> (string option \<Rightarrow> (MyMaster, rpc, rpc_reply, 'a) prog) \<Rightarrow>
    (MyMaster, rpc, rpc_reply, 'a) prog" where
  "inquire_peers tid [] k = k None"
| "inquire_peers tid (peer # ps) k =
     Call (with_http peer) (InquireTransaction tid) (\<lambda>resp.
       case resp of
         Some (InquireReply status) \<Rightarrow> k (Some status)
       | _ \<Rightarrow> inquire_peers tid ps k)"

definition resolve_inquiry :: "string \<Rightarrow> TransactionRecord \<Rightarrow> string option \<Rightarrow> (MyMaster, rpc, rpc_reply, 'a) prog \<Rightarrow>
    (MyMaster, rpc, rpc_reply, 'a) prog" where
  "resolve_inquiry tid r status k =
     (if status = Some ''COMMITTED''
      then (case first_operation r of
              Some oper \<Rightarrow> apply_operation_via_raft tid oper (commit_via_raft tid k)
            | None \<Rightarrow> k)
      else if status = Some ''ABORTED'' then abort_via_raft tid k
      else if status = Some ''UNKNOWN''
      then increment_inquiry_count_via_raft tid
             (if MAX_INQUIRY_RETRIES < inquiry_count r + 1 then abort_via_raft tid k else k)
      else k)"

definition shard_peers_of :: "string \<Rightarrow> MyMaster \<Rightarrow> string list" where
  "shard_peers_of shard n = (case get_shard_peers shard (my_shard_map n) of Some ps \<Rightarrow> ps | None \<Rightarrow> [])"

definition cleanup_record :: "string \<Rightarrow> string \<times> TransactionRecord \<Rightarrow> (MyMaster, rpc, rpc_reply, 'a) prog \<Rightarrow>
    (MyMaster, rpc, rpc_reply, 'a) prog" where
  "cleanup_record sid tr k = (case tr of (tid, r) \<Rightarrow> Clock (\<lambda>now.
     if coordinator_shard r = []
     then (if tx_state r = Pending \<or> tx_state r = Prepared
           then (if is_timed_out now r then abort_via_raft tid k else k)
           else if is_stale now r then delete_via_raft tid k else k)
     else let is_coordinator = (coordinator_shard r = sid)
          in case tx_state r of
               Pending \<Rightarrow> if is_timed_out now r then abort_via_raft tid k else k
             | Prepared \<Rightarrow>
                 if is_coordinator then k
                 else if \<not> is_timed_out now r then k
                 else Read (\<lambda>n.
                   let coordinator_peers = shard_peers_of (coordinator_shard r) n
                   in if coordinator_peers = [] then k
                      else inquire_peers tid coordinator_peers (\<lambda>status. resolve_inquiry tid r status k))
             | Committed \<Rightarrow>
                 if is_coordinator \<and> \<not> participant_acked r then k
                 else if is_stale now r then delete_via_raft tid k else k
             | Aborted \<Rightarrow> if is_stale now r then delete_via_raft tid k else k))"

definition all_records :: "MyMaster \<Rightarrow> (string, TransactionRecord) hashmap" where
  "all_records n = (case my_state n of MasterApp s \<Rightarrow> transaction_records s | ConfigApp _ \<Rightarrow> [])"

text \<open>One round of \<open>run_transaction_cleanup\<close>.\<close>

definition run_transaction_cleanup :: "(MyMaster, rpc, rpc_reply, unit) prog" where
  "run_transaction_cleanup =
     Clock (\<lambda>now. Read (\<lambda>n.
       for_each (filter (\<lambda>(tid, r). is_timed_out now r \<or> is_stale now r) (all_records n))
         (cleanup_record (my_shard_id n)) (Ret ())))"

fun commit_peers :: "string \<Rightarrow> string list \<Rightarrow> (bool \<Rightarrow> (MyMaster, rpc, rpc_reply, 'a) prog) \<Rightarrow>
    (MyMaster, rpc, rpc_reply, 'a) prog" where
  "commit_peers tid [] k = k False"
| "commit_peers tid (peer # ps) k =
     Call (with_http peer) (CommitTransaction tid) (\<lambda>resp.
       case resp of
         Some (AckReply a) \<Rightarrow> if success a then k True else commit_peers tid ps k
       | _ \<Rightarrow> commit_peers tid ps k)"

definition delete_operation :: "TransactionRecord \<Rightarrow> TxOperation option" where
  "delete_operation r = find (\<lambda>oper. case op_type oper of Delete _ \<Rightarrow> True | Create _ _ \<Rightarrow> False) (operations r)"

definition recover_record :: "string \<Rightarrow> string \<times> TransactionRecord \<Rightarrow> (MyMaster, rpc, rpc_reply, 'a) prog \<Rightarrow>
    (MyMaster, rpc, rpc_reply, 'a) prog" where
  "recover_record sid tr k = (case tr of (tid, r) \<Rightarrow>
     let dest_shard = unwrap_or_default (find (\<lambda>p. p \<noteq> sid) (participants r))
     in Read (\<lambda>n.
       let dest_peers = shard_peers_of dest_shard n
       in if dest_peers = [] then k
          else commit_peers tid dest_peers (\<lambda>commit_ok.
            if \<not> commit_ok then k
            else case tx_state r of
                   Committed \<Rightarrow> via_raft (SetParticipantAcked tid) k
                 | Prepared \<Rightarrow>
                     (let finish = commit_via_raft tid (via_raft (SetParticipantAcked tid) k)
                      in case delete_operation r of
                           Some delete_op \<Rightarrow> apply_operation_via_raft tid delete_op finish
                         | None \<Rightarrow> finish)
                 | _ \<Rightarrow> k)))"

text \<open>One round of \<open>run_transaction_recovery\<close>.\<close>

definition run_transaction_recovery :: "(MyMaster, rpc, rpc_reply, unit) prog" where
  "run_transaction_recovery =
     Clock (\<lambda>now. Read (\<lambda>n.
       for_each (filter (\<lambda>(tid, r). coordinator_shard r = my_shard_id n \<and>
             (tx_state r = Committed \<and> \<not> participant_acked r \<or> tx_state r = Prepared \<and> is_timed_out now r))
           (all_records n))
         (recover_record (my_shard_id n)) (Ret ())))"

end
