(* ===== verification/MasterTasks.thy ===== *)
theory MasterTasks
  imports TwoPhase
begin

section \<open>The background tasks of a master (dfs/metaserver/src/master.rs)\<close>

text \<open>
  One round of each periodic task: moving blocks of a shuffled prefix, decaying the metrics, refreshing the shard
  map, detecting shards to split or merge, moving files to cold storage and marking them as erasure coded. The
  tasks a round spawns are returned as jobs.
\<close>

type_synonym 'a task = "(MyMaster, rpc, rpc_reply, 'a) prog"

definition node_state :: "'b \<Rightarrow> (MasterState \<Rightarrow> 'b) \<Rightarrow> MyMaster \<Rightarrow> 'b" where
  "node_state d f n = (case my_state n of MasterApp s \<Rightarrow> f s | ConfigApp _ \<Rightarrow> d)"

subsection \<open>Shuffling\<close>

definition shuffle_servers :: "MasterState \<Rightarrow> (string \<times> u64) list" where
  "shuffle_servers s = map (\<lambda>(addr, status). (addr, available_space status)) (chunk_servers s)"

definition block_to_shuffle :: "string \<Rightarrow> string \<Rightarrow> string \<Rightarrow> MasterState \<Rightarrow> BlockInfo option" where
  "block_to_shuffle pre most_full least_full s =
     find (\<lambda>b. most_full \<in> set (locations b) \<and> least_full \<notin> set (locations b))
       (concat (map blocks (filter (\<lambda>f. starts_with (path f) pre) (hm_values (files s)))))"

definition shuffle_ends :: "(string \<times> u64) list \<Rightarrow> string \<times> string" where
  "shuffle_ends servers =
     (let sorted_servers = sort_key (\<lambda>b. - int (snd b)) servers in (fst (hd sorted_servers), fst (last sorted_servers)))"

definition shuffle_prefix :: "(string \<times> u64) list \<Rightarrow> string \<Rightarrow> MasterState \<Rightarrow> MasterState" where
  "shuffle_prefix servers pre s =
     (case shuffle_ends servers of (least_full, most_full) \<Rightarrow>
        case block_to_shuffle pre most_full least_full s of
          Some b \<Rightarrow>
            s\<lparr>pending_commands := hm_push most_full
                (default_command\<lparr>command_type := REPLICATE, cmd_block_id := block_id b,
                   target_chunk_server_address := least_full\<rparr>) (pending_commands s)\<rparr>
        | None \<Rightarrow> s)"

definition stop_shuffle :: "(string \<times> u64) list \<Rightarrow> string \<Rightarrow> MasterState \<Rightarrow> bool" where
  "stop_shuffle servers pre s =
     (case shuffle_ends servers of (least_full, most_full) \<Rightarrow> block_to_shuffle pre most_full least_full s = None)"

definition run_data_shuffler :: "unit task" where
  "run_data_shuffler = Read (\<lambda>n.
     let prefixes = node_state [] shuffling_prefixes n;
         servers = node_state [] shuffle_servers n
     in if prefixes = [] \<or> length servers < 2 then Ret ()
        else for_each prefixes (\<lambda>pre k.
               Write (on_master (shuffle_prefix servers pre)) (\<lambda>n.
                 if node_state False (stop_shuffle servers pre) n
                 then Propose (MasterCmd (StopShuffle pre)) (\<lambda>_. k)
                 else k))
             (Ret ()))"

subsection \<open>Metrics and the shard map\<close>

definition run_metrics_decay :: "unit task" where
  "run_metrics_decay = Write (\<lambda>n. n\<lparr>my_monitor := decay_metrics (my_monitor n)\<rparr>) (\<lambda>_. Ret ())"

text \<open>The map a master builds from the list of shards and peers: sorted by shard id, added one by one to an empty
  range map.\<close>

definition rebuild_map :: "crc_fn \<Rightarrow> (ShardId, string list) hashmap \<Rightarrow> ShardMap" where
  "rebuild_map crc shards_data = fold (\<lambda>(sid, ps). add_shard crc sid ps) (sort_key fst shards_data) new_range"

fun run_shard_map_refresh :: "crc_fn \<Rightarrow> string list \<Rightarrow> unit task" where
  "run_shard_map_refresh crc [] = Ret ()"
| "run_shard_map_refresh crc (config_addr # config_server_addrs) =
     Call config_addr FetchShardMap (\<lambda>resp.
       case resp of
         Some (ShardMapReply shards_data) \<Rightarrow>
           Write (\<lambda>n. n\<lparr>my_shard_map := rebuild_map crc shards_data\<rparr>) (\<lambda>_. Ret ())
       | _ \<Rightarrow> run_shard_map_refresh crc config_server_addrs)"

subsection \<open>Splitting and merging\<close>

datatype job =
    MigrateSplit string string string "FileMetadata list"
  | MigrateMerge string string

fun register_with :: "string \<Rightarrow> string \<Rightarrow> string list \<Rightarrow> (bool \<Rightarrow> 'a task) \<Rightarrow> 'a task" where
  "register_with master_addr sid [] k = k False"
| "register_with master_addr sid (config_addr # config_addrs) k =
     Call config_addr (ConfigRequest (RegisterMaster master_addr sid)) (\<lambda>resp.
       case resp of
         Some (AckReply a) \<Rightarrow> if success a then k True else register_with master_addr sid config_addrs k
       | _ \<Rightarrow> register_with master_addr sid config_addrs k)"

definition heartbeat_config :: "string \<Rightarrow> string list \<Rightarrow> (string, rat) hashmap \<Rightarrow> 'a task \<Rightarrow> 'a task" where
  "heartbeat_config master_addr config_addrs rps_map k =
     for_each config_addrs (\<lambda>addr k. Call addr (ConfigRequest (ShardHeartbeat master_addr rps_map)) (\<lambda>_. k)) k"

definition hot_prefix :: "u64 \<Rightarrow> ThroughputMonitor \<Rightarrow> string option" where
  "hot_prefix now m =
     (if int (split_cooldown_secs m) \<le> (int now - last_split_time m) div 1000
      then map_option fst (find (\<lambda>(_, e). split_threshold_rps m < rps e) (metrics m))
      else None)"

definition new_shard_name :: "string \<Rightarrow> string \<Rightarrow> string" where
  "new_shard_name sid u = sid @ ''-split-'' @ takeWhile (\<lambda>c. c \<noteq> CHR ''-'') u"

definition files_to_move :: "string \<Rightarrow> MasterState \<Rightarrow> FileMetadata list" where
  "files_to_move pre s = map snd (filter (\<lambda>(p, _). starts_with p pre) (files s))"

text \<open>The split part of a round: \<open>None\<close> skips the rest of the round.\<close>

definition detect_split :: "string \<Rightarrow> (job list option \<Rightarrow> 'a task) \<Rightarrow> 'a task" where
  "detect_split sid k = Clock (\<lambda>now. Read (\<lambda>n.
     case hot_prefix now (my_monitor n) of
       None \<Rightarrow> k (Some [])
     | Some pre \<Rightarrow> Uuid (\<lambda>u.
         let new_shard_id = new_shard_name sid u
         in Propose (MasterCmd (SplitShard pre new_shard_id [])) (\<lambda>reply.
              case reply of
                ChannelClosed \<Rightarrow> k None
              | Applied \<Rightarrow>
                  Clock (\<lambda>later. Write (\<lambda>n. n\<lparr>my_monitor := (my_monitor n)\<lparr>last_split_time := int later\<rparr>\<rparr>) (\<lambda>_.
                    Read (\<lambda>n. k (Some [MigrateSplit pre sid new_shard_id (node_state [] (files_to_move pre) n)]))))
              | _ \<Rightarrow> k (Some [])))))"

definition total_rps :: "ThroughputMonitor \<Rightarrow> rat" where
  "total_rps m = sum_list (map rps (hm_values (metrics m)))"

definition detect_merge :: "string \<Rightarrow> (job list \<Rightarrow> 'a task) \<Rightarrow> 'a task" where
  "detect_merge sid k = Read (\<lambda>n.
     let merge_threshold = merge_threshold_rps (my_monitor n)
     in if 0 \<le> merge_threshold \<and> total_rps (my_monitor n) < merge_threshold
        then Read (\<lambda>n.
          case get_neighbors sid (my_shard_map n) of
            (Some neighbor_id, _) \<Rightarrow> k [MigrateMerge neighbor_id sid]
          | (None, Some neighbor_id) \<Rightarrow> k [MigrateMerge neighbor_id sid]
          | (None, None) \<Rightarrow> k [])
        else k [])"

definition run_split_detector :: "bool \<Rightarrow> (bool \<times> job list) task" where
  "run_split_detector registered = Read (\<lambda>n.
     let sid = my_shard_id n;
         config_addrs = cfg_config_server_addrs (my_config n);
         master_addr = cfg_master_address (my_config n);
         go = (\<lambda>reg. Read (\<lambda>n.
           heartbeat_config master_addr config_addrs (map (\<lambda>(p, e). (p, rps e)) (metrics (my_monitor n)))
             (detect_split sid (\<lambda>r.
               case r of
                 None \<Rightarrow> Ret (reg, [])
               | Some jobs \<Rightarrow> detect_merge sid (\<lambda>jobs'. Ret (reg, jobs @ jobs'))))))
     in if registered then go True else register_with master_addr sid config_addrs go)"

text \<open>The spawned migrations. An ingest that is answered at all ends the loop.\<close>

fun push_metadata :: "FileMetadata list \<Rightarrow> string list \<Rightarrow> unit task" where
  "push_metadata fs [] = Ret ()"
| "push_metadata fs (peer # ps) =
     Call (with_http peer) (IngestMetadata fs) (\<lambda>resp. case resp of Some _ \<Rightarrow> Ret () | None \<Rightarrow> push_metadata fs ps)"

fun migrate_split :: "string \<Rightarrow> string \<Rightarrow> string \<Rightarrow> FileMetadata list \<Rightarrow> string list \<Rightarrow> unit task" where
  "migrate_split pre sid new_shard_id fs [] = Ret ()"
| "migrate_split pre sid new_shard_id fs (config_addr # config_addrs) =
     Call (with_scheme config_addr) (ConfigRequest (CfgSplitShard sid pre new_shard_id [])) (\<lambda>resp.
       case resp of
         Some (SplitReply a new_peers) \<Rightarrow>
           if success a
           then (if fs \<noteq> [] \<and> new_peers \<noteq> [] then push_metadata fs new_peers else Ret ())
           else migrate_split pre sid new_shard_id fs config_addrs
       | _ \<Rightarrow> migrate_split pre sid new_shard_id fs config_addrs)"

fun migrate_merge :: "string \<Rightarrow> string \<Rightarrow> string list \<Rightarrow> unit task" where
  "migrate_merge victim retained [] = Ret ()"
| "migrate_merge victim retained (config_addr # config_addrs) =
     Call (with_scheme config_addr) (ConfigRequest (CfgMergeShard victim retained)) (\<lambda>resp.
       case resp of
         Some (AckReply a) \<Rightarrow>
           if success a
           then Read (\<lambda>n. let all_files = node_state [] (\<lambda>s. hm_values (files s)) n
                in Read (\<lambda>n'. case get_shard_peers retained (my_shard_map n') of
                     Some peer_list \<Rightarrow> push_metadata all_files peer_list
                   | None \<Rightarrow> Ret ()))
           else migrate_merge victim retained config_addrs
       | _ \<Rightarrow> migrate_merge victim retained config_addrs)"

fun run_job :: "string list \<Rightarrow> job \<Rightarrow> unit task" where
  "run_job config_addrs (MigrateSplit pre sid new_shard_id fs) = migrate_split pre sid new_shard_id fs config_addrs"
| "run_job config_addrs (MigrateMerge victim retained) = migrate_merge victim retained config_addrs"

subsection \<open>Cold storage and erasure coding\<close>

definition if_leader :: "unit task \<Rightarrow> unit task" where
  "if_leader k = LeaderInfo (\<lambda>l.
     case l of
       Some (Some leader) \<Rightarrow> Read (\<lambda>n. if leader \<noteq> cfg_master_address (my_config n) then Ret () else k)
     | _ \<Rightarrow> Ret ())"

definition is_cold :: "u64 \<Rightarrow> u64 \<Rightarrow> FileMetadata \<Rightarrow> bool" where
  "is_cold now_ms cold_threshold_ms f \<longleftrightarrow> moved_to_cold_at_ms f = 0 \<and> ec_data_shards f = 0 \<and> 0 < last_access_ms f \<and>
     cold_threshold_ms < now_ms - last_access_ms f"

definition queue_move_to_cold :: "BlockInfo list \<Rightarrow> MasterState \<Rightarrow> MasterState" where
  "queue_move_to_cold bs s =
     s\<lparr>pending_commands :=
         fold (\<lambda>b. fold (\<lambda>loc. hm_push loc (default_command\<lparr>command_type := MOVE_TO_COLD, cmd_block_id := block_id b\<rparr>))
                 (locations b)) bs (pending_commands s)\<rparr>"

definition scan_tiering :: "unit task" where
  "scan_tiering =
     if_leader (Clock (\<lambda>now_ms. Read (\<lambda>n.
       for_each (filter (is_cold now_ms (cold_threshold_secs (my_config n) * 1000))
           (node_state [] (\<lambda>s. hm_values (files s)) n))
         (\<lambda>f k. Write (on_master (queue_move_to_cold (blocks f)))
           (\<lambda>_. Propose (MasterCmd (MoveToCold (path f) now_ms)) (\<lambda>_. k)))
         (Ret ()))))"

definition EC_DATA :: i32 where
  "EC_DATA = 6"

definition EC_PARITY :: i32 where
  "EC_PARITY = 3"

definition is_ec_candidate :: "u64 \<Rightarrow> u64 \<Rightarrow> FileMetadata \<Rightarrow> bool" where
  "is_ec_candidate now_ms ec_threshold_ms f \<longleftrightarrow> 0 < moved_to_cold_at_ms f \<and> ec_data_shards f = 0 \<and>
     ec_threshold_ms < now_ms - moved_to_cold_at_ms f"

definition ec_servers :: "MasterState \<Rightarrow> string list" where
  "ec_servers s =
     take (nat (EC_DATA + EC_PARITY)) (sort (map fst (filter (\<lambda>(_, st). 0 < available_space st) (chunk_servers s))))"

definition ec_block :: "string list \<Rightarrow> BlockInfo \<Rightarrow> BlockInfo" where
  "ec_block shard_servers b =
     \<lparr>block_id = block_id b, block_size = block_size b, locations = shard_servers,
      checksum_crc32c = checksum_crc32c b, block_ec_data_shards = EC_DATA, block_ec_parity_shards = EC_PARITY,
      original_size = original_size b\<rparr>"

definition scan_ec_conversion :: "unit task" where
  "scan_ec_conversion =
     if_leader (Clock (\<lambda>now_ms. Read (\<lambda>n.
       for_each (filter (is_ec_candidate now_ms (ec_threshold_secs (my_config n) * 1000))
           (node_state [] (\<lambda>s. hm_values (files s)) n))
         (\<lambda>f k. Read (\<lambda>n'.
           let shard_servers = node_state [] ec_servers n'
           in if length shard_servers < nat (EC_DATA + EC_PARITY) then k
              else Propose (MasterCmd (ConvertToEc (path f) EC_DATA EC_PARITY (map (ec_block shard_servers) (blocks f))))
                     (\<lambda>_. k)))
         (Ret ()))))"

end
