(* ===== verification/ShardSystem.thy ===== *)
theory ShardSystem
  imports MasterTasks
begin

section \<open>Several shards at work\<close>

text \<open>
  All masters of all shards together. A shard is the list of commands its Raft log has applied; a node of the shard
  may have applied only a part of them, and its shard map is the map of its shard. Requests are delivered any
  number of times or not at all, handlers and background tasks interleave at their actions, a proposal can be
  applied at any later time whatever was answered, and a task that is never scheduled again has crashed. The shard
  map does not change: \<open>sm\<close> gives the map of every shard and \<open>home\<close> the shard a node at an address belongs to.
\<close>

record history =
  issued :: "string \<rightharpoonup> string \<times> TxOperation list"
  applied :: "string \<Rightarrow> Command list"

type_synonym node_prog = "(MyMaster, rpc, rpc_reply, rpc_reply option) prog"
type_synonym thread = "string \<times> (string \<times> rpc) option \<times> node_prog"

record sys =
  hist :: history
  submitted :: "string \<Rightarrow> Command set"
  sent :: "(string \<times> rpc) set"
  replies :: "((string \<times> rpc) \<times> rpc_reply) set"
  threads :: "thread list"

subsection \<open>The tasks of a node\<close>

fun ack_reply :: "Status + Ack \<Rightarrow> rpc_reply option" where
  "ack_reply (Inr a) = Some (AckReply a)"
| "ack_reply (Inl _) = None"

fun inquire_reply :: "Status + string \<Rightarrow> rpc_reply option" where
  "inquire_reply (Inr st) = Some (InquireReply st)"
| "inquire_reply (Inl _) = None"

fun serve :: "crc_fn \<Rightarrow> rpc \<Rightarrow> node_prog" where
  "serve crc (PrepareTransaction tid p metadata coordinator) =
     map_prog id ack_reply (prepare_transaction crc tid p metadata coordinator)"
| "serve crc (CommitTransaction tid) = map_prog id ack_reply (commit_transaction tid)"
| "serve crc (AbortTransaction tid) = map_prog id ack_reply (abort_transaction tid)"
| "serve crc (InquireTransaction tid) = map_prog id inquire_reply (inquire_transaction tid)"
| "serve crc (IngestMetadata fs) = map_prog id ack_reply (ingest_metadata fs)"
| "serve crc FetchShardMap = Ret None"
| "serve crc (ConfigRequest c) = Ret None"

text \<open>Requests of clients and chunk servers, and the periodic tasks.\<close>

datatype work =
    RenameWork string string
  | CreateWork string i32 i32
  | DeleteWork string
  | AllocateWork string
  | CompleteWork string u64 string u64 "BlockChecksumInfo list"
  | InfoWork string
  | ListWork string
  | LocationsWork string
  | RegisterWork string u64 string
  | HeartbeatWork HeartbeatRequest
  | SafeModeWork
  | SetSafeModeWork bool
  | AddServerWork u32 string
  | RemoveServerWork u32
  | ClusterInfoWork
  | ShuffleWork string
  | CleanupWork
  | RecoveryWork
  | ShufflerWork
  | DecayWork
  | DetectorWork bool
  | JobWork "string list" job
  | TieringWork
  | EcWork
  | TermWork

definition silent :: "'a \<Rightarrow> rpc_reply option" where
  "silent x = None"

fun work_prog :: "crc_fn \<Rightarrow> ((string, server list) hashmap \<Rightarrow> (string, server list) hashmap) \<Rightarrow> work \<Rightarrow> node_prog" where
  "work_prog crc perm (RenameWork a b) = map_prog id ack_reply (rename crc a b)"
| "work_prog crc perm (CreateWork p d e) = map_prog id ack_reply (create_file crc p d e)"
| "work_prog crc perm (DeleteWork p) = map_prog id ack_reply (delete_file crc p)"
| "work_prog crc perm (AllocateWork p) = map_prog id silent (allocate_block crc perm p)"
| "work_prog crc perm (CompleteWork p sz etag created cs) = map_prog id silent (complete_file crc p sz etag created cs)"
| "work_prog crc perm (InfoWork p) = map_prog id silent (get_file_info crc p)"
| "work_prog crc perm (ListWork p) = map_prog id silent (list_files p)"
| "work_prog crc perm (LocationsWork b) = map_prog id silent (get_block_locations b)"
| "work_prog crc perm (RegisterWork a c r) = map_prog id silent (register_chunk_server a c r)"
| "work_prog crc perm (HeartbeatWork req) = map_prog id silent (heartbeat req)"
| "work_prog crc perm SafeModeWork = map_prog id silent get_safe_mode_status"
| "work_prog crc perm (SetSafeModeWork b) = map_prog id silent (set_safe_mode b)"
| "work_prog crc perm (AddServerWork i a) = map_prog id silent (add_raft_server i a)"
| "work_prog crc perm (RemoveServerWork i) = map_prog id silent (remove_raft_server i)"
| "work_prog crc perm ClusterInfoWork = map_prog id silent get_cluster_info"
| "work_prog crc perm (ShuffleWork p) = map_prog id silent (initiate_shuffle crc p)"
| "work_prog crc perm CleanupWork = map_prog id silent run_transaction_cleanup"
| "work_prog crc perm RecoveryWork = map_prog id silent run_transaction_recovery"
| "work_prog crc perm ShufflerWork = map_prog id silent run_data_shuffler"
| "work_prog crc perm DecayWork = map_prog id silent run_metrics_decay"
| "work_prog crc perm (DetectorWork b) = map_prog id silent (run_split_detector b)"
| "work_prog crc perm (JobWork addrs j) = map_prog id silent (run_job addrs j)"
| "work_prog crc perm TieringWork = map_prog id silent scan_tiering"
| "work_prog crc perm EcWork = map_prog id silent scan_ec_conversion"
| "work_prog crc perm TermWork = map_prog id silent update_term"

subsection \<open>Steps\<close>

definition replay :: "Command list \<Rightarrow> MasterState" where
  "replay cs = fold (\<lambda>c s. case c of MasterCmd m \<Rightarrow> apply_master_command m s | _ \<Rightarrow> s) cs init_master"

text \<open>What a node of a shard can find when it looks at its data: the replicated tables are those after some of the
  applied commands, in any order of iteration.\<close>

definition sees :: "(string \<Rightarrow> ShardMap) \<Rightarrow> history \<Rightarrow> string \<Rightarrow> MyMaster \<Rightarrow> bool" where
  "sees sm H s n \<longleftrightarrow> my_shard_id n = s \<and> my_shard_map n = sm s \<and>
     (\<exists>k st. my_state n = MasterApp st \<and>
        set (files st) = set (files (replay (take k (applied H s)))) \<and>
        set (transaction_records st) = set (transaction_records (replay (take k (applied H s)))))"

text \<open>A fresh identifier is noted with the shard that drew it and the operations of the record it is drawn for. This
  is an auxiliary variable: no action depends on it.\<close>

definition planned :: "(MyMaster, rpc, rpc_reply, 'a) prog \<Rightarrow> TxOperation list" where
  "planned p =
     (case p of
        Clock k \<Rightarrow> (case k 0 of Propose (MasterCmd (CreateTransactionRecord r)) _ \<Rightarrow> operations r | _ \<Rightarrow> [])
      | _ \<Rightarrow> [])"

definition to_config :: "rpc \<Rightarrow> bool" where
  "to_config q = (case q of FetchShardMap \<Rightarrow> True | ConfigRequest _ \<Rightarrow> True | _ \<Rightarrow> False)"

definition goto :: "nat \<Rightarrow> node_prog \<Rightarrow> sys \<Rightarrow> sys" where
  "goto i p \<sigma> = \<sigma>\<lparr>threads := (threads \<sigma>)[i := (fst (threads \<sigma> ! i), fst (snd (threads \<sigma> ! i)), p)]\<rparr>"

inductive step :: "crc_fn \<Rightarrow> ((string, server list) hashmap \<Rightarrow> (string, server list) hashmap) \<Rightarrow> (string \<Rightarrow> ShardMap) \<Rightarrow>
    (string \<Rightarrow> string) \<Rightarrow> sys \<Rightarrow> sys \<Rightarrow> bool" for crc perm sm home where
  start: "step crc perm sm home \<sigma> (\<sigma>\<lparr>threads := threads \<sigma> @ [(s, None, work_prog crc perm w)]\<rparr>)"
| deliver: "(a, q) \<in> sent \<sigma> \<Longrightarrow>
    step crc perm sm home \<sigma> (\<sigma>\<lparr>threads := threads \<sigma> @ [(home a, Some (a, q), serve crc q)]\<rparr>)"
| apply_submitted: "c \<in> submitted \<sigma> s \<Longrightarrow>
    step crc perm sm home \<sigma> (\<sigma>\<lparr>hist := (hist \<sigma>)\<lparr>applied := (applied (hist \<sigma>))(s := applied (hist \<sigma>) s @ [c])\<rparr>\<rparr>)"
| read: "i < length (threads \<sigma>) \<Longrightarrow> threads \<sigma> ! i = (s, rq, Read k) \<Longrightarrow> sees sm (hist \<sigma>) s n \<Longrightarrow>
    step crc perm sm home \<sigma> (goto i (k n) \<sigma>)"
| update: "i < length (threads \<sigma>) \<Longrightarrow> threads \<sigma> ! i = (s, rq, Write f k) \<Longrightarrow> sees sm (hist \<sigma>) s n \<Longrightarrow>
    step crc perm sm home \<sigma> (goto i (k n) \<sigma>)"
| submit: "i < length (threads \<sigma>) \<Longrightarrow> threads \<sigma> ! i = (s, rq, Propose c k) \<Longrightarrow>
    step crc perm sm home \<sigma> (\<sigma>\<lparr>submitted := (submitted \<sigma>)(s := insert c (submitted \<sigma> s))\<rparr>)"
| outcome: "i < length (threads \<sigma>) \<Longrightarrow> threads \<sigma> ! i = (s, rq, Propose c k) \<Longrightarrow>
    (x = Applied \<longrightarrow> c \<in> set (applied (hist \<sigma>) s)) \<Longrightarrow> step crc perm sm home \<sigma> (goto i (k x) \<sigma>)"
| submit_only: "i < length (threads \<sigma>) \<Longrightarrow> threads \<sigma> ! i = (s, rq, Send c p) \<Longrightarrow>
    step crc perm sm home \<sigma> (goto i p (\<sigma>\<lparr>submitted := (submitted \<sigma>)(s := insert c (submitted \<sigma> s))\<rparr>))"
| read_index: "i < length (threads \<sigma>) \<Longrightarrow> threads \<sigma> ! i = (s, rq, ReadIndex k) \<Longrightarrow>
    step crc perm sm home \<sigma> (goto i (k x) \<sigma>)"
| leader_info: "i < length (threads \<sigma>) \<Longrightarrow> threads \<sigma> ! i = (s, rq, LeaderInfo k) \<Longrightarrow>
    step crc perm sm home \<sigma> (goto i (k l) \<sigma>)"
| get_info: "i < length (threads \<sigma>) \<Longrightarrow> threads \<sigma> ! i = (s, rq, GetInfo k) \<Longrightarrow>
    step crc perm sm home \<sigma> (goto i (k info) \<sigma>)"
| call: "i < length (threads \<sigma>) \<Longrightarrow> threads \<sigma> ! i = (s, rq, Call a q k) \<Longrightarrow>
    step crc perm sm home \<sigma> (\<sigma>\<lparr>sent := insert (a, q) (sent \<sigma>)\<rparr>)"
| response: "i < length (threads \<sigma>) \<Longrightarrow> threads \<sigma> ! i = (s, rq, Call a q k) \<Longrightarrow>
    (\<forall>r. y = Some r \<longrightarrow> to_config q \<or> ((a, q), r) \<in> replies \<sigma>) \<Longrightarrow> step crc perm sm home \<sigma> (goto i (k y) \<sigma>)"
| clock: "i < length (threads \<sigma>) \<Longrightarrow> threads \<sigma> ! i = (s, rq, Clock k) \<Longrightarrow>
    step crc perm sm home \<sigma> (goto i (k t) \<sigma>)"
| uuid: "i < length (threads \<sigma>) \<Longrightarrow> threads \<sigma> ! i = (s, rq, Uuid k) \<Longrightarrow> issued (hist \<sigma>) u = None \<Longrightarrow>
    step crc perm sm home \<sigma>
      (goto i (k u) (\<sigma>\<lparr>hist := (hist \<sigma>)\<lparr>issued := (issued (hist \<sigma>))(u \<mapsto> (s, planned (k u)))\<rparr>\<rparr>))"
| answer: "i < length (threads \<sigma>) \<Longrightarrow> threads \<sigma> ! i = (s, Some aq, Ret (Some r)) \<Longrightarrow>
    step crc perm sm home \<sigma> (\<sigma>\<lparr>replies := insert (aq, r) (replies \<sigma>)\<rparr>)"

definition start_sys :: sys where
  "start_sys = \<lparr>hist = \<lparr>issued = Map.empty, applied = (\<lambda>_. [])\<rparr>, submitted = (\<lambda>_. {}), sent = {}, replies = {},
     threads = []\<rparr>"

abbreviation reachable_sys :: "crc_fn \<Rightarrow> ((string, server list) hashmap \<Rightarrow> (string, server list) hashmap) \<Rightarrow>
    (string \<Rightarrow> ShardMap) \<Rightarrow> (string \<Rightarrow> string) \<Rightarrow> sys \<Rightarrow> bool" where
  "reachable_sys crc perm sm home \<equiv> (step crc perm sm home)\<^sup>*\<^sup>* start_sys"

subsection \<open>What has happened so far\<close>

text \<open>Histories only grow.\<close>

definition later :: "history \<Rightarrow> history \<Rightarrow> bool" where
  "later H H' \<longleftrightarrow> issued H \<subseteq>\<^sub>m issued H' \<and> (\<forall>s. prefix (applied H s) (applied H' s))"

lemma later_refl [simp]: "later H H"
  by (simp add: later_def)

lemma later_trans [trans]: "later H H' \<Longrightarrow> later H' H'' \<Longrightarrow> later H H''"
  by (auto simp: later_def intro: map_le_trans prefix_order.trans)

text \<open>A transaction: the file at \<open>p\<close> of shard \<open>s\<close> is to become the file \<open>q\<close> of shard \<open>d\<close> with metadata \<open>m\<close>, which
  is the metadata of \<open>p\<close> at some time.\<close>

definition seen :: "history \<Rightarrow> string \<Rightarrow> string \<Rightarrow> FileMetadata \<Rightarrow> bool" where
  "seen H s p m \<longleftrightarrow> (\<exists>k. (p, m) \<in> set (files (replay (take k (applied H s)))))"

definition deal :: "history \<Rightarrow> string \<Rightarrow> string \<Rightarrow> string \<Rightarrow> string \<Rightarrow> string \<Rightarrow> FileMetadata \<Rightarrow> bool" where
  "deal H t s p d q m \<longleftrightarrow>
     issued H t = Some (s, [\<lparr>op_shard_id = s, op_type = Delete p\<rparr>, \<lparr>op_shard_id = d, op_type = Create q m\<rparr>]) \<and>
     d \<noteq> s \<and> (\<exists>m0. seen H s p m0 \<and> m = m0\<lparr>path := q\<rparr>)"

definition created :: "history \<Rightarrow> string \<Rightarrow> bool" where
  "created H t \<longleftrightarrow> (\<exists>s p d q m. deal H t s p d q m \<and>
     MasterCmd (ApplyTransactionOperation t \<lparr>op_shard_id = d, op_type = Create q m\<rparr>) \<in> set (applied H d))"

lemma seen_later: "seen H s p m \<Longrightarrow> later H H' \<Longrightarrow> seen H' s p m"
proof -
  assume "seen H s p m" "later H H'"
  then obtain k where k: "(p, m) \<in> set (files (replay (take k (applied H s))))" and p: "prefix (applied H s) (applied H' s)"
    by (auto simp: seen_def later_def)
  have "take (min k (length (applied H s))) (applied H' s) = take k (applied H s)"
    using p by (auto simp: prefix_def min_def)
  then show "seen H' s p m" using k by (auto simp: seen_def intro: exI [of _ "min k (length (applied H s))"])
qed

lemma deal_later: "deal H t s p d q m \<Longrightarrow> later H H' \<Longrightarrow> deal H' t s p d q m"
  unfolding deal_def by (auto simp: later_def map_le_def dom_def dest: seen_later [of _ _ _ _ H'])

lemma created_later: "created H t \<Longrightarrow> later H H' \<Longrightarrow> created H' t"
  unfolding created_def using deal_later set_mono_prefix unfolding later_def by blast

lemma deal_unique: "deal H t s p d q m \<Longrightarrow> deal H t s' p' d' q' m' \<Longrightarrow> s' = s \<and> p' = p \<and> d' = d \<and> q' = q \<and> m' = m"
  by (simp add: deal_def)

subsection \<open>What is true of records, commands and messages\<close>

definition record_fits :: "history \<Rightarrow> string \<Rightarrow> string \<times> TransactionRecord \<Rightarrow> bool" where
  "record_fits H s tr \<longleftrightarrow> tx_id (snd tr) = fst tr \<and>
     (\<exists>s0 p d q m. deal H (fst tr) s0 p d q m \<and> coordinator_shard (snd tr) = s0 \<and>
        (s = s0 \<and> participants (snd tr) = [s0, d] \<and>
           operations (snd tr) = [\<lparr>op_shard_id = s0, op_type = Delete p\<rparr>, \<lparr>op_shard_id = d, op_type = Create q m\<rparr>] \<or>
         s = d \<and> operations (snd tr) = [\<lparr>op_shard_id = d, op_type = Create q m\<rparr>])) \<and>
     (tx_state (snd tr) = Committed \<longrightarrow> created H (fst tr))"

fun command_fits :: "history \<Rightarrow> string \<Rightarrow> Command \<Rightarrow> bool" where
  "command_fits H s (MasterCmd (CreateTransactionRecord r)) = record_fits H s (tx_id r, r)"
| "command_fits H s (MasterCmd (UpdateTransactionState t st)) = (st = Committed \<longrightarrow> created H t)"
| "command_fits H s (MasterCmd (ApplyTransactionOperation t oper)) =
     (\<exists>s0 p d q m. deal H t s0 p d q m \<and>
        (s = d \<and> oper = \<lparr>op_shard_id = d, op_type = Create q m\<rparr> \<or>
         s = s0 \<and> oper = \<lparr>op_shard_id = s0, op_type = Delete p\<rparr> \<and> created H t))"
| "command_fits H s _ = True"

fun request_fits :: "(string \<Rightarrow> string) \<Rightarrow> history \<Rightarrow> string \<times> rpc \<Rightarrow> bool" where
  "request_fits home H (a, PrepareTransaction t q metadata c) =
     (\<exists>p m. deal H t c p (home a) q m \<and> metadata = Some m)"
| "request_fits home H (a, CommitTransaction t) = (\<exists>s p q m. deal H t s p (home a) q m)"
| "request_fits home H _ = True"

fun reply_fits :: "history \<Rightarrow> rpc \<Rightarrow> rpc_reply \<Rightarrow> bool" where
  "reply_fits H (CommitTransaction t) (AckReply a) = (success a \<longrightarrow> created H t)"
| "reply_fits H (InquireTransaction t) (InquireReply st) = (st = ''COMMITTED'' \<longrightarrow> created H t)"
| "reply_fits H _ _ = True"

lemma ex_deal_later:
  assumes "\<exists>s p d q m. deal H t s p d q m \<and> P s p d q m" "later H H'" "\<And>s p d q m. P s p d q m \<Longrightarrow> P' s p d q m"
  shows "\<exists>s p d q m. deal H' t s p d q m \<and> P' s p d q m"
proof -
  from assms(1) obtain s p d q m where "deal H t s p d q m" "P s p d q m" by blast
  then have "deal H' t s p d q m \<and> P' s p d q m" using assms(2,3) deal_later by blast
  then show ?thesis by (intro exI)
qed

lemma record_fits_later: "record_fits H s tr \<Longrightarrow> later H H' \<Longrightarrow> record_fits H' s tr"
  unfolding record_fits_def by (elim conjE, intro conjI, assumption, erule ex_deal_later) (blast intro: created_later)+

lemma command_fits_later: "command_fits H s c \<Longrightarrow> later H H' \<Longrightarrow> command_fits H' s c"
proof (induction H s c rule: command_fits.induct)
  case (3 H s t oper)
  from 3(1) show ?case unfolding command_fits.simps by (rule ex_deal_later) (use 3(2) created_later in blast)+
qed (auto intro: record_fits_later created_later)

lemma request_fits_later: "request_fits home H aq \<Longrightarrow> later H H' \<Longrightarrow> request_fits home H' aq"
  by (induction home H aq rule: request_fits.induct) (simp_all, (blast intro: deal_later)+)

lemma reply_fits_later: "reply_fits H q r \<Longrightarrow> later H H' \<Longrightarrow> reply_fits H' q r"
  by (induction H q r rule: reply_fits.induct) (auto intro: created_later)

text \<open>A table of records under the commands of a log.\<close>

lemma hm_insert_subset: "x \<in> set (hm_insert k v m) \<Longrightarrow> x = (k, v) \<or> x \<in> set m"
  by (induction m) (auto split: if_splits)

lemma hm_modify_subset: "x \<in> set (hm_modify k f m) \<Longrightarrow> x \<in> set m \<or> (\<exists>v. (k, v) \<in> set m \<and> x = (k, f v))"
  by (auto simp: hm_modify_def dest: map_of_SomeD hm_insert_subset split: option.splits)

lemma hm_remove_subset: "x \<in> set (hm_remove k m) \<Longrightarrow> x \<in> set m"
  by (induction m) (auto split: if_splits)

lemma record_fits_update:
  "record_fits H s (t, r) \<Longrightarrow> (st = Committed \<longrightarrow> created H t) \<Longrightarrow> record_fits H s (t, r\<lparr>tx_state := st\<rparr>)"
  "record_fits H s (t, r) \<Longrightarrow> record_fits H s (t, r\<lparr>participant_acked := b\<rparr>)"
  "record_fits H s (t, r) \<Longrightarrow> record_fits H s (t, r\<lparr>inquiry_count := c\<rparr>)"
  by (simp_all add: record_fits_def)

lemma apply_keeps_records_fit:
  assumes "command_fits H s (MasterCmd c)" "\<And>x. x \<in> set (transaction_records st) \<Longrightarrow> record_fits H s x"
    "(u, v) \<in> set (transaction_records (apply_master_command c st))"
  shows "record_fits H s (u, v)"
proof (cases c)
  case (CreateTransactionRecord r)
  with assms(3) have "(u, v) = (tx_id r, r) \<or> (u, v) \<in> set (transaction_records st)" by (intro hm_insert_subset) simp
  then show ?thesis using assms(1,2) CreateTransactionRecord by (elim disjE) simp_all
next
  case (UpdateTransactionState t new_state)
  with assms(3) show ?thesis
    by (simp, drule_tac hm_modify_subset) (use assms(1,2) UpdateTransactionState in \<open>auto simp: record_fits_update\<close>)
next
  case (DeleteTransactionRecord t)
  then show ?thesis using assms by (auto dest: hm_remove_subset)
next
  case (SetParticipantAcked t)
  with assms(3) show ?thesis
    by (simp, drule_tac hm_modify_subset) (use assms(1,2) SetParticipantAcked in \<open>auto simp: record_fits_update\<close>)
next
  case (IncrementInquiryCount t)
  with assms(3) show ?thesis
    by (simp, drule_tac hm_modify_subset) (use assms(1,2) IncrementInquiryCount in \<open>auto simp: record_fits_update\<close>)
qed (use assms in \<open>auto simp: apply_create_file_def apply_allocate_block_def apply_rename_file_def apply_tx_operation_def
    apply_split_shard_def apply_ingest_batch_def apply_complete_file_def Let_def split: option.splits TxOpType.splits if_splits\<close>)

lemma replay_simps [simp]:
  "replay [] = init_master"
  "replay (cs @ [c]) = (case c of MasterCmd m \<Rightarrow> apply_master_command m (replay cs) | _ \<Rightarrow> replay cs)"
  by (simp_all add: replay_def split: Command.split)

lemma replay_records_fit:
  assumes "\<And>c. c \<in> set cs \<Longrightarrow> command_fits H s c" "x \<in> set (transaction_records (replay cs))"
  shows "record_fits H s x"
  using assms
proof (induction cs arbitrary: x rule: rev_induct)
  case Nil
  then show ?case by (simp add: init_master_def)
next
  case (snoc c cs)
  have IH: "record_fits H s y" if "y \<in> set (transaction_records (replay cs))" for y
    using snoc.IH [OF _ that] snoc.prems(1) by simp
  show ?case
  proof (cases c)
    case (MasterCmd m)
    show ?thesis
      by (cases x, hypsubst, rule apply_keeps_records_fit [OF _ IH, of m]) (use snoc.prems MasterCmd in auto)
  qed (use IH snoc.prems(2) in auto)
qed

subsection \<open>Programs that respect the protocol\<close>

definition view :: "(string \<Rightarrow> ShardMap) \<Rightarrow> history \<Rightarrow> string \<Rightarrow> MyMaster \<Rightarrow> bool" where
  "view sm H s n \<longleftrightarrow> my_shard_id n = s \<and> my_shard_map n = sm s \<and>
     (\<exists>st. my_state n = MasterApp st \<and> (\<forall>x \<in> set (transaction_records st). record_fits H s x) \<and>
        (\<forall>p m. (p, m) \<in> set (files st) \<longrightarrow> seen H s p m))"

lemma sees_view:
  assumes "sees sm H s n" "\<And>c. c \<in> set (applied H s) \<Longrightarrow> command_fits H s c"
  shows "view sm H s n"
proof -
  from assms(1) obtain k st where st: "my_shard_id n = s" "my_shard_map n = sm s" "my_state n = MasterApp st"
    "set (files st) = set (files (replay (take k (applied H s))))"
    "set (transaction_records st) = set (transaction_records (replay (take k (applied H s))))"
    by (auto simp: sees_def)
  have "record_fits H s x" if "x \<in> set (transaction_records st)" for x
    by (rule replay_records_fit [of "take k (applied H s)"]) (use that st(5) assms(2) in \<open>auto dest: in_set_takeD\<close>)
  then show ?thesis using st unfolding view_def seen_def by blast
qed

text \<open>An update under the lock leaves the replicated tables and the routing of the node alone.\<close>

definition tables :: "MyMaster \<Rightarrow> string \<times> ShardMap \<times> ((string, FileMetadata) hashmap \<times> (string, TransactionRecord) hashmap) option" where
  "tables n = (my_shard_id n, my_shard_map n,
     case my_state n of MasterApp st \<Rightarrow> Some (files st, transaction_records st) | ConfigApp _ \<Rightarrow> None)"

definition effect :: "history \<Rightarrow> string \<Rightarrow> Command \<Rightarrow> raft_reply \<Rightarrow> bool" where
  "effect H s c x \<longleftrightarrow> (x = Applied \<longrightarrow> c \<in> set (applied H s))"

definition returns :: "history \<Rightarrow> rpc \<Rightarrow> rpc_reply option \<Rightarrow> bool" where
  "returns H q y \<longleftrightarrow> (\<forall>r. y = Some r \<longrightarrow> to_config q \<or> reply_fits H q r)"

text \<open>A program is safe when everything it proposes and sends fits the transactions, whatever it is answered, and its
  result satisfies a postcondition.\<close>

primrec safe :: "(string \<Rightarrow> ShardMap) \<Rightarrow> (string \<Rightarrow> string) \<Rightarrow> string \<Rightarrow> ('a \<Rightarrow> history \<Rightarrow> bool) \<Rightarrow>
    (MyMaster, rpc, rpc_reply, 'a) prog \<Rightarrow> history \<Rightarrow> bool" where
  "safe sm home s Q (Ret x) = (\<lambda>H. Q x H)"
| "safe sm home s Q (Read k) = (\<lambda>H. \<forall>H' n. later H H' \<longrightarrow> view sm H' s n \<longrightarrow> safe sm home s Q (k n) H')"
| "safe sm home s Q (Write f k) =
     (\<lambda>H. (\<forall>n. tables (f n) = tables n) \<and> (\<forall>H' n. later H H' \<longrightarrow> view sm H' s n \<longrightarrow> safe sm home s Q (k n) H'))"
| "safe sm home s Q (Propose c k) =
     (\<lambda>H. command_fits H s c \<and> (\<forall>H' x. later H H' \<longrightarrow> effect H' s c x \<longrightarrow> safe sm home s Q (k x) H'))"
| "safe sm home s Q (Send c p) = (\<lambda>H. command_fits H s c \<and> safe sm home s Q p H)"
| "safe sm home s Q (ReadIndex k) = (\<lambda>H. \<forall>H' x. later H H' \<longrightarrow> safe sm home s Q (k x) H')"
| "safe sm home s Q (LeaderInfo k) = (\<lambda>H. \<forall>H' l. later H H' \<longrightarrow> safe sm home s Q (k l) H')"
| "safe sm home s Q (GetInfo k) = (\<lambda>H. \<forall>H' i. later H H' \<longrightarrow> safe sm home s Q (k i) H')"
| "safe sm home s Q (Call a q k) =
     (\<lambda>H. request_fits home H (a, q) \<and> (\<forall>H' y. later H H' \<longrightarrow> returns H' q y \<longrightarrow> safe sm home s Q (k y) H'))"
| "safe sm home s Q (Clock k) = (\<lambda>H. \<forall>H' t. later H H' \<longrightarrow> safe sm home s Q (k t) H')"
| "safe sm home s Q (Uuid k) =
     (\<lambda>H. \<forall>H' u. later H H' \<longrightarrow> issued H' u = Some (s, planned (k u)) \<longrightarrow>
        safe sm home s Q (k u) H')"

definition stable :: "('a \<Rightarrow> history \<Rightarrow> bool) \<Rightarrow> bool" where
  "stable Q \<longleftrightarrow> (\<forall>x H H'. Q x H \<longrightarrow> later H H' \<longrightarrow> Q x H')"

lemma safe_later:
  assumes "stable Q" "safe sm home s Q p H" "later H H'"
  shows "safe sm home s Q p H'"
  using assms(2)
proof (induction p)
  case (Ret x)
  then show ?case using assms(1,3) unfolding stable_def safe.simps by blast
next
  case (Propose c k)
  then have "command_fits H' s c" using command_fits_later [OF _ assms(3)] by simp
  then show ?case using Propose.prems later_trans [OF assms(3)] unfolding safe.simps by blast
next
  case (Send c p)
  then show ?case using assms(3) by (auto intro: command_fits_later)
next
  case (Call a q k)
  then have "request_fits home H' (a, q)" using request_fits_later [OF _ assms(3)] unfolding safe.simps by blast
  then show ?case using Call.prems later_trans [OF assms(3)] unfolding safe.simps by blast
qed (insert later_trans [OF assms(3)], unfold safe.simps, blast+)

lemma planned_map [simp]: "planned (map_prog id f p) = planned p"
proof (cases p)
  case (Clock k)
  then show ?thesis by (cases "k 0") (simp_all add: planned_def split: Command.split MasterCommand.split)
qed (simp_all add: planned_def)

lemma safe_map [simp]: "safe sm home s Q (map_prog id f p) = safe sm home s (\<lambda>x. Q (f x)) p"
  by (induction p) (simp_all add: fun_eq_iff planned_map [unfolded id_def])

definition any :: "'a \<Rightarrow> history \<Rightarrow> bool" where
  "any x H = True"

lemma any_simps [simp]: "any x H" "stable any"
  by (simp_all add: any_def stable_def)

lemma safe_for_each:
  assumes Q: "stable Q" and body: "\<And>x p H'. x \<in> set xs \<Longrightarrow> later H H' \<Longrightarrow> safe sm home s Q p H' \<Longrightarrow> safe sm home s Q (body x p) H'"
    and k: "safe sm home s Q k H"
  shows "safe sm home s Q (for_each xs body k) H"
  using body
proof (induction xs)
  case Nil
  then show ?case using k by simp
next
  case (Cons x xs)
  have "safe sm home s Q (for_each xs body k) H" using Cons by simp
  then show ?case using Cons.prems [of x H] by simp
qed

end
