(* ===== verification/RenameSafety.thy ===== *)
theory RenameSafety
  imports ShardSystem
begin

section \<open>Renames between shards lose no source before its copy exists\<close>

text \<open>
  Every handler and task respects the protocol, and with it every execution of the system.
\<close>

subsection \<open>Handlers and tasks without transactions\<close>

lemma tables_on_master:
  "(\<And>st. files (f st) = files st \<and> transaction_records (f st) = transaction_records st) \<Longrightarrow> tables (on_master f n) = tables n"
  by (simp add: tables_def on_master_def split: AppState.split)

lemma tables_local [simp]:
  "tables (n\<lparr>my_monitor := m\<rparr>) = tables n" "tables (n\<lparr>my_term := t\<rparr>) = tables n"
  by (simp_all add: tables_def)

lemma safe_propose_ack [intro!]: "command_fits H s c \<Longrightarrow> safe sm home s any (propose_ack d c) H"
  by (simp add: propose_ack_def split: raft_reply.split)

lemma safe_check:
  assumes "\<And>H'. later H H' \<Longrightarrow> safe sm home s Q p H'" "\<And>e. stable Q" "\<And>e H'. Q (Inl e) H'"
  shows "safe sm home s Q (check_shard_ownership crc x p) H" "safe sm home s Q (check_safe_mode p) H"
    "safe sm home s Q (ensure_linearizable_read p) H" "safe sm home s Q (monitor_request x b p) H"
  using assms
  by (auto simp: check_shard_ownership_def check_safe_mode_def ensure_linearizable_read_def monitor_request_def Let_def
      split: option.split AppState.split raft_reply.split)

lemmas safe_checks = safe_check [where Q = any, OF _ any_simps(2) any_simps(1)]

lemma safe_file_handlers:
  "safe sm home s any (create_file crc p d e) H" "safe sm home s any (delete_file crc p) H"
  "safe sm home s any (complete_file crc p sz etag c cs) H" "safe sm home s any (get_file_info crc p) H"
  "safe sm home s any (list_files p) H" "safe sm home s any (get_block_locations b) H"
  "safe sm home s any (initiate_shuffle crc p) H" "safe sm home s any (ingest_metadata fs) H"
  unfolding create_file_def delete_file_def complete_file_def get_file_info_def list_files_def get_block_locations_def
    initiate_shuffle_def ingest_metadata_def Let_def
  by (intro safe_checks, auto split: option.split AppState.split raft_reply.split intro!: safe_checks)+

lemma safe_allocate_block: "safe sm home s any (allocate_block crc perm p) H"
  unfolding allocate_block_def
  by (intro safe_checks) (auto split: sum.split prod.split raft_reply.split)

lemma heal_tables [simp]:
  "files (heal_under_replicated_blocks st) = files st"
  "transaction_records (heal_under_replicated_blocks st) = transaction_records st"
  by (simp_all add: heal_under_replicated_blocks_def)

lemma report_bad_tables:
  "files (fold (report_bad_block a) bs st) = files st \<and>
   transaction_records (fold (report_bad_block a) bs st) = transaction_records st"
  by (induction bs arbitrary: st) (simp_all add: report_bad_block_def)

lemma heartbeat_tables:
  "files (heartbeat_state now now2 now3 req st) = files st \<and>
   transaction_records (heartbeat_state now now2 now3 req st) = transaction_records st"
  by (simp add: heartbeat_state_def record_server_def update_reported_blocks_def exit_safe_mode_def report_bad_tables Let_def)

lemma safe_node_handlers:
  "safe sm home s any (register_chunk_server a c r) H" "safe sm home s any (heartbeat req) H"
  "safe sm home s any get_safe_mode_status H" "safe sm home s any (set_safe_mode b) H"
  "safe sm home s any (add_raft_server i a) H" "safe sm home s any (remove_raft_server i) H"
  "safe sm home s any get_cluster_info H" "safe sm home s any update_term H"
  by (auto simp: register_chunk_server_def heartbeat_def get_safe_mode_status_def set_safe_mode_def add_raft_server_def
      remove_raft_server_def get_cluster_info_def update_term_def take_commands_def heartbeat_tables force_enter_safe_mode_def
      enter_safe_mode_def force_exit_safe_mode_def exit_safe_mode_def
      split: option.split AppState.split intro!: tables_on_master safe_checks)

lemma safe_if_leader: "(\<And>H'. later H H' \<Longrightarrow> safe sm home s any p H') \<Longrightarrow> safe sm home s any (if_leader p) H"
  by (auto simp: if_leader_def dest: later_trans split: option.split)

lemma shuffle_tables: "files (shuffle_prefix servers p st) = files st \<and>
    transaction_records (shuffle_prefix servers p st) = transaction_records st"
  by (simp add: shuffle_prefix_def split: prod.split option.split)

lemma safe_always: "safe sm home s any p H \<Longrightarrow> later H H' \<Longrightarrow> safe sm home s any p H'"
  by (rule safe_later) simp_all

lemma safe_data_tasks:
  "safe sm home s any run_data_shuffler H" "safe sm home s any run_metrics_decay H" "safe sm home s any scan_tiering H"
  "safe sm home s any scan_ec_conversion H"
  by (auto simp: run_data_shuffler_def run_metrics_decay_def scan_tiering_def scan_ec_conversion_def queue_move_to_cold_def
      Let_def shuffle_tables intro!: safe_for_each safe_if_leader tables_on_master)
    (meson safe_always later_trans)+

lemma safe_push_metadata: "safe sm home s any (push_metadata fs ps) H"
  by (induction ps arbitrary: H) (auto split: option.split)

lemma safe_jobs:
  "safe sm home s any (migrate_split p i j fs addrs) H" "safe sm home s any (migrate_merge v r addrs) H"
  by (induction addrs arbitrary: H)
    (auto simp: safe_push_metadata Let_def split: option.split rpc_reply.split)

lemma safe_register_with:
  "(\<And>H' b. later H H' \<Longrightarrow> safe sm home s any (k b) H') \<Longrightarrow> safe sm home s any (register_with a i addrs k) H"
  by (induction addrs arbitrary: H) (auto split: option.split rpc_reply.split, (meson later_trans)+)

lemma safe_detectors:
  "(\<And>H' r. later H H' \<Longrightarrow> safe sm home s any (k r) H') \<Longrightarrow> safe sm home s any (detect_split i k) H"
  "(\<And>H' j. later H H' \<Longrightarrow> safe sm home s any (k' j) H') \<Longrightarrow> safe sm home s any (detect_merge i k') H"
  by (auto simp: detect_split_def detect_merge_def Let_def split: option.split raft_reply.split prod.split) (meson later_trans)+

lemma safe_run_split_detector: "safe sm home s any (run_split_detector b) H"
  by (auto simp: run_split_detector_def heartbeat_config_def Let_def split: option.split
      intro!: safe_register_with safe_for_each safe_detectors) (meson safe_always)+

lemma safe_run_job: "safe sm home s any (run_job addrs j) H"
  by (cases j) (simp_all add: safe_jobs)

subsection \<open>The participant\<close>

definition post :: "rpc \<Rightarrow> rpc_reply option \<Rightarrow> history \<Rightarrow> bool" where
  "post q r H \<longleftrightarrow> (\<forall>y. r = Some y \<longrightarrow> reply_fits H q y)"

lemma stable_post: "stable (post q)"
  unfolding stable_def post_def using reply_fits_later by blast

lemma safe_any_post: "safe sm home s any p H \<Longrightarrow> (\<And>x H. Q x H) \<Longrightarrow> safe sm home s Q p H"
proof -
  assume "safe sm home s any p H" "\<And>x H. Q x H"
  moreover from this have "Q = any" by (simp add: fun_eq_iff)
  ultimately show ?thesis by simp
qed

lemma view_record:
  assumes "view sm H s n" "find_record t n = Some r"
  shows "record_fits H s (t, r)"
  using assms by (auto simp: view_def find_record_def dest!: map_of_SomeD)

lemma safe_prepare_transaction:
  assumes "request_fits home H (a, PrepareTransaction t q metadata c)"
  shows "safe sm home (home a) any (prepare_transaction crc t q metadata c) H"
proof -
  obtain p m where d: "deal H t c p (home a) q m" and m: "metadata = Some m" using assms by auto
  have rec: "record_fits H' (home a) (t, participant_record now (home a) t q metadata c)" if "later H H'" for H' now
    unfolding record_fits_def using deal_later [OF d that] m by (auto simp: participant_record_def)
  have fits: "record_fits H' (home a) (tx_id (participant_record now (my_shard_id n) t q metadata c),
      participant_record now (my_shard_id n) t q metadata c)" if "later H H'" "view sm H' (home a) n" for H' n now
    using rec [OF that(1)] that(2) by (simp add: view_def participant_record_def)
  show ?thesis
    unfolding prepare_transaction_def
    by (auto simp: Let_def split: AppState.split intro!: safe_checks) (meson later_trans fits)+
qed

lemma participant_operation:
  assumes "record_fits H s (t, r)" "first_operation r = Some oper" "coordinator_shard r \<noteq> s"
  shows "command_fits H s (MasterCmd (ApplyTransactionOperation t oper))"
    "MasterCmd (ApplyTransactionOperation t oper) \<in> set (applied H s) \<Longrightarrow> created H t"
proof -
  from assms obtain s0 p q m where d: "deal H t s0 p s q m" and o: "oper = \<lparr>op_shard_id = s, op_type = Create q m\<rparr>"
    by (auto simp: record_fits_def first_operation_def)
  show "command_fits H s (MasterCmd (ApplyTransactionOperation t oper))" using d o by auto
  assume "MasterCmd (ApplyTransactionOperation t oper) \<in> set (applied H s)"
  then show "created H t" unfolding created_def o using d by blast
qed

lemma safe_commit_transaction:
  assumes "request_fits home H (a, CommitTransaction t)"
  shows "safe sm home (home a) (post (CommitTransaction t) \<circ> ack_reply) (commit_transaction t) H"
proof -
  obtain s p q m where d: "deal H t s p (home a) q m" using assms by auto
  have co: "coordinator_shard r \<noteq> home a" if "later H H'" "record_fits H' (home a) (t, r)" for H' r
    using deal_later [OF d that(1)] that(2) by (auto simp: record_fits_def deal_def)
  have fin: "created H' t" if "view sm H' (home a) n" "find_record t n = Some r" "tx_state r = Committed" for H' n r
    using view_record [OF that(1,2)] that(3) by (simp add: record_fits_def)
  have oper: "command_fits H' (home a) (MasterCmd (ApplyTransactionOperation t oper))"
    "MasterCmd (ApplyTransactionOperation t oper) \<in> set (applied H'' (home a)) \<Longrightarrow> later H' H'' \<Longrightarrow> created H'' t"
    if l: "later H H'" and v: "view sm H' (home a) n" and f: "find_record t n = Some r" "first_operation r = Some oper"
    for H' H'' n r oper
    using participant_operation [OF view_record [OF v f(1)] f(2) co [OF l view_record [OF v f(1)]]]
      participant_operation [OF record_fits_later [OF view_record [OF v f(1)]] f(2) co [OF l view_record [OF v f(1)]], of H'']
    by blast+
  have body: "safe sm home (home a) (post (CommitTransaction t) \<circ> ack_reply)
      (Propose (MasterCmd (ApplyTransactionOperation t oper)) (\<lambda>reply.
         case reply of
           ChannelClosed \<Rightarrow> Ret (Inl (Internal ''Raft channel closed''))
         | Dropped \<Rightarrow> Ret (Inl (Internal ''Raft response error''))
         | NotLeader leader_opt \<Rightarrow> Ret (Inr (ack_not_leader leader_opt))
         | Applied \<Rightarrow> Propose (MasterCmd (UpdateTransactionState t Committed)) (\<lambda>_. Ret (Inr ack_ok)))) H'"
    if "later H H'" "view sm H' (home a) n" "find_record t n = Some r" "first_operation r = Some oper" for H' n r oper
    using oper(1) [OF that] oper(2) [OF that]
    by (auto simp: post_def effect_def ack_not_leader_def simp del: command_fits.simps(3) split: raft_reply.split
        intro: created_later)
  show ?thesis
    unfolding commit_transaction_def
  proof (unfold safe.simps, intro allI impI)
    fix H' n
    assume l: "later H H'" and v: "view sm H' (home a) n"
    show "safe sm home (home a) (post (CommitTransaction t) \<circ> ack_reply)
      (if case find_record t n of None \<Rightarrow> False | Some r \<Rightarrow> tx_state r = Committed then Ret (Inr ack_ok)
       else Read (\<lambda>n'. case Option.bind (find_record t n') first_operation of
          None \<Rightarrow> Ret (Inr (ack_error (''Transaction not found: '' @ t)))
        | Some oper \<Rightarrow> Propose (MasterCmd (ApplyTransactionOperation t oper)) (\<lambda>reply.
             case reply of
               Applied \<Rightarrow> Propose (MasterCmd (UpdateTransactionState t Committed)) (\<lambda>_. Ret (Inr ack_ok))
             | NotLeader leader_opt \<Rightarrow> Ret (Inr (ack_not_leader leader_opt))
             | Dropped \<Rightarrow> Ret (Inl (Internal ''Raft response error''))
             | ChannelClosed \<Rightarrow> Ret (Inl (Internal ''Raft channel closed''))))) H'"
      using fin [OF v] body [OF later_trans [OF l]]
      by (auto simp: post_def ack_error_def bind_eq_Some_conv simp del: safe.simps(4) split: option.split option.split_asm)
  qed
qed

lemma safe_inquire_transaction:
  "safe sm home s (post (InquireTransaction t) \<circ> inquire_reply) (inquire_transaction t) H"
proof -
  have "created H' t" if "view sm H' s n" "my_state n = MasterApp st" "hm_get (transaction_records st) t = Some r"
    "tx_state r = Committed" for H' n st r
    using view_record [of sm H' s n t r] that by (simp add: find_record_def record_fits_def)
  then show ?thesis
    unfolding inquire_transaction_def
    by (intro safe_check)
      (auto simp: post_def stable_def dest: reply_fits_later split: AppState.split option.split TxState.split)
qed

lemma safe_serve:
  assumes "request_fits home H (a, q)"
  shows "safe sm home (home a) (post q) (serve crc q) H"
proof (cases q)
  case (PrepareTransaction t p metadata c)
  have "safe sm home (home a) any (prepare_transaction crc t p metadata c) H"
    using assms PrepareTransaction by (intro safe_prepare_transaction) simp
  then show ?thesis using PrepareTransaction by (auto simp: post_def elim!: safe_any_post elim: ack_reply.elims)
next
  case (CommitTransaction t)
  then show ?thesis using safe_commit_transaction [of home H a t sm] assms by (simp add: comp_def)
next
  case (InquireTransaction t)
  then show ?thesis using safe_inquire_transaction [of sm home "home a" t H] by (simp add: comp_def)
next
  case (AbortTransaction t)
  have "safe sm home (home a) any (abort_transaction t) H"
    unfolding abort_transaction_def by (rule safe_propose_ack) simp
  then show ?thesis using AbortTransaction by (auto simp: post_def elim!: safe_any_post)
next
  case (IngestMetadata fs)
  then show ?thesis using safe_file_handlers(8) [of sm home "home a" fs H] by (auto simp: post_def elim!: safe_any_post)
qed (simp_all add: post_def)

subsection \<open>The coordinator\<close>

text \<open>The addresses the shard maps list for a shard belong to nodes of the shard.\<close>

definition routing_ok :: "(string \<Rightarrow> ShardMap) \<Rightarrow> (string \<Rightarrow> string) \<Rightarrow> bool" where
  "routing_ok sm home \<longleftrightarrow> (\<forall>s d ps a. get_shard_peers d (sm s) = Some ps \<longrightarrow> a \<in> set ps \<longrightarrow>
     home (with_scheme a) = d \<and> home (with_http a) = d)"

lemma safe_send_to_dest_shard:
  assumes "\<And>a. a \<in> set ps \<Longrightarrow> request_fits home H (with_scheme a, q)"
    "\<And>H' b. later H H' \<Longrightarrow> (\<And>t. b \<Longrightarrow> q = CommitTransaction t \<Longrightarrow> created H' t) \<Longrightarrow> safe sm home s Q (k b) H'"
  shows "safe sm home s Q (send_to_dest_shard q ps k) H"
  using assms
proof (induction ps arbitrary: H)
  case (Cons a ps)
  have IH: "safe sm home s Q (send_to_dest_shard q ps k) H'" if "later H H'" for H'
  proof (rule Cons.IH)
    show "request_fits home H' (with_scheme b, q)" if "b \<in> set ps" for b
      by (rule request_fits_later [OF Cons.prems(1) \<open>later H H'\<close>]) (use that in simp)
  qed (use Cons.prems(2) later_trans [OF that] in blast)
  have ok: "safe sm home s Q (k b) H'" if "later H H'" "b \<Longrightarrow> returns H' q (Some (AckReply x))" "b \<Longrightarrow> success x" for H' b x
    by (rule Cons.prems(2) [OF that(1)]) (use that in \<open>auto simp: returns_def to_config_def\<close>)
  show ?case
    using Cons.prems(1) IH ok by (auto split: option.split rpc_reply.split)
qed simp

lemma safe_commit_peers:
  assumes "\<And>a. a \<in> set ps \<Longrightarrow> request_fits home H (with_http a, CommitTransaction t)"
    "\<And>H' b. later H H' \<Longrightarrow> (b \<Longrightarrow> created H' t) \<Longrightarrow> safe sm home s Q (k b) H'"
  shows "safe sm home s Q (commit_peers t ps k) H"
  using assms
proof (induction ps arbitrary: H)
  case (Cons a ps)
  have IH: "safe sm home s Q (commit_peers t ps k) H'" if "later H H'" for H'
  proof (rule Cons.IH)
    show "request_fits home H' (with_http b, CommitTransaction t)" if "b \<in> set ps" for b
      by (rule request_fits_later [OF Cons.prems(1) \<open>later H H'\<close>]) (use that in simp)
  qed (use Cons.prems(2) later_trans [OF that] in blast)
  show ?case
    using Cons.prems IH by (auto simp: returns_def to_config_def split: option.split rpc_reply.split)
qed simp

lemma safe_inquire_peers:
  assumes "\<And>H' st. later H H' \<Longrightarrow> (st = Some ''COMMITTED'' \<Longrightarrow> created H' t) \<Longrightarrow> safe sm home s Q (k st) H'"
  shows "safe sm home s Q (inquire_peers t ps k) H"
  using assms
proof (induction ps arbitrary: H)
  case (Cons a ps)
  have IH: "safe sm home s Q (inquire_peers t ps k) H'" if "later H H'" for H'
    by (rule Cons.IH) (use Cons.prems later_trans [OF that] in blast)
  show ?case
    using Cons.prems IH by (auto simp: returns_def to_config_def split: option.split rpc_reply.split)
next
  case Nil
  then show ?case using Nil [of H None] by simp
qed

lemma safe_rename_commit:
  assumes "deal H t s p d q m" "\<And>a. a \<in> set ps \<Longrightarrow> home (with_scheme a) = d"
  shows "safe sm home s any (rename_commit t p s ps) H"
  unfolding rename_commit_def send_commit_to_dest_shard_def
proof (rule safe_send_to_dest_shard)
  show "request_fits home H (with_scheme a, CommitTransaction t)" if "a \<in> set ps" for a
    using assms that by auto
  fix H' b
  assume l: "later H H'" and c: "\<And>t'. b \<Longrightarrow> CommitTransaction t = CommitTransaction t' \<Longrightarrow> created H' t'"
  have d: "deal H' t s p d q m" using assms(1) l by (rule deal_later)
  have "command_fits H' s (MasterCmd (ApplyTransactionOperation t \<lparr>op_shard_id = s, op_type = Delete p\<rparr>))" if b
    using d c [OF that] by auto
  then show "safe sm home s any (if \<not> b then Ret (Inr (ack_error ''Cross-shard commit pending, will be retried''))
       else Propose (MasterCmd (ApplyTransactionOperation t \<lparr>op_shard_id = s, op_type = Delete p\<rparr>))
         (\<lambda>_. Propose (MasterCmd (UpdateTransactionState t Committed))
           (\<lambda>_. Propose (MasterCmd (SetParticipantAcked t)) (\<lambda>_. Ret (Inr ack_ok))))) H'"
    using c by (auto simp del: command_fits.simps(3) intro: created_later)
qed

lemma safe_send_abort:
  "(\<And>H' b. later H H' \<Longrightarrow> safe sm home s Q (k b) H') \<Longrightarrow> safe sm home s Q (send_abort_to_dest_shard t ps k) H"
  unfolding send_abort_to_dest_shard_def by (rule safe_send_to_dest_shard) auto

lemma safe_rename_prepare:
  assumes d: "deal H t s p d q m" and h: "\<And>a. a \<in> set ps \<Longrightarrow> home (with_scheme a) = d"
  shows "safe sm home s any (rename_prepare s t p q s m ps) H"
  unfolding rename_prepare_def send_prepare_to_dest_shard_def
proof (rule safe_send_to_dest_shard)
  show "request_fits home H (with_scheme a, PrepareTransaction t q (Some m) s)" if "a \<in> set ps" for a
    using d h [OF that] by auto
  show "safe sm home s any (if b then rename_commit t p s ps
      else send_abort_to_dest_shard t ps (\<lambda>_. Propose (MasterCmd (UpdateTransactionState t Aborted))
        (\<lambda>_. Ret (Inr (ack_error ''Cross-shard prepare failed''))))) H'" if "later H H'" for H' b
  proof -
    have "safe sm home s any (rename_commit t p s ps) H'"
      by (rule safe_rename_commit [where d = d and q = q and m = m]) (rule deal_later [OF d that], rule h)
    then show ?thesis by (simp add: safe_send_abort)
  qed
qed

lemma planned_rename:
  "planned (rename_cross_shard sid p q s d m ps t) =
     [\<lparr>op_shard_id = s, op_type = Delete p\<rparr>, \<lparr>op_shard_id = d, op_type = Create q (m\<lparr>path := q\<rparr>)\<rparr>]"
  by (simp add: rename_cross_shard_def planned_def new_rename_def Let_def)

lemma safe_rename_cross_shard:
  assumes d: "deal H t s p d q (m\<lparr>path := q\<rparr>)" and h: "\<And>a. a \<in> set ps \<Longrightarrow> home (with_scheme a) = d"
  shows "safe sm home s any (rename_cross_shard s p q s d m ps t) H"
proof -
  have rec: "record_fits H' s (t, new_rename now t p q s d (m\<lparr>path := q\<rparr>))" if "later H H'" for H' now
    unfolding record_fits_def using deal_later [OF d that] by (auto simp: new_rename_def)
  have tid: "tx_id (new_rename now t p q s d (m\<lparr>path := q\<rparr>)) = t" for now by (simp add: new_rename_def)
  have prep: "safe sm home s any (rename_prepare s t p q s (m\<lparr>path := q\<rparr>) ps) H'" if "later H H'" for H'
    using deal_later [OF d that] h by (rule safe_rename_prepare)
  show ?thesis
    unfolding rename_cross_shard_def Let_def
    by (auto simp: tid rec intro!: safe_send_abort prep split: raft_reply.split) (meson later_trans)+
qed

lemma safe_rename_between:
  assumes h: "\<And>a. a \<in> set ps \<Longrightarrow> home (with_scheme a) = d"
  shows "safe sm home s any (rename_between s s d ps p q) H"
proof -
  have "safe sm home s any (rename_cross_shard s p q s d m ps t) H''"
    if "view sm H' s n" "my_state n = MasterApp st" "hm_get (files st) p = Some m" "s \<noteq> d" "later H' H''"
      "issued H'' t = Some (s, planned (rename_cross_shard s p q s d m ps t))" for H' H'' n st m t
  proof (rule safe_rename_cross_shard)
    have "seen H' s p m" using that(1-3) by (auto simp: view_def dest: map_of_SomeD)
    then show "deal H'' t s p d q (m\<lparr>path := q\<rparr>)"
      using that(4-6) by (auto simp: deal_def planned_rename dest: seen_later)
  qed (rule h)
  then show ?thesis
    unfolding rename_between_def by (auto simp: safe_propose_ack split: AppState.split option.split)
qed

lemma view_sel: "view sm H s n \<Longrightarrow> my_shard_id n = s \<and> my_shard_map n = sm s"
  by (simp add: view_def)

lemma safe_rename:
  assumes "routing_ok sm home"
  shows "safe sm home s any (rename crc p q) H"
proof -
  let ?src = "case get_shard crc p (sm s) of Some x \<Rightarrow> x | None \<Rightarrow> s"
  let ?dst = "case get_shard crc q (sm s) of Some x \<Rightarrow> x | None \<Rightarrow> s"
  let ?ps = "case get_shard_peers ?dst (sm s) of Some x \<Rightarrow> x | None \<Rightarrow> []"
  have home: "home (with_scheme a) = ?dst" if "a \<in> set ?ps" for a
    using assms [unfolded routing_ok_def, rule_format, of ?dst s] that
    by (cases "get_shard_peers ?dst (sm s)") auto
  have "safe sm home s any (rename_between s s ?dst ?ps p q) H'" for H'
    by (rule safe_rename_between) (rule home)
  then have "safe sm home s any (check_shard_ownership crc p (check_safe_mode (Read (\<lambda>m.
       rename_between (my_shard_id m) (case get_shard crc p (my_shard_map m) of Some s \<Rightarrow> s | None \<Rightarrow> my_shard_id m)
         (case get_shard crc q (my_shard_map m) of Some s \<Rightarrow> s | None \<Rightarrow> my_shard_id m)
         (case get_shard_peers (case get_shard crc q (my_shard_map m) of Some s \<Rightarrow> s | None \<Rightarrow> my_shard_id m)
            (my_shard_map m) of Some ps \<Rightarrow> ps | None \<Rightarrow> []) p q)))) H'" for H'
    by (auto simp: check_shard_ownership_def check_safe_mode_def Let_def dest!: view_sel split: option.split AppState.split)
  then show ?thesis unfolding rename_def Let_def by (rule safe_checks(4))
qed

subsection \<open>Cleanup and recovery\<close>

lemma safe_via_raft:
  "command_fits H s (MasterCmd c) \<Longrightarrow> (\<And>H'. later H H' \<Longrightarrow> safe sm home s Q k H') \<Longrightarrow> safe sm home s Q (via_raft c k) H"
  by (simp add: via_raft_def)

lemma safe_abort_delete:
  assumes "safe sm home s any k H"
  shows "safe sm home s any (abort_via_raft t k) H" "safe sm home s any (delete_via_raft t k) H"
    "safe sm home s any (increment_inquiry_count_via_raft t k) H" "safe sm home s any (via_raft (SetParticipantAcked t) k) H"
  unfolding abort_via_raft_def delete_via_raft_def increment_inquiry_count_via_raft_def
  by (auto intro!: safe_via_raft safe_always [OF assms])

lemma safe_commit_via_raft: "created H t \<Longrightarrow> safe sm home s any k H \<Longrightarrow> safe sm home s any (commit_via_raft t k) H"
  unfolding commit_via_raft_def by (auto intro!: safe_via_raft intro: safe_always)

lemma safe_resolve_inquiry:
  assumes r: "record_fits H s (t, r)" "coordinator_shard r \<noteq> s" and k: "safe sm home s any k H"
    and c: "st = Some ''COMMITTED'' \<Longrightarrow> created H t"
  shows "safe sm home s any (resolve_inquiry t r st k) H"
proof -
  have "safe sm home s any (apply_operation_via_raft t oper (commit_via_raft t k)) H"
    if "st = Some ''COMMITTED''" "first_operation r = Some oper" for oper
    unfolding apply_operation_via_raft_def
  proof (rule safe_via_raft)
    show "command_fits H s (MasterCmd (ApplyTransactionOperation t oper))"
      by (rule participant_operation(1) [OF r(1) that(2) r(2)])
    show "safe sm home s any (commit_via_raft t k) H'" if "later H H'" for H'
      using safe_commit_via_raft created_later [OF c [OF \<open>st = _\<close>] that] safe_always [OF k that] .
  qed
  then show ?thesis
    unfolding resolve_inquiry_def using k by (auto intro: safe_abort_delete split: option.split)
qed

lemma safe_cleanup_record:
  assumes r: "record_fits H s (t, r)" and k: "safe sm home s any k H"
  shows "safe sm home s any (cleanup_record s (t, r) k) H"
proof -
  have inquire: "safe sm home s any (inquire_peers t ps (\<lambda>st. resolve_inquiry t r st k)) H'"
    if "later H H'" "coordinator_shard r \<noteq> s" for H' ps
  proof (rule safe_inquire_peers)
    fix H'' st
    assume l: "later H' H''" and c: "st = Some ''COMMITTED'' \<Longrightarrow> created H'' t"
    have "later H H''" using that(1) l by (rule later_trans)
    then show "safe sm home s any (resolve_inquiry t r st k) H''"
      using that(2) c by (intro safe_resolve_inquiry record_fits_later [OF r] safe_always [OF k])
  qed
  have k': "safe sm home s any k H'" if "later H H'" for H' using k that by (rule safe_always)
  note fin = safe_abort_delete(1,2) [OF k'] k'
  have "safe sm home s any (if coordinator_shard r = []
       then (if tx_state r = Pending \<or> tx_state r = Prepared
             then (if is_timed_out now r then abort_via_raft t k else k)
             else if is_stale now r then delete_via_raft t k else k)
       else let is_coordinator = (coordinator_shard r = s)
            in case tx_state r of
                 Pending \<Rightarrow> if is_timed_out now r then abort_via_raft t k else k
               | Prepared \<Rightarrow>
                   if is_coordinator then k
                   else if \<not> is_timed_out now r then k
                   else Read (\<lambda>n.
                     let coordinator_peers = shard_peers_of (coordinator_shard r) n
                     in if coordinator_peers = [] then k
                        else inquire_peers t coordinator_peers (\<lambda>status. resolve_inquiry t r status k))
               | Committed \<Rightarrow>
                   if is_coordinator \<and> \<not> participant_acked r then k
                   else if is_stale now r then delete_via_raft t k else k
               | Aborted \<Rightarrow> if is_stale now r then delete_via_raft t k else k) H'" if "later H H'" for now H'
    using fin [OF that] k' [OF later_trans [OF that]] inquire [OF later_trans [OF that]]
    by (cases "coordinator_shard r = []"; cases "tx_state r") (simp_all add: Let_def)
  then show ?thesis unfolding cleanup_record_def by simp
qed

lemma safe_recover_record:
  assumes route: "routing_ok sm home" and r: "record_fits H s (t, r)" "coordinator_shard r = s" and k: "safe sm home s any k H"
  shows "safe sm home s any (recover_record s (t, r) k) H"
proof -
  from r obtain p d q m where d1: "deal H t s p d q m" and x: "participants r = [s, d] \<and>
      operations r = [\<lparr>op_shard_id = s, op_type = Delete p\<rparr>, \<lparr>op_shard_id = d, op_type = Create q m\<rparr>] \<or> s = d"
    unfolding record_fits_def fst_conv snd_conv by blast
  have "d \<noteq> s" using d1 by (simp add: deal_def)
  with x have d: "deal H t s p d q m" "participants r = [s, d]" "d \<noteq> s"
    "operations r = [\<lparr>op_shard_id = s, op_type = Delete p\<rparr>, \<lparr>op_shard_id = d, op_type = Create q m\<rparr>]"
    using d1 by simp_all
  have peer: "home (with_http a) = d" if "a \<in> set (shard_peers_of d n)" "view sm H' s n" for a n H'
    using route [unfolded routing_ok_def, rule_format, of d s] that(1) view_sel [OF that(2)]
    by (cases "get_shard_peers d (sm s)") (auto simp: shard_peers_of_def)
  have finish: "safe sm home s any (case tx_state r of
         Committed \<Rightarrow> via_raft (SetParticipantAcked t) k
       | Prepared \<Rightarrow>
           (let finish = commit_via_raft t (via_raft (SetParticipantAcked t) k)
            in case delete_operation r of
                 Some delete_op \<Rightarrow> apply_operation_via_raft t delete_op finish
               | None \<Rightarrow> finish)
       | _ \<Rightarrow> k) H'" if l: "later H H'" and c: "created H' t" for H'
  proof -
    have k': "safe sm home s any (commit_via_raft t (via_raft (SetParticipantAcked t) k)) H''" if "later H' H''" for H''
      using created_later [OF c that] safe_always [OF k later_trans [OF l that]]
      by (intro safe_commit_via_raft safe_abort_delete)
    have "command_fits H' s (MasterCmd (ApplyTransactionOperation t \<lparr>op_shard_id = s, op_type = Delete p\<rparr>))"
      using deal_later [OF d(1) l] c by auto
    then have "safe sm home s any (apply_operation_via_raft t \<lparr>op_shard_id = s, op_type = Delete p\<rparr>
        (commit_via_raft t (via_raft (SetParticipantAcked t) k))) H'"
      unfolding apply_operation_via_raft_def by (rule safe_via_raft) (rule k')
    then show ?thesis
      using safe_always [OF k l] d(4) by (auto simp: delete_operation_def safe_abort_delete split: TxState.split)
  qed
  have dest: "unwrap_or_default (find (\<lambda>p. p \<noteq> s) (participants r)) = d"
    using d(2,3) by (simp add: unwrap_or_default_def)
  have "safe sm home s any (commit_peers t (shard_peers_of d n) (\<lambda>commit_ok. if \<not> commit_ok then k else
      (case tx_state r of
         Committed \<Rightarrow> via_raft (SetParticipantAcked t) k
       | Prepared \<Rightarrow>
           (let finish = commit_via_raft t (via_raft (SetParticipantAcked t) k)
            in case delete_operation r of
                 Some delete_op \<Rightarrow> apply_operation_via_raft t delete_op finish
               | None \<Rightarrow> finish)
       | _ \<Rightarrow> k))) H'" if l: "later H H'" and v: "view sm H' s n" for H' n
  proof (rule safe_commit_peers)
    show "request_fits home H' (with_http a, CommitTransaction t)" if "a \<in> set (shard_peers_of d n)" for a
      using deal_later [OF d(1) l] peer [OF that v] by auto
  qed (use finish safe_always [OF k] later_trans [OF l] in \<open>simp add: Let_def\<close>)
  then show ?thesis
    unfolding recover_record_def using safe_always [OF k] by (simp add: dest Let_def)
qed

lemma all_records_view: "view sm H s n \<Longrightarrow> (t, r) \<in> set (all_records n) \<Longrightarrow> record_fits H s (t, r)"
  by (auto simp: view_def all_records_def)

lemma safe_transaction_tasks:
  assumes "routing_ok sm home"
  shows "safe sm home s any run_transaction_cleanup H" "safe sm home s any run_transaction_recovery H"
proof -
  have rec: "record_fits H'' s x" if "view sm H' s n" "x \<in> set (all_records n)" "later H' H''" for H' H'' n x
    using record_fits_later [OF all_records_view [OF that(1), of "fst x" "snd x"] that(3)] that(2) by simp
  have step: "safe sm home s any (cleanup_record (my_shard_id n) x p) H''"
    "coordinator_shard (snd x) = my_shard_id n \<Longrightarrow> safe sm home s any (recover_record (my_shard_id n) x p) H''"
    if "view sm H' s n" "x \<in> set (all_records n)" "later H' H''" "safe sm home s any p H''" for H' H'' n x p
    using safe_cleanup_record [of H'' s "fst x" "snd x"] safe_recover_record [OF assms, of H'' s "fst x" "snd x"]
      rec [OF that(1-3)] view_sel [OF that(1)] that(4) by simp_all
  show "safe sm home s any run_transaction_cleanup H" "safe sm home s any run_transaction_recovery H"
    unfolding run_transaction_cleanup_def run_transaction_recovery_def by (auto intro!: safe_for_each step)
qed

subsection \<open>The invariant\<close>

lemma safe_work_prog:
  assumes "routing_ok sm home"
  shows "safe sm home s any (work_prog crc perm w) H"
proof -
  have silent: "(\<lambda>x. any (silent x)) = (any :: 'x \<Rightarrow> history \<Rightarrow> bool)"
    "(\<lambda>x. any (ack_reply x)) = any" "(\<lambda>x. any (silent ())) = (any :: unit \<Rightarrow> history \<Rightarrow> bool)" by (simp_all add: fun_eq_iff any_def)
  show ?thesis
    by (cases w) (simp_all add: silent safe_rename [OF assms] safe_transaction_tasks [OF assms] safe_file_handlers
        safe_allocate_block safe_node_handlers safe_data_tasks safe_run_split_detector safe_run_job)
qed

definition thread_post :: "(string \<times> rpc) option \<Rightarrow> rpc_reply option \<Rightarrow> history \<Rightarrow> bool" where
  "thread_post rq = (case rq of None \<Rightarrow> any | Some aq \<Rightarrow> post (snd aq))"

lemma stable_thread_post: "stable (thread_post rq)"
  by (simp add: thread_post_def stable_post split: option.split)

definition ok_at :: "(string \<Rightarrow> ShardMap) \<Rightarrow> (string \<Rightarrow> string) \<Rightarrow> history \<Rightarrow> sys \<Rightarrow> bool" where
  "ok_at sm home H \<sigma> \<longleftrightarrow>
     (\<forall>s. \<forall>c \<in> submitted \<sigma> s \<union> set (applied (hist \<sigma>) s). command_fits H s c) \<and>
     (\<forall>aq \<in> sent \<sigma>. request_fits home H aq) \<and>
     (\<forall>aqr \<in> replies \<sigma>. reply_fits H (snd (fst aqr)) (snd aqr)) \<and>
     (\<forall>th \<in> set (threads \<sigma>). safe sm home (fst th) (thread_post (fst (snd th))) (snd (snd th)) H)"

lemma ok_at_later: "ok_at sm home H \<sigma> \<Longrightarrow> later H H' \<Longrightarrow> ok_at sm home H' \<sigma>"
  unfolding ok_at_def
  by (meson command_fits_later request_fits_later reply_fits_later safe_later [OF stable_thread_post])

lemma ok_at_thread:
  assumes "ok_at sm home H \<sigma>" "i < length (threads \<sigma>)" "threads \<sigma> ! i = (s, rq, p)"
  shows "safe sm home s (thread_post rq) p H"
proof -
  have "(s, rq, p) \<in> set (threads \<sigma>)" using assms(2,3) by (metis nth_mem)
  then show ?thesis using assms(1) unfolding ok_at_def by fastforce
qed

lemma ok_at_goto:
  assumes "ok_at sm home H \<sigma>" "i < length (threads \<sigma>)" "threads \<sigma> ! i = (s, rq, p)" "safe sm home s (thread_post rq) p' H"
  shows "ok_at sm home H (goto i p' \<sigma>)"
proof -
  have "set (threads (goto i p' \<sigma>)) \<subseteq> insert (s, rq, p') (set (threads \<sigma>))"
    using set_update_subset_insert assms(3) by (simp add: goto_def)
  then show ?thesis using assms(1,4) by (auto simp: ok_at_def goto_def)
qed

lemma hist_goto [simp]: "hist (goto i p \<sigma>) = hist \<sigma>"
  by (simp add: goto_def)

lemma later_apply: "later H (H\<lparr>applied := (applied H)(s := applied H s @ [c])\<rparr>)"
  by (simp add: later_def)

lemma later_issue: "issued H u = None \<Longrightarrow> later H (H\<lparr>issued := (issued H)(u \<mapsto> x)\<rparr>)"
  by (auto simp: later_def map_le_def)

lemma ok_at_add_thread:
  "ok_at sm home H \<sigma> \<Longrightarrow> safe sm home s (thread_post rq) p H \<Longrightarrow> ok_at sm home H (\<sigma>\<lparr>threads := threads \<sigma> @ [(s, rq, p)]\<rparr>)"
  by (simp add: ok_at_def)

lemma ok_at_submit:
  "ok_at sm home H \<sigma> \<Longrightarrow> command_fits H s c \<Longrightarrow>
     ok_at sm home H (\<sigma>\<lparr>submitted := (submitted \<sigma>)(s := insert c (submitted \<sigma> s))\<rparr>)"
  by (auto simp: ok_at_def)

lemma step_ok:
  assumes route: "routing_ok sm home" and "step crc perm sm home \<sigma> \<sigma>'" and ok: "ok_at sm home (hist \<sigma>) \<sigma>"
  shows "ok_at sm home (hist \<sigma>') \<sigma>'"
  using assms(2)
proof cases
  case (start s w)
  have "thread_post None = any" by (simp add: thread_post_def)
  then show ?thesis using ok_at_add_thread [OF ok] safe_work_prog [OF route] start by simp
next
  case (deliver a q)
  have "request_fits home (hist \<sigma>) (a, q)" using ok deliver(2) by (auto simp: ok_at_def)
  then have "safe sm home (home a) (thread_post (Some (a, q))) (serve crc q) (hist \<sigma>)"
    by (simp add: thread_post_def safe_serve)
  then show ?thesis using ok_at_add_thread [OF ok] deliver by simp
next
  case (apply_submitted c s)
  let ?H = "(hist \<sigma>)\<lparr>applied := (applied (hist \<sigma>))(s := applied (hist \<sigma>) s @ [c])\<rparr>"
  have "ok_at sm home ?H \<sigma>" using ok later_apply by (rule ok_at_later)
  then show ?thesis using apply_submitted by (auto simp: ok_at_def)
next
  case (read i s rq k n)
  have "view sm (hist \<sigma>) s n" by (rule sees_view [OF read(4)]) (use ok in \<open>auto simp: ok_at_def\<close>)
  then show ?thesis using ok_at_thread [OF ok read(2,3)] ok_at_goto [OF ok read(2,3)] read by simp
next
  case (update i s rq f k n)
  have "view sm (hist \<sigma>) s n" by (rule sees_view [OF update(4)]) (use ok in \<open>auto simp: ok_at_def\<close>)
  then show ?thesis using ok_at_thread [OF ok update(2,3)] ok_at_goto [OF ok update(2,3)] update by simp
next
  case (submit i s rq c k)
  then show ?thesis using ok_at_thread [OF ok submit(2,3)] ok_at_submit [OF ok] by simp
next
  case (outcome i s rq c k x)
  then show ?thesis using ok_at_thread [OF ok outcome(2,3)] ok_at_goto [OF ok outcome(2,3)] by (simp add: effect_def)
next
  case (submit_only i s rq c p)
  have "ok_at sm home (hist \<sigma>) (\<sigma>\<lparr>submitted := (submitted \<sigma>)(s := insert c (submitted \<sigma> s))\<rparr>)"
    using ok_at_thread [OF ok submit_only(2,3)] by (intro ok_at_submit [OF ok]) simp
  then show ?thesis
    using ok_at_thread [OF ok submit_only(2,3)] submit_only
      ok_at_goto [of sm home "hist \<sigma>" "\<sigma>\<lparr>submitted := (submitted \<sigma>)(s := insert c (submitted \<sigma> s))\<rparr>" i s rq "Send c p" p]
    by simp
next
  case (read_index i s rq k x)
  then show ?thesis using ok_at_thread [OF ok read_index(2,3)] ok_at_goto [OF ok read_index(2,3)] by simp
next
  case (leader_info i s rq k l)
  then show ?thesis using ok_at_thread [OF ok leader_info(2,3)] ok_at_goto [OF ok leader_info(2,3)] by simp
next
  case (get_info i s rq k info)
  then show ?thesis using ok_at_thread [OF ok get_info(2,3)] ok_at_goto [OF ok get_info(2,3)] by simp
next
  case (call i s rq a q k)
  then show ?thesis using ok_at_thread [OF ok call(2,3)] ok by (auto simp: ok_at_def)
next
  case (response i s rq a q k y)
  have "returns (hist \<sigma>) q y" using response(4) ok by (fastforce simp: returns_def ok_at_def)
  then show ?thesis using ok_at_thread [OF ok response(2,3)] ok_at_goto [OF ok response(2,3)] response by simp
next
  case (clock i s rq k t)
  then show ?thesis using ok_at_thread [OF ok clock(2,3)] ok_at_goto [OF ok clock(2,3)] by simp
next
  case (uuid i s rq k u)
  let ?H = "(hist \<sigma>)\<lparr>issued := (issued (hist \<sigma>))(u \<mapsto> (s, planned (k u)))\<rparr>"
  have l: "later (hist \<sigma>) ?H" using uuid(4) by (rule later_issue)
  have "ok_at sm home ?H (\<sigma>\<lparr>hist := ?H\<rparr>)" using ok_at_later [OF ok l] by (simp add: ok_at_def)
  moreover have "safe sm home s (thread_post rq) (k u) ?H"
    using ok_at_thread [OF ok uuid(2,3)] l by simp
  ultimately show ?thesis
    using uuid ok_at_goto [of sm home ?H "\<sigma>\<lparr>hist := ?H\<rparr>" i s rq "Uuid k" "k u"] by simp
next
  case (answer i s aq r)
  then show ?thesis using ok_at_thread [OF ok answer(2,3)] ok by (auto simp: ok_at_def thread_post_def post_def)
qed

lemma reachable_ok:
  assumes "routing_ok sm home" "reachable_sys crc perm sm home \<sigma>"
  shows "ok_at sm home (hist \<sigma>) \<sigma>"
  using assms(2)
proof (induction rule: rtranclp_induct)
  case base
  then show ?case by (simp add: ok_at_def start_sys_def)
next
  case (step \<sigma> \<sigma>')
  then show ?case using step_ok [OF assms(1)] by blast
qed

end
