(* ===== verification/RenameRuns.thy ===== *)
theory RenameRuns
  imports RenameSafety
begin

section \<open>Executions of a rename between two shards\<close>

text \<open>
  A scheduler that chooses the next steps of the system, so that executions can be evaluated; the guarantee of the
  protocol with an execution it applies to; and an execution in which an acknowledged rename loses the file.
\<close>

datatype choice =
    Start string work
  | Look nat nat
  | Tick nat u64
  | Draw nat string
  | Commit nat
  | Rpc nat
  | Reply nat nat

definition node_at :: "(string \<Rightarrow> ShardMap) \<Rightarrow> history \<Rightarrow> string \<Rightarrow> nat \<Rightarrow> MyMaster" where
  "node_at sm H s k =
     (MyMaster_new 0 (MasterApp (replay (take k (applied H s)))) (sm s)
       \<lparr>cfg_shard_id = s, cfg_config_server_addrs = [], cfg_master_address = [], cfg_split_threshold_rps = 0,
        cfg_split_cooldown_secs = 0, cfg_merge_threshold_rps = 0, cfg_ca_cert_path = None, cfg_domain_name = None,
        cold_threshold_secs = 0, ec_threshold_secs = 0\<rparr>)"

definition submit_apply :: "string \<Rightarrow> Command \<Rightarrow> sys \<Rightarrow> sys" where
  "submit_apply s c \<sigma> = \<sigma>\<lparr>submitted := (submitted \<sigma>)(s := insert c (submitted \<sigma> s)),
     hist := (hist \<sigma>)\<lparr>applied := (applied (hist \<sigma>))(s := applied (hist \<sigma>) s @ [c])\<rparr>\<rparr>"

fun move :: "crc_fn \<Rightarrow> ((string, server list) hashmap \<Rightarrow> (string, server list) hashmap) \<Rightarrow> (string \<Rightarrow> ShardMap) \<Rightarrow>
    (string \<Rightarrow> string) \<Rightarrow> choice \<Rightarrow> sys \<Rightarrow> sys option" where
  "move crc perm sm home (Start s w) \<sigma> = Some (\<sigma>\<lparr>threads := threads \<sigma> @ [(s, None, work_prog crc perm w)]\<rparr>)"
| "move crc perm sm home (Look i k) \<sigma> =
     (if i < length (threads \<sigma>)
      then case threads \<sigma> ! i of
             (s, _, Read c) \<Rightarrow> Some (goto i (c (node_at sm (hist \<sigma>) s k)) \<sigma>)
           | (s, _, Write _ c) \<Rightarrow> Some (goto i (c (node_at sm (hist \<sigma>) s k)) \<sigma>)
           | _ \<Rightarrow> None
      else None)"
| "move crc perm sm home (Tick i t) \<sigma> =
     (if i < length (threads \<sigma>)
      then case threads \<sigma> ! i of (_, _, Clock c) \<Rightarrow> Some (goto i (c t) \<sigma>) | _ \<Rightarrow> None
      else None)"
| "move crc perm sm home (Draw i u) \<sigma> =
     (if i < length (threads \<sigma>) \<and> issued (hist \<sigma>) u = None
      then case threads \<sigma> ! i of
             (s, _, Uuid c) \<Rightarrow>
               Some (goto i (c u) (\<sigma>\<lparr>hist := (hist \<sigma>)\<lparr>issued := (issued (hist \<sigma>))(u \<mapsto> (s, planned (c u)))\<rparr>\<rparr>))
           | _ \<Rightarrow> None
      else None)"
| "move crc perm sm home (Commit i) \<sigma> =
     (if i < length (threads \<sigma>)
      then case threads \<sigma> ! i of
             (s, _, Propose c k) \<Rightarrow> Some (goto i (k Applied) (submit_apply s c \<sigma>))
           | _ \<Rightarrow> None
      else None)"
| "move crc perm sm home (Rpc i) \<sigma> =
     (if i < length (threads \<sigma>)
      then case threads \<sigma> ! i of
             (s, _, Call a q k) \<Rightarrow>
               Some (\<sigma>\<lparr>sent := insert (a, q) (sent \<sigma>), threads := threads \<sigma> @ [(home a, Some (a, q), serve crc q)]\<rparr>)
           | _ \<Rightarrow> None
      else None)"
| "move crc perm sm home (Reply j i) \<sigma> =
     (if i < length (threads \<sigma>) \<and> j < length (threads \<sigma>)
      then case (threads \<sigma> ! j, threads \<sigma> ! i) of
             ((_, Some aq, Ret (Some r)), (_, _, Call a q k)) \<Rightarrow>
               if aq = (a, q) then Some (goto i (k (Some r)) (\<sigma>\<lparr>replies := insert (aq, r) (replies \<sigma>)\<rparr>)) else None
           | _ \<Rightarrow> None
      else None)"

fun moves :: "crc_fn \<Rightarrow> ((string, server list) hashmap \<Rightarrow> (string, server list) hashmap) \<Rightarrow> (string \<Rightarrow> ShardMap) \<Rightarrow>
    (string \<Rightarrow> string) \<Rightarrow> choice list \<Rightarrow> sys \<Rightarrow> sys option" where
  "moves crc perm sm home [] \<sigma> = Some \<sigma>"
| "moves crc perm sm home (m # ms) \<sigma> = Option.bind (move crc perm sm home m \<sigma>) (moves crc perm sm home ms)"

lemma node_at_sees: "sees sm H s (node_at sm H s k)"
  by (auto simp: sees_def node_at_def MyMaster_new_def)

lemma move_Commit:
  assumes "i < length (threads \<sigma>)" "threads \<sigma> ! i = (s, rq, Propose c k)"
  shows "(step crc perm sm home)\<^sup>*\<^sup>* \<sigma> (goto i (k Applied) (submit_apply s c \<sigma>))"
proof -
  let ?s = "\<sigma>\<lparr>submitted := (submitted \<sigma>)(s := insert c (submitted \<sigma> s))\<rparr>"
  have "step crc perm sm home \<sigma> ?s" using assms by (rule step.submit)
  moreover have "step crc perm sm home ?s (submit_apply s c \<sigma>)"
    using step.apply_submitted [of c ?s s crc perm sm home] by (simp add: submit_apply_def)
  moreover have "step crc perm sm home (submit_apply s c \<sigma>) (goto i (k Applied) (submit_apply s c \<sigma>))"
    by (rule step.outcome [where c = c and s = s and rq = rq]) (use assms in \<open>simp_all add: submit_apply_def\<close>)
  ultimately show ?thesis by (meson converse_rtranclp_into_rtranclp rtranclp.rtrancl_refl)
qed

lemma move_Reply:
  assumes "i < length (threads \<sigma>)" "threads \<sigma> ! i = (s, rq, Call a q k)" "j < length (threads \<sigma>)"
    "threads \<sigma> ! j = (s', Some (a, q), Ret (Some r))"
  shows "(step crc perm sm home)\<^sup>*\<^sup>* \<sigma> (goto i (k (Some r)) (\<sigma>\<lparr>replies := insert ((a, q), r) (replies \<sigma>)\<rparr>))"
proof -
  let ?s = "\<sigma>\<lparr>replies := insert ((a, q), r) (replies \<sigma>)\<rparr>"
  have "step crc perm sm home \<sigma> ?s" using assms(3,4) by (rule step.answer)
  moreover have "step crc perm sm home ?s (goto i (k (Some r)) ?s)"
    by (rule step.response [where a = a and q = q and s = s and rq = rq]) (use assms in simp_all)
  ultimately show ?thesis by (meson converse_rtranclp_into_rtranclp rtranclp.rtrancl_refl)
qed

lemma move_Rpc:
  assumes "i < length (threads \<sigma>)" "threads \<sigma> ! i = (s, rq, Call a q k)"
  shows "(step crc perm sm home)\<^sup>*\<^sup>* \<sigma>
    (\<sigma>\<lparr>sent := insert (a, q) (sent \<sigma>), threads := threads \<sigma> @ [(home a, Some (a, q), serve crc q)]\<rparr>)"
proof -
  let ?s = "\<sigma>\<lparr>sent := insert (a, q) (sent \<sigma>)\<rparr>"
  have "step crc perm sm home \<sigma> ?s" using assms by (rule step.call)
  moreover have "step crc perm sm home ?s (\<sigma>\<lparr>sent := insert (a, q) (sent \<sigma>), threads := threads \<sigma> @ [(home a, Some (a, q), serve crc q)]\<rparr>)"
    using step.deliver [of a q ?s crc perm sm home] by simp
  ultimately show ?thesis by (meson converse_rtranclp_into_rtranclp rtranclp.rtrancl_refl)
qed

lemma move_steps: "move crc perm sm home m \<sigma> = Some \<sigma>' \<Longrightarrow> (step crc perm sm home)\<^sup>*\<^sup>* \<sigma> \<sigma>'"
proof (induction crc perm sm home m \<sigma> rule: move.induct)
  case (1 crc perm sm home s w \<sigma>)
  then show ?case by (auto intro: step.start)
next
  case (2 crc perm sm home i k \<sigma>)
  then show ?case
    by (auto split: if_splits prod.splits prog.splits
        intro: step.read [OF _ _ node_at_sees] step.update [OF _ _ node_at_sees])
next
  case (3 crc perm sm home i t \<sigma>)
  then show ?case by (auto split: if_splits prod.splits prog.splits intro!: r_into_rtranclp step.clock)
next
  case (4 crc perm sm home i u \<sigma>)
  then show ?case by (auto split: if_splits prod.splits prog.splits intro!: r_into_rtranclp step.uuid)
next
  case (5 crc perm sm home i \<sigma>)
  then show ?case by (auto split: if_splits prod.splits prog.splits intro!: move_Commit)
next
  case (6 crc perm sm home i \<sigma>)
  then show ?case by (auto split: if_splits prod.splits prog.splits intro!: move_Rpc)
next
  case (7 crc perm sm home j i \<sigma>)
  then show ?case by (auto split: if_splits prod.splits prog.splits option.splits intro: move_Reply)
qed

lemma moves_reachable:
  assumes "moves crc perm sm home ms \<sigma> = Some \<sigma>'" "reachable_sys crc perm sm home \<sigma>"
  shows "reachable_sys crc perm sm home \<sigma>'"
  using assms by (induction ms arbitrary: \<sigma>) (auto simp: bind_eq_Some_conv dest: move_steps intro: rtranclp_trans)

subsection \<open>Two shards\<close>

text \<open>Paths up to \<open>/m\<close> belong to shard \<open>S\<close>, the others to shard \<open>D\<close>; each shard has one node.\<close>

definition two_shards :: "string \<Rightarrow> ShardMap" where
  "two_shards s = \<lparr>strategy = Range [(''/m'', ''S''), (max_key, ''D'')], shards = [''S'', ''D''],
     shard_peers = [(''S'', [''s1'']), (''D'', [''d1''])]\<rparr>"

definition two_homes :: "string \<Rightarrow> string" where
  "two_homes a = (if a = ''http://s1'' then ''S'' else ''D'')"

lemma two_shards_routing: "routing_ok two_shards two_homes"
  by (auto simp: routing_ok_def two_shards_def two_homes_def with_scheme_def with_http_def get_shard_peers_def prefix_def
      split: if_splits)

definition create_source :: "choice list" where
  "create_source = [Start ''S'' (CreateWork ''/a'' 0 0), Look 0 0, Look 0 0, Look 0 0, Look 0 0, Commit 0,
     Start ''S'' (CompleteWork ''/a'' 5 [] 0 []), Look 1 1, Commit 1]"

lemma routing_evals [simp]:
  "get_shard crc ''/a'' (two_shards s) = Some ''S''" "get_shard crc ''/z'' (two_shards s) = Some ''D''"
  "get_shard_peers ''D'' (two_shards s) = Some [''d1'']" "get_shard_peers ''S'' (two_shards s) = Some [''s1'']"
  by (simp_all add: two_shards_def get_shard_def get_shard_peers_def bt_range_from_def bt_first_def max_key_def)

definition rename_until_prepared :: "choice list" where
  "rename_until_prepared = create_source @ [Start ''S'' (RenameWork ''/a'' ''/z''), Look 2 2, Look 2 2, Look 2 2, Look 2 2,
     Look 2 2, Draw 2 ''t'', Tick 2 0, Commit 2, Commit 2, Rpc 2, Look 3 0, Look 3 0, Look 3 0, Tick 3 0, Look 3 0,
     Commit 3, Reply 3 2]"

definition rename_run :: "choice list" where
  "rename_run = rename_until_prepared @ [Rpc 2, Look 4 1, Look 4 1, Commit 4, Commit 4, Reply 4 2, Commit 2, Commit 2, Commit 2]"

definition losing_run :: "choice list" where
  "losing_run = rename_until_prepared @
     [Start ''D'' (CreateWork ''/z'' 0 0), Look 4 1, Look 4 1, Look 4 1, Look 4 1, Commit 4,
      Rpc 2, Look 5 1, Look 5 1, Commit 5, Commit 5, Reply 5 2, Commit 2, Commit 2, Commit 2]"

lemmas run_evals = goto_def submit_apply_def node_at_def MyMaster_new_def start_sys_def Let_def
  monitor_request_def check_shard_ownership_def check_safe_mode_def create_file_def complete_file_def propose_ack_def
  is_in_safe_mode_def init_master_def apply_create_file_def apply_complete_file_def hm_contains_def hm_keys_def hm_modify_def
  empty_file_def complete_metadata_def distribute_size_def rename_def rename_between_def rename_cross_shard_def new_rename_def
  rename_prepare_def send_prepare_to_dest_shard_def send_commit_to_dest_shard_def with_scheme_def two_homes_def
  prepare_transaction_def participant_record_def rename_commit_def commit_transaction_def find_record_def first_operation_def
  ack_ok_def planned_def apply_tx_operation_def replay_def

definition source_file :: FileMetadata where
  "source_file = (empty_file ''/a'' 0 0)\<lparr>file_size := 5\<rparr>"

lemma rename_run_evals:
  "\<exists>\<sigma>. moves crc perm two_shards two_homes rename_run start_sys = Some \<sigma> \<and>
     MasterCmd (ApplyTransactionOperation ''t'' \<lparr>op_shard_id = ''S'', op_type = Delete ''/a''\<rparr>) \<in> set (applied (hist \<sigma>) ''S'')"
  by (simp add: rename_run_def rename_until_prepared_def create_source_def run_evals)

lemma losing_run_evals:
  "\<exists>\<sigma>. moves crc perm two_shards two_homes losing_run start_sys = Some \<sigma> \<and>
     threads \<sigma> ! 2 = (''S'', None, Ret (Some (AckReply ack_ok))) \<and>
     files (replay (take 2 (applied (hist \<sigma>) ''S''))) = [(''/a'', source_file)] \<and>
     files (replay (applied (hist \<sigma>) ''S'')) = [] \<and>
     files (replay (applied (hist \<sigma>) ''D'')) = [(''/z'', empty_file ''/z'' 0 0)]"
  by (simp add: losing_run_def rename_until_prepared_def create_source_def run_evals source_file_def)

subsection \<open>Guarantee and loss\<close>



text \<open>C32. The destination is not protected between the two phases: in an execution of two shards without any failure,
  another client creates the destination after the participant has prepared. The commit then leaves that file alone,
  the source is deleted, and the rename is acknowledged; afterwards the source, with its five bytes, is in no shard.\<close>

theorem acknowledged_rename_loses_file:
  "\<exists>\<sigma>. moves crc perm two_shards two_homes losing_run start_sys = Some \<sigma> \<and> reachable_sys crc perm two_shards two_homes \<sigma> \<and>
     threads \<sigma> ! 2 = (''S'', None, Ret (Some (AckReply ack_ok))) \<and>
     files (replay (take 2 (applied (hist \<sigma>) ''S''))) = [(''/a'', source_file)] \<and>
     files (replay (applied (hist \<sigma>) ''S'')) = [] \<and>
     files (replay (applied (hist \<sigma>) ''D'')) = [(''/z'', empty_file ''/z'' 0 0)]"
proof -
  have "reachable_sys crc perm two_shards two_homes \<sigma>"
    if "moves crc perm two_shards two_homes losing_run start_sys = Some \<sigma>" for \<sigma>
    using that by (rule moves_reachable) simp
  then show ?thesis using losing_run_evals [of crc perm] by blast
qed

end
