(* ===== verification/ConfigServer.thy ===== *)
theory ConfigServer
  imports MasterTasks
begin

section \<open>The request handlers of the config server (dfs/metaserver/src/config\_server.rs)\<close>

text \<open>
  The handlers of \<open>ConfigService\<close>: a handler is a program over the application state of its node. Every change
  is a config command proposed to Raft.
\<close>

type_synonym 'a config_handler = "(AppState, rpc, rpc_reply, Status + 'a) prog"

definition cfg_linearizable_read :: "'a config_handler \<Rightarrow> 'a config_handler" where
  "cfg_linearizable_read k = ReadIndex (\<lambda>reply.
     case reply of
       Applied \<Rightarrow> k
     | NotLeader hint \<Rightarrow> Ret (Inl (FailedPrecondition (''Not Leader|'' @ unwrap_or_default hint)))
     | Dropped \<Rightarrow> Ret (Inl (Internal ''Raft response error''))
     | ChannelClosed \<Rightarrow> Ret (Inl (Internal ''Failed to send to Raft node: channel closed'')))"

definition published_shards :: "ShardMap \<Rightarrow> (ShardId, string list) hashmap" where
  "published_shards m =
     fold (\<lambda>sid acc. case get_shard_peers sid m of Some ps \<Rightarrow> hm_insert sid ps acc | None \<Rightarrow> acc) (get_all_shards m) []"

definition fetch_shard_map :: "((ShardId, string list) hashmap) config_handler" where
  "fetch_shard_map =
     cfg_linearizable_read
       (Read (\<lambda>st. case st of
          ConfigApp s \<Rightarrow> Ret (Inr (published_shards (shard_map s)))
        | MasterApp _ \<Rightarrow> Ret (Inl (Internal ''Wrong state type''))))"

definition cfg_add_shard :: "string \<Rightarrow> string list \<Rightarrow> Ack config_handler" where
  "cfg_add_shard sid ps = propose_ack ''Raft response error'' (ConfigCmd (AddShard sid ps))"

definition cfg_remove_shard :: "string \<Rightarrow> Ack config_handler" where
  "cfg_remove_shard sid = propose_ack ''Raft response error'' (ConfigCmd (RemoveShard sid))"

text \<open>Up to three masters with the most recent heartbeats.\<close>

definition allocate_peers :: "ConfigStateInner \<Rightarrow> string list" where
  "allocate_peers s =
     map mi_address (take 3 (sort_key (\<lambda>m. - int (mi_last_heartbeat m)) (hm_values (masters s))))"

definition cfg_split_shard :: "string \<Rightarrow> string \<Rightarrow> string \<Rightarrow> string list \<Rightarrow> (Ack \<times> string list) config_handler" where
  "cfg_split_shard sid split_key new_shard_id new_shard_peers =
     (let go = (\<lambda>ps.
            if ps = [] then Ret (Inr (ack_error ''No available master nodes for new shard'', []))
            else Propose (ConfigCmd (CfgSplitShard sid split_key new_shard_id ps)) (\<lambda>reply.
              case reply of
                Applied \<Rightarrow> Ret (Inr (ack_ok, ps))
              | NotLeader leader_opt \<Rightarrow> Ret (Inr (ack_not_leader leader_opt, []))
              | Dropped \<Rightarrow> Ret (Inl (Internal ''Raft response error''))
              | ChannelClosed \<Rightarrow> Ret (Inl (Internal ''Raft channel closed''))))
      in if new_shard_peers = []
         then Read (\<lambda>st. case st of ConfigApp s \<Rightarrow> go (allocate_peers s) | MasterApp _ \<Rightarrow> go [])
         else go new_shard_peers)"

definition cfg_merge_shard :: "string \<Rightarrow> string \<Rightarrow> Ack config_handler" where
  "cfg_merge_shard victim retained = propose_ack ''Raft response error'' (ConfigCmd (CfgMergeShard victim retained))"

definition cfg_rebalance_shard :: "string \<Rightarrow> string \<Rightarrow> Ack config_handler" where
  "cfg_rebalance_shard old_key new_key = propose_ack ''Raft response error'' (ConfigCmd (RebalanceShard old_key new_key))"

definition propose_flag :: "Command \<Rightarrow> bool config_handler" where
  "propose_flag c = Propose c (\<lambda>reply.
     case reply of
       Applied \<Rightarrow> Ret (Inr True)
     | NotLeader _ \<Rightarrow> Ret (Inr False)
     | Dropped \<Rightarrow> Ret (Inl (Internal ''Raft response error''))
     | ChannelClosed \<Rightarrow> Ret (Inl (Internal ''Raft channel closed'')))"

definition cfg_register_master :: "string \<Rightarrow> string \<Rightarrow> bool config_handler" where
  "cfg_register_master addr sid = propose_flag (ConfigCmd (RegisterMaster addr sid))"

definition cfg_shard_heartbeat :: "string \<Rightarrow> (string, rat) hashmap \<Rightarrow> bool config_handler" where
  "cfg_shard_heartbeat addr rps_map = propose_flag (ConfigCmd (ShardHeartbeat addr rps_map))"

end
