(* ===== verification/Resharding.thy ===== *)
theory Resharding
  imports ConfigServer
begin

section \<open>Safe mode, splits and the refresh of the shard map\<close>

text \<open>
  What the handlers and tasks of the masters and of the config server do together: writes in safe mode, the
  migration of metadata after a split, and the map the masters route with.
\<close>

subsection \<open>Safe mode\<close>

definition in_safe_mode :: "MyMaster \<Rightarrow> bool" where
  "in_safe_mode n = is_safe_mode (my_state n)"

definition saw_safe_mode :: "(MyMaster, 'q, 'r) action list \<Rightarrow> bool" where
  "saw_safe_mode tr \<longleftrightarrow> (\<forall>n. DidRead n \<in> set tr \<longrightarrow> in_safe_mode n)"

lemma saw_safe_mode_Cons [simp]:
  "saw_safe_mode (act # tr) \<longleftrightarrow> (case act of DidRead n \<Rightarrow> in_safe_mode n | _ \<Rightarrow> True) \<and> saw_safe_mode tr"
  by (auto simp: saw_safe_mode_def split: action.splits)

lemma check_safe_mode_refuses:
  assumes "run (check_safe_mode p) tr a" "saw_safe_mode tr"
  shows "concat (map proposed tr) = [] \<and> (\<exists>e. a = Inl e)"
proof -
  from assms obtain n tr' where tr: "tr = DidRead n # tr'" and n: "in_safe_mode n"
    and r: "run (case my_state n of MasterApp s \<Rightarrow> if is_in_safe_mode s
        then Ret (Inl (Unavailable ''Cluster is in Safe Mode. Write operations are blocked.'')) else p | ConfigApp _ \<Rightarrow> p) tr' a"
    by (auto simp: check_safe_mode_def)
  from n obtain s where "my_state n = MasterApp s" "is_in_safe_mode s"
    by (cases "my_state n") (auto simp: in_safe_mode_def)
  then show ?thesis using r tr by simp
qed

lemma ownership_safe_mode_refuses:
  assumes "run (check_shard_ownership crc x (check_safe_mode p)) tr a" "saw_safe_mode tr"
  shows "concat (map proposed tr) = [] \<and> (\<exists>e. a = Inl e)"
  using assms check_safe_mode_refuses [where p = p]
  by (fastforce simp: check_shard_ownership_def Let_def split: option.splits if_splits)

lemma monitored_safe_mode_refuses:
  assumes "run (monitor_request y b (check_shard_ownership crc x (check_safe_mode p))) tr a" "saw_safe_mode tr"
  shows "concat (map proposed tr) = [] \<and> (\<exists>e. a = Inl e)"
  using assms ownership_safe_mode_refuses [where crc = crc and x = x and p = p]
  by (fastforce simp: monitor_request_def)

text \<open>C33. A node in safe mode refuses the requests that check for it: an execution of the creation, deletion, renaming
  or shuffling of files or of the allocation of a block, whatever else happens meanwhile, ends with an error and
  proposes no command to Raft if the node is in safe mode whenever the handler looks.\<close>

theorem safe_mode_refuses_writes:
  assumes "saw_safe_mode tr"
  shows "(run (create_file crc p d e) tr a \<or> run (delete_file crc p) tr a \<or> run (rename crc p q) tr a \<or>
       run (initiate_shuffle crc p) tr a \<longrightarrow> concat (map proposed tr) = [] \<and> (\<exists>err. a = Inl err)) \<and>
     (run (allocate_block crc perm p) tr b \<longrightarrow> concat (map proposed tr) = [] \<and> (\<exists>err. b = Inl err))"
proof -
  note refuse = monitored_safe_mode_refuses [OF _ assms]
  have "concat (map proposed tr) = [] \<and> (\<exists>err. a = Inl err)" if "run (create_file crc p d e) tr a"
    using that unfolding create_file_def by (rule refuse)
  moreover have "concat (map proposed tr) = [] \<and> (\<exists>err. a = Inl err)" if "run (delete_file crc p) tr a"
    using that unfolding delete_file_def by (rule refuse)
  moreover have "concat (map proposed tr) = [] \<and> (\<exists>err. a = Inl err)" if "run (rename crc p q) tr a"
    using that unfolding rename_def by (rule refuse)
  moreover have "concat (map proposed tr) = [] \<and> (\<exists>err. a = Inl err)" if "run (initiate_shuffle crc p) tr a"
    using that unfolding initiate_shuffle_def by (rule ownership_safe_mode_refuses [OF _ assms])
  moreover have "concat (map proposed tr) = [] \<and> (\<exists>err. b = Inl err)" if "run (allocate_block crc perm p) tr b"
    using that unfolding allocate_block_def by (rule refuse)
  ultimately show ?thesis by blast
qed

definition safe_mode_node :: MyMaster where
  "safe_mode_node = MyMaster_new 0 (MasterApp (enter_safe_mode 0 init_master)) new_range
     \<lparr>cfg_shard_id = ''S'', cfg_config_server_addrs = [], cfg_master_address = [], cfg_split_threshold_rps = 0,
      cfg_split_cooldown_secs = 0, cfg_merge_threshold_rps = 0, cfg_ca_cert_path = None, cfg_domain_name = None,
      cold_threshold_secs = 0, ec_threshold_secs = 0\<rparr>"

definition safe_mode_error :: Status where
  "safe_mode_error = Unavailable ''Cluster is in Safe Mode. Write operations are blocked.''"

lemma safe_mode_node_evals:
  "in_safe_mode safe_mode_node" "get_shard crc p (my_shard_map safe_mode_node) = None"
  by (simp_all add: in_safe_mode_def safe_mode_node_def MyMaster_new_def is_in_safe_mode_def enter_safe_mode_def
      get_shard_def new_range_def)

lemma safe_mode_run:
  "run (create_file crc p d e :: (rpc, rpc_reply, Ack) handler)
     [DidWrite safe_mode_node (\<lambda>n. n\<lparr>my_monitor := record_request p 0 (my_monitor n)\<rparr>), DidRead safe_mode_node,
      DidRead safe_mode_node] (Inl safe_mode_error)"
  using safe_mode_node_evals(2) [of crc p]
  by (simp add: create_file_def monitor_request_def check_shard_ownership_def check_safe_mode_def safe_mode_error_def)
    (simp add: safe_mode_node_def MyMaster_new_def is_in_safe_mode_def enter_safe_mode_def)

theorem safe_mode_refuses_writes_witness:
  "\<exists>tr. run (create_file (\<lambda>_. 0) ''/a'' 0 0 :: (rpc, rpc_reply, Ack) handler) tr (Inl safe_mode_error) \<and> length tr = 3 \<and>
     concat (map proposed tr) = []"
proof -
  let ?tr = "[DidWrite safe_mode_node (\<lambda>n. n\<lparr>my_monitor := record_request ''/a'' 0 (my_monitor n)\<rparr>),
    DidRead safe_mode_node, DidRead safe_mode_node] :: (MyMaster, rpc, rpc_reply) action list"
  have r: "run (create_file (\<lambda>_. 0) ''/a'' 0 0) ?tr (Inl safe_mode_error)" by (rule safe_mode_run)
  have "saw_safe_mode ?tr" by (simp add: saw_safe_mode_def safe_mode_node_evals)
  from safe_mode_refuses_writes [OF this, where a = "Inl safe_mode_error" and crc = "\<lambda>_. 0" and p = "''/a''" and d = 0 and e = 0] r
  have "concat (map proposed ?tr) = []" by blast
  with r show ?thesis by (intro exI [of _ ?tr]) simp
qed

subsection \<open>Splitting a shard\<close>

lemma starts_with_le: "starts_with p pre \<Longrightarrow> pre \<le> p"
proof (induction pre arbitrary: p)
  case (Cons c pre)
  then show ?case by (cases p) auto
qed simp

lemma split_removes:
  "split_key \<le> p \<Longrightarrow> hm_get (files (apply_master_command (SplitShard split_key j ps) s)) p = None"
  by (auto simp: apply_split_shard_def Let_def hm_get_fold_remove hm_keys_def map_of_eq_None_iff)

lemma nothing_to_move: "files_to_move pre (apply_master_command (SplitShard pre j ps) s) = []"
proof -
  have "\<not> starts_with p pre" if "(p, m) \<in> set (files (apply_master_command (SplitShard pre j ps) s))" for p m
  proof
    assume "starts_with p pre"
    then have "hm_get (files (apply_master_command (SplitShard pre j ps) s)) p = None"
      by (intro split_removes starts_with_le)
    then show False using that unfolding map_of_eq_None_iff by force
  qed
  then show ?thesis by (auto simp: files_to_move_def filter_empty_conv)
qed

lemma migrate_split_sends_nothing:
  "run (migrate_split pre i j [] addrs) tr a \<Longrightarrow> DidCall addr (IngestMetadata fs) y \<notin> set tr"
proof (induction addrs arbitrary: tr)
  case (Cons b addrs)
  then obtain y' tr' where tr: "tr = DidCall (with_scheme b) (ConfigRequest (CfgSplitShard i pre j [])) y' # tr'"
    and r: "run (case y' of
         Some (SplitReply x new_peers) \<Rightarrow>
           if success x
           then (if [] \<noteq> ([] :: FileMetadata list) \<and> new_peers \<noteq> [] then push_metadata [] new_peers else Ret ())
           else migrate_split pre i j [] addrs
       | _ \<Rightarrow> migrate_split pre i j [] addrs) tr' a"
    by auto
  have "run (migrate_split pre i j [] addrs) tr' a \<or> tr' = []"
    using r by (cases "\<exists>x ps. y' = Some (SplitReply x ps) \<and> success x") (auto split: option.splits rpc_reply.splits)
  then show ?case using Cons.IH tr by auto
qed simp



subsection \<open>The map of the masters\<close>

definition routed :: "ShardId \<Rightarrow> ShardId \<Rightarrow> (string, ShardId) btreemap \<Rightarrow> bool" where
  "routed b c ranges \<longleftrightarrow> bt_ok ranges \<and> 2 < length ranges \<and> map_of ranges ''/m'' = Some b \<and> map_of ranges (''z-'' @ c) = Some c \<and>
     (\<forall>e \<in> set ranges. fst e = ''/m'' \<or> ''z-'' @ c \<le> fst e)"

lemma routed_lookup:
  assumes "routed b c ranges"
  shows "bt_ceiling (CHR ''/'' # x) ranges =
    Some (if CHR ''/'' # x \<le> ''/m'' then (''/m'', b) else (''z-'' @ c, c))"
proof -
  have ok: "bt_ok ranges" and m: "(''/m'', b) \<in> set ranges" "(''z-'' @ c, c) \<in> set ranges"
    and keys: "\<And>e. e \<in> set ranges \<Longrightarrow> fst e = ''/m'' \<or> ''z-'' @ c \<le> fst e"
    using assms by (auto simp: routed_def dest: map_of_SomeD)
  show ?thesis
  proof (cases "CHR ''/'' # x \<le> ''/m''")
    case True
    have "''/m'' \<le> fst e" if "e \<in> set ranges" for e
    proof -
      have "''/m'' \<le> ''z-'' @ c" by simp
      with keys [OF that] show ?thesis by (elim disjE) (simp, rule order_trans)
    qed
    then show ?thesis using ok m True by (simp add: bt_ceiling_Some_iff)
  next
    case False
    then have "''z-'' @ c \<le> fst e" if "e \<in> set ranges" "CHR ''/'' # x \<le> fst e" for e
      using keys [OF that(1)] that(2) by auto
    moreover have "CHR ''/'' # x \<le> ''z-'' @ c" by simp
    ultimately show ?thesis using ok m False by (simp add: bt_ceiling_Some_iff)
  qed
qed

lemma length_bt_insert: "length m \<le> length (bt_insert k v m)"
  by (induction k v m rule: bt_insert.induct) auto

lemma add_range_many: "2 < length ranges \<Longrightarrow> add_range d ranges = bt_insert (''z-'' @ d) d ranges"
  by (cases ranges rule: remdups_adj.cases) (auto simp: add_range_def)

lemma routed_add:
  assumes "routed b c ranges" "c < d"
  shows "routed b c (add_range d ranges)"
proof -
  have r: "bt_ok ranges" "2 < length ranges" "map_of ranges ''/m'' = Some b" "map_of ranges (''z-'' @ c) = Some c"
    "\<forall>e \<in> set ranges. fst e = ''/m'' \<or> ''z-'' @ c \<le> fst e"
    using assms(1) by (simp_all add: routed_def)
  have k: "''z-'' @ c \<le> ''z-'' @ d" using assms(2) by simp
  have "2 < length (bt_insert (''z-'' @ d) d ranges)" using r(2) length_bt_insert [of ranges "''z-'' @ d" d] by simp
  moreover have "map_of (bt_insert (''z-'' @ d) d ranges) ''/m'' = Some b" using r(1,3) by simp
  moreover have "map_of (bt_insert (''z-'' @ d) d ranges) (''z-'' @ c) = Some c" using r(1,4) assms(2) by simp
  moreover have "\<forall>e \<in> set (bt_insert (''z-'' @ d) d ranges). fst e = ''/m'' \<or> ''z-'' @ c \<le> fst e"
    using r(1,5) k by (auto simp only: set_bt_insert fst_conv)
  ultimately show ?thesis using r(1) unfolding routed_def add_range_many [OF r(2)] by simp
qed

lemma routed_add_shards:
  assumes "strategy m = Range ranges" "routed b c ranges" "\<And>e. e \<in> set ds \<Longrightarrow> c < fst e"
  shows "\<exists>ranges'. strategy (fold (\<lambda>(sid, ps). add_shard crc sid ps) ds m) = Range ranges' \<and> routed b c ranges'"
  using assms
proof (induction ds arbitrary: m ranges)
  case (Cons d ds)
  have "routed b c (add_range (fst d) ranges)" by (rule routed_add [OF Cons.prems(2)]) (use Cons.prems(3) in simp)
  then obtain r where r: "strategy (add_shard crc (fst d) (snd d) m) = Range r" "routed b c r"
    using Cons.prems(1,2) by (cases "fst d \<in> set (shards m)") (simp_all add: add_shard_def Let_def)
  have "\<exists>ranges'. strategy (fold (\<lambda>(sid, ps). add_shard crc sid ps) ds (add_shard crc (fst d) (snd d) m)) = Range ranges' \<and>
      routed b c ranges'"
    by (rule Cons.IH [OF r]) (use Cons.prems(3) in simp)
  then show ?case by (cases d) simp
qed simp

lemma first_three:
  assumes "a < b" "b < c"
  shows "\<exists>ranges. strategy (add_shard crc c pc (add_shard crc b pb (add_shard crc a pa new_range))) = Range ranges \<and> routed b c ranges"
proof -
  have ne: "b \<noteq> a" "c \<noteq> a" "c \<noteq> b" using assms by auto
  have "CHR ''z'' < CHR 0xF4" by (simp add: less_char_def)
  then show ?thesis
    using ne by (simp add: add_shard_def new_range_def add_range_def Let_def routed_def max_key_def)
qed

text \<open>C35. Of the shards the config server knows, the masters use two. A master rebuilds its map from the names and
  peers of the shards only: with three or more shards, every path (a string that starts with a slash) is routed to the
  second shard in the order of the names if it is at most \<open>/m\<close>, and to the third otherwise. No split, merge or
  rebalancing of ranges changes this.\<close>

theorem refreshed_map_uses_two_shards:
  assumes "distinct (map fst shards_data)" "sort (map fst shards_data) = a # b # c # rest"
  shows "get_shard crc (CHR ''/'' # x) (rebuild_map crc shards_data) = Some (if CHR ''/'' # x \<le> ''/m'' then b else c)"
proof -
  let ?ds = "sort_key fst shards_data"
  have "sort (map fst shards_data) = map fst ?ds" by (rule properties_for_sort) simp_all
  then have keys: "map fst ?ds = a # b # c # rest" using assms(2) by simp
  then obtain pa pb pc ds where ds: "?ds = (a, pa) # (b, pb) # (c, pc) # ds" and rest: "rest = map fst ds"
    by (auto simp: map_eq_Cons_conv)
  have "sorted_wrt (<) (a # b # c # rest)"
    using assms by (metis distinct_sort sorted_sort strict_sorted_iff)
  then have "a < b" "b < c" and later: "\<And>e. e \<in> set ds \<Longrightarrow> c < fst e" using rest by auto
  from first_three [OF this(1,2)] obtain r where
    r: "strategy (add_shard crc c pc (add_shard crc b pb (add_shard crc a pa new_range))) = Range r" "routed b c r" by blast
  from routed_add_shards [OF r later] obtain r' where
    "strategy (rebuild_map crc shards_data) = Range r'" "routed b c r'"
    by (auto simp: rebuild_map_def ds)
  then show ?thesis
    using routed_lookup [of b c r' x] by (auto simp: get_shard_def bt_ceiling_def routed_def)
qed

theorem refreshed_map_uses_two_shards_witness:
  "get_shard (\<lambda>_. 0) ''/zebra'' (rebuild_map (\<lambda>_. 0) [(''s4'', []), (''s1'', []), (''s3'', []), (''s2'', [])]) = Some ''s3''"
  using refreshed_map_uses_two_shards [of "[(''s4'', []), (''s1'', []), (''s3'', []), (''s2'', [])]" "''s1''" "''s2''" "''s3''"
    "[''s4'']" "\<lambda>_. 0" "''zebra''"] by simp

end
