(* ===== verification/Erasure.thy ===== *)
theory Erasure
  imports Prelude
begin

section \<open>Erasure coding of blocks\<close>

text \<open>
  \<open>common/src/erasure.rs\<close>. Bytes are characters. The Reed-Solomon code is that of the \<open>reed_solomon_erasure\<close>
  library and a parameter; \<open>rs_laws\<close> states what its documentation promises for one shape of code: encoding
  keeps the data shards, and a code word is rebuilt from any \<open>k\<close> of its shards.
\<close>

subsection \<open>Slices\<close>

function chunks :: "nat \<Rightarrow> 'a list \<Rightarrow> 'a list list" where
  "chunks n xs = (if n = 0 \<or> xs = [] then [] else take n xs # chunks n (drop n xs))"
  by pat_completeness auto
termination by (relation "measure (\<lambda>(n, xs). length xs)") auto

declare chunks.simps [simp del]

lemma chunks_Nil [simp]: "chunks n [] = []"
  by (simp add: chunks.simps)

lemma concat_chunks [simp]: "0 < n \<Longrightarrow> concat (chunks n xs) = xs"
  by (induction n xs rule: chunks.induct) (subst chunks.simps, auto)

lemma length_chunks: "0 < n \<Longrightarrow> length xs = n * k \<Longrightarrow> length (chunks n xs) = k"
proof (induction n xs arbitrary: k rule: chunks.induct)
  case (1 n xs)
  show ?case
  proof (cases k)
    case (Suc j)
    then have "length (chunks n (drop n xs)) = j" using 1 by (cases "xs = []") auto
    then show ?thesis using 1 Suc by (cases "xs = []") (auto simp: chunks.simps [of n xs])
  qed (use 1 in simp)
qed

lemma chunks_equal_length:
  "0 < n \<Longrightarrow> length xs = n * k \<Longrightarrow> c \<in> set (chunks n xs) \<Longrightarrow> length c = n"
proof (induction n xs arbitrary: k rule: chunks.induct)
  case (1 n xs)
  show ?case
  proof (cases "xs = []")
    case False
    then obtain j where "k = Suc j" using 1 by (cases k) auto
    then show ?thesis using 1 False by (auto simp: chunks.simps [of n xs])
  qed (use 1 in simp)
qed

definition resize :: "nat \<Rightarrow> 'a \<Rightarrow> 'a list \<Rightarrow> 'a list" where
  "resize n x xs = take n xs @ replicate (n - length xs) x"

lemma length_resize [simp]: "length (resize n x xs) = n"
  by (simp add: resize_def)

lemma take_resize [simp]: "length xs \<le> n \<Longrightarrow> take (length xs) (resize n x xs) = xs"
  by (simp add: resize_def)

subsection \<open>Encoding and decoding\<close>

record ReedSolomon =
  rs_new :: "usize \<Rightarrow> usize \<Rightarrow> bool"
  rs_encode :: "usize \<Rightarrow> usize \<Rightarrow> string list \<Rightarrow> string list option"
  rs_reconstruct :: "usize \<Rightarrow> usize \<Rightarrow> string option list \<Rightarrow> string option list option"

definition shard_len :: "usize \<Rightarrow> usize \<Rightarrow> usize" where
  "shard_len data_len data_shards = (data_len + data_shards - 1) div data_shards"

definition encode :: "ReedSolomon \<Rightarrow> string \<Rightarrow> usize \<Rightarrow> usize \<Rightarrow> string + string list" where
  "encode rs dat data_shards parity_shards =
     (if data_shards = 0 \<or> parity_shards = 0 then Inl ''data_shards and parity_shards must both be > 0''
      else if dat = [] then Inl ''data must not be empty''
      else if \<not> rs_new rs data_shards parity_shards then Inl ''RS init error''
      else
        let shard_size = shard_len (length dat) data_shards;
            padded = resize (shard_size * data_shards) (char_of (0 :: nat)) dat;
            shards = resize (data_shards + parity_shards) (replicate shard_size (char_of (0 :: nat))) (chunks shard_size padded)
        in case rs_encode rs data_shards parity_shards shards of
             None \<Rightarrow> Inl ''RS encode error''
           | Some shards \<Rightarrow> Inr shards)"

definition decode :: "ReedSolomon \<Rightarrow> string option list \<Rightarrow> usize \<Rightarrow> usize \<Rightarrow> usize \<Rightarrow> string + string" where
  "decode rs shards data_shards parity_shards original_len =
     (if \<not> rs_new rs data_shards parity_shards then Inl ''RS init error''
      else case rs_reconstruct rs data_shards parity_shards shards of
        None \<Rightarrow> Inl ''RS reconstruct error''
      | Some shards \<Rightarrow>
          if None \<in> set (take data_shards shards) then Inl ''data shard missing after reconstruction''
          else Inr (take original_len (concat (map the (take data_shards shards)))))"

subsection \<open>Lost shards\<close>

text \<open>\<open>erased ss opt\<close>: \<open>opt\<close> is the code word \<open>ss\<close> with some shards missing.\<close>

definition erased :: "'a list \<Rightarrow> 'a option list \<Rightarrow> bool" where
  "erased ss opt = list_all2 (\<lambda>s x. x = None \<or> x = Some s) ss opt"

definition present :: "'a option list \<Rightarrow> nat" where
  "present opt = length (filter (\<lambda>x. x \<noteq> None) opt)"

definition rs_laws :: "ReedSolomon \<Rightarrow> usize \<Rightarrow> usize \<Rightarrow> bool" where
  "rs_laws rs k m \<longleftrightarrow> rs_new rs k m \<and>
     (\<forall>shards sz. 0 < sz \<longrightarrow> length shards = k + m \<longrightarrow> (\<forall>s \<in> set shards. length s = sz) \<longrightarrow>
        (\<exists>ss. rs_encode rs k m shards = Some ss \<and> length ss = k + m \<and> take k ss = take k shards \<and>
           (\<forall>opt. erased ss opt \<longrightarrow> k \<le> present opt \<longrightarrow> rs_reconstruct rs k m opt = Some (map Some ss))))"

lemma shard_len_covers: "0 < k \<Longrightarrow> n \<le> shard_len n k * k"
proof -
  assume k: "0 < k"
  have "n + k - 1 < Suc ((n + k - 1) div k) * k"
    using k by (metis dividend_less_div_times mult.commute mult_Suc add.commute)
  then show ?thesis using k by (simp add: shard_len_def)
qed

lemma shard_len_pos: "0 < k \<Longrightarrow> 0 < n \<Longrightarrow> 0 < shard_len n k"
  using shard_len_covers [of k n] by (cases "shard_len n k") auto

text \<open>What encoding yields: a code word whose data shards are the slices of the padded data.\<close>

lemma encode_spec:
  assumes "rs_laws rs k m" "0 < k" "0 < m" "dat \<noteq> []"
  obtains ss where "encode rs dat k m = Inr ss" "length ss = k + m" "take (length dat) (concat (take k ss)) = dat"
    "\<And>opt. erased ss opt \<Longrightarrow> k \<le> present opt \<Longrightarrow> rs_reconstruct rs k m opt = Some (map Some ss)"
proof -
  define sz where "sz = shard_len (length dat) k"
  define padded where "padded = resize (sz * k) (char_of (0 :: nat)) dat"
  define shards where "shards = resize (k + m) (replicate sz (char_of (0 :: nat))) (chunks sz padded)"
  have sz: "0 < sz" using assms by (simp add: sz_def shard_len_pos)
  have len: "length (chunks sz padded) = k"
    using sz by (intro length_chunks) (simp_all add: padded_def)
  have tk: "take k shards = chunks sz padded" using len by (simp add: shards_def resize_def)
  have all: "\<forall>s \<in> set shards. length s = sz"
  proof
    fix s assume "s \<in> set shards"
    then have "s \<in> set (chunks sz padded) \<or> s = replicate sz (char_of (0 :: nat))"
      by (auto simp: shards_def resize_def dest: in_set_takeD)
    moreover have "length padded = sz * k" by (simp add: padded_def)
    ultimately show "length s = sz" using chunks_equal_length [OF sz] by auto
  qed
  have "length shards = k + m" by (simp add: shards_def)
  then obtain ss where ss: "rs_encode rs k m shards = Some ss" "length ss = k + m" "take k ss = take k shards"
      "\<And>opt. erased ss opt \<Longrightarrow> k \<le> present opt \<Longrightarrow> rs_reconstruct rs k m opt = Some (map Some ss)"
    using assms(1) [unfolded rs_laws_def, THEN conjunct2, rule_format, OF sz _ all [rule_format]] by blast
  have "encode rs dat k m = Inr ss"
    using assms ss(1) by (simp add: encode_def rs_laws_def Let_def sz_def padded_def shards_def)
  moreover have "take (length dat) (concat (take k ss)) = dat"
    using sz assms(2) shard_len_covers [of k "length dat"] by (simp add: ss(3) tk padded_def sz_def)
  ultimately show ?thesis using that ss by blast
qed

lemma decode_erased:
  assumes "rs_new rs k m" "rs_reconstruct rs k m opt = Some (map Some ss)"
  shows "decode rs opt k m n = Inr (take n (concat (take k ss)))"
  using assms by (auto simp: decode_def take_map)

subsection \<open>A parity code\<close>

text \<open>Two data shards and their exclusive or: a code that satisfies the laws for the shape (2, 1).\<close>

fun xor_char :: "char \<Rightarrow> char \<Rightarrow> char" where
  "xor_char (Char a0 a1 a2 a3 a4 a5 a6 a7) (Char b0 b1 b2 b3 b4 b5 b6 b7) =
     Char (a0 \<noteq> b0) (a1 \<noteq> b1) (a2 \<noteq> b2) (a3 \<noteq> b3) (a4 \<noteq> b4) (a5 \<noteq> b5) (a6 \<noteq> b6) (a7 \<noteq> b7)"

fun parity_rebuild :: "string option list \<Rightarrow> string option list option" where
  "parity_rebuild [Some a, Some b, p] = Some [Some a, Some b, Some (map2 xor_char a b)]"
| "parity_rebuild [Some a, None, Some p] = Some [Some a, Some (map2 xor_char a p), Some p]"
| "parity_rebuild [None, Some b, Some p] = Some [Some (map2 xor_char b p), Some b, Some p]"
| "parity_rebuild _ = None"

definition parity_code :: ReedSolomon where
  "parity_code = \<lparr>rs_new = (\<lambda>k m. k = 2 \<and> m = 1),
     rs_encode = (\<lambda>k m shards. case shards of [a, b, p] \<Rightarrow> Some [a, b, map2 xor_char a b] | _ \<Rightarrow> None),
     rs_reconstruct = (\<lambda>k m. parity_rebuild)\<rparr>"

lemma xor_char_cancel [simp]: "xor_char a (xor_char a b) = b"
  by (cases a; cases b) auto

lemma xor_char_cancel' [simp]: "xor_char b (xor_char a b) = a"
  by (cases a; cases b) auto

lemma map2_xor_cancel [simp]:
  "length a = length b \<Longrightarrow> map2 xor_char a (map2 xor_char a b) = b"
  "length a = length b \<Longrightarrow> map2 xor_char b (map2 xor_char a b) = a"
  by (induction a b rule: list_induct2) auto

lemma parity_code_laws: "rs_laws parity_code 2 1"
  unfolding rs_laws_def
proof (intro conjI allI impI)
  fix shards :: "string list" and sz :: nat
  assume "length shards = 2 + 1" and len: "\<forall>s \<in> set shards. length s = sz"
  then obtain a b p where sh: "shards = [a, b, p]" by (auto simp: numeral_2_eq_2 length_Suc_conv)
  let ?ss = "[a, b, map2 xor_char a b]"
  have "rs_reconstruct parity_code 2 1 opt = Some (map Some ?ss)" if "erased ?ss opt" "2 \<le> present opt" for opt
  proof -
    from that(1) obtain x y z where "opt = [x, y, z]" "x = None \<or> x = Some a" "y = None \<or> y = Some b"
        "z = None \<or> z = Some (map2 xor_char a b)"
      by (auto simp: erased_def list_all2_Cons1)
    then show ?thesis using that(2) len sh by (auto simp: parity_code_def present_def)
  qed
  then show "\<exists>ss. rs_encode parity_code 2 1 shards = Some ss \<and> length ss = 2 + 1 \<and> take 2 ss = take 2 shards \<and>
      (\<forall>opt. erased ss opt \<longrightarrow> 2 \<le> present opt \<longrightarrow> rs_reconstruct parity_code 2 1 opt = Some (map Some ss))"
    by (intro exI [of _ ?ss]) (simp add: sh parity_code_def)
qed (simp add: parity_code_def)

subsection \<open>Data survives the loss of parity\<close>

text \<open>C38. Erasure coding loses nothing: for a Reed-Solomon code that keeps its promises, data that is not empty
  encodes into \<open>k + m\<close> shards, and decoding any selection of at least \<open>k\<close> of them with
  the length of the data gives the data back, padding removed.\<close>

theorem erasure_round_trip:
  assumes "rs_laws rs k m" "0 < k" "0 < m" "dat \<noteq> []"
  shows "\<exists>ss. encode rs dat k m = Inr ss \<and> length ss = k + m \<and>
    (\<forall>opt. erased ss opt \<longrightarrow> k \<le> present opt \<longrightarrow> decode rs opt k m (length dat) = Inr dat)"
  using encode_spec [OF assms] decode_erased assms(1) unfolding rs_laws_def by metis

theorem erasure_round_trip_witness:
  "\<exists>ss. encode parity_code ''hello'' 2 1 = Inr ss \<and> length ss = 3 \<and>
     decode parity_code [None, Some (ss ! 1), Some (ss ! 2)] 2 1 5 = Inr ''hello''"
proof -
  from erasure_round_trip [OF parity_code_laws, of "''hello''"]
  obtain ss where ss: "encode parity_code ''hello'' 2 1 = Inr ss" "length ss = 3"
      "\<And>opt. erased ss opt \<Longrightarrow> 2 \<le> present opt \<Longrightarrow> decode parity_code opt 2 1 (length ''hello'') = Inr ''hello''"
    by auto
  then obtain a b c where "ss = [a, b, c]" by (auto simp: numeral_3_eq_3 length_Suc_conv)
  then show ?thesis using ss by (intro exI [of _ ss]) (simp add: erased_def present_def eval_nat_numeral)
qed

end
