(* ===== verification/Text.thy ===== *)
theory Text
  imports Prelude
begin

section \<open>Text\<close>

text \<open>
  The operations on strings that the sources use of the standard library, on strings of bytes: replacing,
  splitting and joining, trimming, changing case, parsing and printing numbers.
\<close>

subsection \<open>Replacing and searching\<close>

function replace_found :: "string \<Rightarrow> string \<Rightarrow> string \<Rightarrow> string" where
  "replace_found pat to s =
     (if pat = [] \<or> s = [] then s
      else if starts_with s pat then to @ replace_found pat to (drop (length pat) s)
      else hd s # replace_found pat to (tl s))"
  by pat_completeness auto
termination by (relation "measure (\<lambda>(pat, to, s). length s)") auto

declare replace_found.simps [simp del]

definition replace_str :: "string \<Rightarrow> string \<Rightarrow> string \<Rightarrow> string" where
  "replace_str s pat to = (if pat = [] then to @ concat (map (\<lambda>c. c # to) s) else replace_found pat to s)"

lemma replace_char [simp]: "replace_str s [c] to = concat (map (\<lambda>d. if d = c then to else [d]) s)"
  by (induction s) (auto simp: replace_str_def replace_found.simps [of _ _ "_ # _"] replace_found.simps [of _ _ "[]"])

definition ends_with :: "string \<Rightarrow> string \<Rightarrow> bool" where
  "ends_with s p = suffix p s"

definition strip_prefix :: "string \<Rightarrow> string \<Rightarrow> string option" where
  "strip_prefix p s = (if starts_with s p then Some (drop (length p) s) else None)"

definition strip_suffix :: "string \<Rightarrow> string \<Rightarrow> string option" where
  "strip_suffix p s = (if suffix p s then Some (take (length s - length p) s) else None)"

fun find_str :: "string \<Rightarrow> string \<Rightarrow> nat option" where
  "find_str p [] = (if p = [] then Some 0 else None)"
| "find_str p (c # s) = (if starts_with (c # s) p then Some 0 else map_option Suc (find_str p s))"

subsection \<open>Splitting and joining\<close>

fun split_on :: "char \<Rightarrow> string \<Rightarrow> string list" where
  "split_on d [] = [[]]"
| "split_on d (c # s) =
     (if c = d then [] # split_on d s
      else case split_on d s of w # ws \<Rightarrow> (c # w) # ws | [] \<Rightarrow> [[c]])"

fun join :: "string \<Rightarrow> string list \<Rightarrow> string" where
  "join sep [] = []"
| "join sep [w] = w"
| "join sep (w # ws) = w @ sep @ join sep ws"

text \<open>\<open>splitn(2, d)\<close>: the part before the first separator, and the rest if there is one.\<close>

definition split_once :: "char \<Rightarrow> string \<Rightarrow> string \<times> string option" where
  "split_once d s =
     (let w = takeWhile (\<lambda>c. c \<noteq> d) s; r = dropWhile (\<lambda>c. c \<noteq> d) s in (w, if r = [] then None else Some (tl r)))"

definition nth_part :: "nat \<Rightarrow> 'a list \<Rightarrow> 'a option" where
  "nth_part i ws = (if i < length ws then Some (ws ! i) else None)"

lemma split_on_not_Nil [simp]: "split_on d s \<noteq> []" "[] \<noteq> split_on d s"
  by (cases s; auto split: list.splits)+

lemma join_split_on [simp]: "join [d] (split_on d s) = s"
proof (induction s)
  case (Cons c s)
  then show ?case by (cases "split_on d s"; cases "tl (split_on d s)") auto
qed simp

lemma split_on_word: "d \<notin> set w \<Longrightarrow> split_on d w = [w]"
  by (induction w) auto

lemma split_on_append: "d \<notin> set w \<Longrightarrow> split_on d (w @ d # s) = w # split_on d s"
  by (induction w) auto

lemma split_on_join: "ws \<noteq> [] \<Longrightarrow> \<forall>w \<in> set ws. d \<notin> set w \<Longrightarrow> split_on d (join [d] ws) = ws"
  by (induction "[d]" ws rule: join.induct) (auto simp: split_on_word split_on_append)

lemma split_once_append: "d \<notin> set w \<Longrightarrow> split_once d (w @ d # s) = (w, Some s)"
  by (induction w) (auto simp: split_once_def Let_def)

lemma join_append: "ws \<noteq> [] \<Longrightarrow> us \<noteq> [] \<Longrightarrow> join sep (ws @ us) = join sep ws @ sep @ join sep us"
proof (induction sep ws rule: join.induct)
  case (2 sep w)
  then show ?case by (cases us) auto
qed auto

subsection \<open>Spaces and case\<close>

definition white :: "char \<Rightarrow> bool" where
  "white c = (let n = of_char c :: nat in 9 \<le> n \<and> n \<le> 13 \<or> n = 32)"

definition trim_start_matches :: "(char \<Rightarrow> bool) \<Rightarrow> string \<Rightarrow> string" where
  "trim_start_matches p s = dropWhile p s"

definition trim_end_matches :: "(char \<Rightarrow> bool) \<Rightarrow> string \<Rightarrow> string" where
  "trim_end_matches p s = rev (dropWhile p (rev s))"

definition trim_matches :: "(char \<Rightarrow> bool) \<Rightarrow> string \<Rightarrow> string" where
  "trim_matches p s = trim_end_matches p (trim_start_matches p s)"

fun split_words :: "string \<Rightarrow> string list" where
  "split_words [] = [[]]"
| "split_words (c # s) =
     (if white c then [] # split_words s
      else case split_words s of w # ws \<Rightarrow> (c # w) # ws | [] \<Rightarrow> [[c]])"

definition split_whitespace :: "string \<Rightarrow> string list" where
  "split_whitespace s = filter (\<lambda>w. w \<noteq> []) (split_words s)"

definition lower_char :: "char \<Rightarrow> char" where
  "lower_char c = (let n = of_char c :: nat in if 65 \<le> n \<and> n \<le> 90 then char_of (n + 32) else c)"

definition upper_char :: "char \<Rightarrow> char" where
  "upper_char c = (let n = of_char c :: nat in if 97 \<le> n \<and> n \<le> 122 then char_of (n - 32) else c)"

subsection \<open>Numbers\<close>

definition digit_of :: "nat \<Rightarrow> char \<Rightarrow> nat option" where
  "digit_of radix c =
     (let n = of_char c :: nat;
          d = (if 48 \<le> n \<and> n \<le> 57 then n - 48
               else if 97 \<le> n \<and> n \<le> 122 then n - 87
               else if 65 \<le> n \<and> n \<le> 90 then n - 55 else radix)
      in if d < radix then Some d else None)"

fun digits_value :: "nat \<Rightarrow> nat \<Rightarrow> string \<Rightarrow> nat option" where
  "digits_value radix v [] = Some v"
| "digits_value radix v (c # s) =
     (case digit_of radix c of Some d \<Rightarrow> digits_value radix (radix * v + d) s | None \<Rightarrow> None)"

text \<open>\<open>from_str_radix\<close> for an unsigned type with the given greatest value: an optional plus sign and at least one
  digit.\<close>

definition parse_radix :: "nat \<Rightarrow> nat \<Rightarrow> string \<Rightarrow> nat option" where
  "parse_radix radix greatest s =
     (let s = (case s of c # r \<Rightarrow> if c = CHR ''+'' \<and> r \<noteq> [] then r else s | [] \<Rightarrow> [])
      in if s = [] then None
         else case digits_value radix 0 s of Some v \<Rightarrow> if v \<le> greatest then Some v else None | None \<Rightarrow> None)"

definition parse_u64 :: "string \<Rightarrow> u64 option" where
  "parse_u64 s = parse_radix 10 (2 ^ 64 - 1) s"

text \<open>\<open>parse\<close> for a signed type of the given width.\<close>

definition parse_signed :: "nat \<Rightarrow> string \<Rightarrow> int option" where
  "parse_signed w s =
     (case s of
        c # r \<Rightarrow> if c = CHR ''-'' \<and> r \<noteq> [] \<and> hd r \<noteq> CHR ''+''
                 then map_option (\<lambda>v. - int v) (parse_radix 10 (2 ^ (w - 1)) r)
                 else map_option int (parse_radix 10 (2 ^ (w - 1) - 1) s)
      | [] \<Rightarrow> None)"

definition hex_digit :: "nat \<Rightarrow> char" where
  "hex_digit n = (if n < 10 then char_of (48 + n) else char_of (87 + n))"

definition hex_encode :: "string \<Rightarrow> string" where
  "hex_encode s = concat (map (\<lambda>c. let n = of_char c :: nat in [hex_digit (n div 16), hex_digit (n mod 16)]) s)"

end
