(* ===== verification/ChunkServer.thy ===== *)
theory ChunkServer
  imports MasterRpc Erasure Text
begin

section \<open>The chunk server\<close>

text \<open>
  \<open>chunkserver/src/chunkserver.rs\<close> and the heartbeat loop of \<open>chunkserver/src/bin/chunkserver.rs\<close>, as programs over
  the state of one server. A directory is a map from file names to contents. A file system operation can fail,
  and a failed write can leave the first bytes of the file behind: the environment answers \<open>Disk\<close>. Which
  blocks the LRU cache drops when one is added is up to the \<open>lru\<close> library: the environment answers \<open>Evict\<close>. CRC-32
  is a parameter. A task that the code spawns and does not wait for runs inside its parent here;
  \<open>ChunkIntegrity\<close> adds it as a task of its own.
\<close>

definition MAX_GRPC_MESSAGE_SIZE :: usize where
  "MAX_GRPC_MESSAGE_SIZE = 100 * 1024 * 1024"

definition CHECKSUM_CHUNK_SIZE :: usize where
  "CHECKSUM_CHUNK_SIZE = 512"

record CachedBlock =
  cb_data :: string
  cb_size :: usize

record MyChunkServer =
  storage_dir :: "(string, string) hashmap"
  cold_storage_dir :: "(string, string) hashmap option"
  cs_config_servers :: "string list"
  cs_shard_map :: ShardMap
  block_cache :: "(string, CachedBlock) hashmap"
  cs_ca_cert :: "string option"
  pending_bad_blocks :: "string list"
  known_term :: u64
  env_addr :: string

text \<open>\<open>env_addr\<close> is the value of the environment variable \<open>CHUNK_SERVER_ADDR\<close>, empty when it is not set.\<close>

definition MyChunkServer_new :: "(string, string) hashmap \<Rightarrow> (string, string) hashmap option \<Rightarrow> string list \<Rightarrow> string option \<Rightarrow>
    ShardMap \<Rightarrow> string \<Rightarrow> MyChunkServer" where
  "MyChunkServer_new dir cold config_servers ca m addr =
     \<lparr>storage_dir = dir, cold_storage_dir = cold, cs_config_servers = config_servers, cs_shard_map = m,
      block_cache = [], cs_ca_cert = ca, pending_bad_blocks = [], known_term = 0, env_addr = addr\<rparr>"

subsection \<open>Messages\<close>

record ReplicateBlockRequest =
  w_block_id :: string
  w_data :: string
  w_next_servers :: "string list"
  w_checksum :: u32
  w_term :: u64

record WriteBlockRequest = ReplicateBlockRequest +
  w_shard_index :: i32

record WriteBlockResponse =
  w_success :: bool
  w_error :: string
  replicas_written :: i32

record ReadBlockResponse =
  rd_data :: string
  bytes_read :: u64
  rd_total_size :: u64

datatype chunk_query =
    Disk
  | Evict
  | ReadBlock string u64 u64
  | ReplicateBlock ReplicateBlockRequest
  | GetBlockLocations string
  | FetchShardMap
  | Heartbeat HeartbeatRequest

datatype chunk_reply =
    DiskDone
  | DiskPartial nat
  | Evicted "string list"
  | ReadReply ReadBlockResponse
  | ReplicateReply WriteBlockResponse
  | LocationsReply "string list option"
  | ShardsReply "(string \<times> string list) list"
  | HeartbeatReply HeartbeatResponse

type_synonym 'a chunk_task = "(MyChunkServer, chunk_query, chunk_reply, 'a) prog"
type_synonym 'a chunk_handler = "(Status + 'a) chunk_task"

text \<open>The address \<open>connect_endpoint\<close> of \<open>common/src/security.rs\<close> connects to.\<close>

definition connect_endpoint :: "string option \<Rightarrow> string \<Rightarrow> string" where
  "connect_endpoint ca url =
     (let addr = (if \<not> contains_str url ''://'' then (if ca \<noteq> None then ''https://'' else ''http://'') @ url else url)
      in if ca \<noteq> None \<and> starts_with addr ''http://'' then replace_str addr ''http://'' ''https://'' else addr)"

subsection \<open>Files\<close>

datatype io_error = NotFoundError | OtherError string

datatype place = Hot | Cold

definition file_at :: "MyChunkServer \<Rightarrow> place \<Rightarrow> string \<Rightarrow> string option" where
  "file_at s p f =
     (case p of Hot \<Rightarrow> hm_get (storage_dir s) f
      | Cold \<Rightarrow> (case cold_storage_dir s of Some dir \<Rightarrow> hm_get dir f | None \<Rightarrow> None))"

definition block_path :: "MyChunkServer \<Rightarrow> string \<Rightarrow> place" where
  "block_path s f =
     (if file_at s Hot f \<noteq> None then Hot else if file_at s Cold f \<noteq> None then Cold else Hot)"

definition put_file :: "string \<Rightarrow> string \<Rightarrow> MyChunkServer \<Rightarrow> MyChunkServer" where
  "put_file f content s = s\<lparr>storage_dir := hm_insert f content (storage_dir s)\<rparr>"

definition disk :: "'a chunk_task \<Rightarrow> 'a chunk_task \<Rightarrow> 'a chunk_task" where
  "disk ok err = Call [] Disk (\<lambda>r. case r of Some DiskDone \<Rightarrow> ok | _ \<Rightarrow> err)"

definition write_file :: "string \<Rightarrow> string \<Rightarrow> 'a chunk_task \<Rightarrow> 'a chunk_task \<Rightarrow> 'a chunk_task" where
  "write_file f content ok err =
     Call [] Disk (\<lambda>r. case r of
       Some DiskDone \<Rightarrow> Write (put_file f content) (\<lambda>_. ok)
     | Some (DiskPartial n) \<Rightarrow> Write (put_file f (take n content)) (\<lambda>_. err)
     | _ \<Rightarrow> err)"

definition meta_name :: "string \<Rightarrow> string" where
  "meta_name bid = bid @ ''.meta''"

definition move_file :: "string \<Rightarrow> MyChunkServer \<Rightarrow> MyChunkServer" where
  "move_file f s =
     (case (hm_get (storage_dir s) f, cold_storage_dir s) of
        (Some content, Some cold) \<Rightarrow>
          s\<lparr>storage_dir := hm_remove f (storage_dir s), cold_storage_dir := Some (hm_insert f content cold)\<rparr>
      | _ \<Rightarrow> s)"

definition move_block_to_cold :: "string \<Rightarrow> (io_error + unit \<Rightarrow> 'a chunk_task) \<Rightarrow> 'a chunk_task" where
  "move_block_to_cold bid k =
     Read (\<lambda>s.
       if cold_storage_dir s = None then k (Inl (OtherError ''cold_storage_dir not configured''))
       else disk
         (Write (move_file bid) (\<lambda>s.
            if file_at s Hot bid = None then k (Inl NotFoundError)
            else Read (\<lambda>s.
              if file_at s Hot (meta_name bid) = None then k (Inr ())
              else disk
                (Write (move_file (meta_name bid)) (\<lambda>s.
                   if file_at s Hot (meta_name bid) = None then k (Inl NotFoundError) else k (Inr ())))
                (k (Inl (OtherError ''rename''))))))
         (k (Inl (OtherError ''rename''))))"

subsection \<open>Checksums\<close>

definition to_be_bytes :: "u32 \<Rightarrow> string" where
  "to_be_bytes n = [char_of (n div 2 ^ 24), char_of (n div 2 ^ 16), char_of (n div 2 ^ 8), char_of n]"

definition from_be_bytes :: "string \<Rightarrow> u32" where
  "from_be_bytes bs = foldl (\<lambda>v b. 256 * v + of_char b) 0 bs"

definition calculate_checksums :: "crc_fn \<Rightarrow> string \<Rightarrow> u32 list" where
  "calculate_checksums crc dat = map crc (chunks CHECKSUM_CHUNK_SIZE dat)"

definition meta_bytes :: "crc_fn \<Rightarrow> string \<Rightarrow> string" where
  "meta_bytes crc dat = concat (map to_be_bytes (calculate_checksums crc dat))"

text \<open>\<open>chunks_exact(4)\<close> drops an incomplete last chunk.\<close>

definition read_checksums :: "string \<Rightarrow> u32 list" where
  "read_checksums meta = map from_be_bytes (filter (\<lambda>c. length c = 4) (chunks 4 meta))"

definition write_block_async :: "crc_fn \<Rightarrow> string \<Rightarrow> string \<Rightarrow> (io_error + unit \<Rightarrow> 'a chunk_task) \<Rightarrow> 'a chunk_task" where
  "write_block_async crc bid dat k =
     write_file bid dat
       (write_file (meta_name bid) (meta_bytes crc dat) (k (Inr ())) (k (Inl (OtherError ''write''))))
       (k (Inl (OtherError ''write'')))"

definition read_block_async :: "string \<Rightarrow> u64 \<Rightarrow> u64 \<Rightarrow> (io_error + string \<Rightarrow> 'a chunk_task) \<Rightarrow> 'a chunk_task" where
  "read_block_async bid offset len k =
     Read (\<lambda>s. let p = block_path s bid in
       case file_at s p bid of
         None \<Rightarrow> k (Inl NotFoundError)
       | Some dat \<Rightarrow>
           let total_size = length dat in
           if total_size \<le> offset then k (Inl (OtherError ''Offset exceeds file size''))
           else let bytes_to_read = min len (total_size - offset) in
             disk
               (Read (\<lambda>s. case file_at s p bid of
                  None \<Rightarrow> k (Inl NotFoundError)
                | Some dat \<Rightarrow>
                    if length dat < offset + bytes_to_read then k (Inl (OtherError ''failed to fill whole buffer''))
                    else k (Inr (take bytes_to_read (drop offset dat)))))
               (k (Inl (OtherError ''read''))))"

definition check_checksums :: "crc_fn \<Rightarrow> string \<Rightarrow> string \<Rightarrow> string + unit" where
  "check_checksums crc meta dat =
     (let expected_checksums = read_checksums meta; actual_checksums = calculate_checksums crc dat
      in if length expected_checksums \<noteq> length actual_checksums then Inl ''Checksum count mismatch''
         else case find (\<lambda>i. expected_checksums ! i \<noteq> actual_checksums ! i) [0..<length actual_checksums] of
                Some i \<Rightarrow> Inl (''Checksum mismatch at chunk '' @ string_of_nat i)
              | None \<Rightarrow> Inr ())"

text \<open>The checksum file of a block: in the hot directory, otherwise in the cold one.\<close>

definition meta_of :: "MyChunkServer \<Rightarrow> string \<Rightarrow> string option" where
  "meta_of s bid =
     (case file_at s Hot (meta_name bid) of Some m \<Rightarrow> Some m | None \<Rightarrow> file_at s Cold (meta_name bid))"

definition verify_block :: "crc_fn \<Rightarrow> string \<Rightarrow> string \<Rightarrow> (string + unit \<Rightarrow> 'a chunk_task) \<Rightarrow> 'a chunk_task" where
  "verify_block crc bid dat k =
     Read (\<lambda>s. case meta_of s bid of
        None \<Rightarrow> k (Inl ''Checksum file missing'')
      | Some meta \<Rightarrow> disk (k (check_checksums crc meta dat)) (k (Inl ''read'')))"

fun partial_loop :: "crc_fn \<Rightarrow> u32 list \<Rightarrow> string \<Rightarrow> nat list \<Rightarrow> string + unit" where
  "partial_loop crc stored dat [] = Inr ()"
| "partial_loop crc stored dat (i # rest) =
     (if length stored \<le> i then Inr ()
      else let chunk_offset = i * CHECKSUM_CHUNK_SIZE;
               chunk_len = min CHECKSUM_CHUNK_SIZE (u64_sub (length dat) chunk_offset)
           in if length dat < chunk_offset + chunk_len then Inl ''failed to fill whole buffer''
              else if crc (take chunk_len (drop chunk_offset dat)) \<noteq> stored ! i
              then Inl (''Checksum mismatch at chunk '' @ string_of_nat i)
              else partial_loop crc stored dat rest)"

definition verify_partial_read :: "crc_fn \<Rightarrow> string \<Rightarrow> u64 \<Rightarrow> u64 \<Rightarrow> (string + unit \<Rightarrow> 'a chunk_task) \<Rightarrow> 'a chunk_task" where
  "verify_partial_read crc bid offset len k =
     Read (\<lambda>s. case (file_at s Hot (meta_name bid), file_at s Hot bid) of
        (None, _) \<Rightarrow> k (Inl ''Checksum file missing'')
      | (Some meta, None) \<Rightarrow> k (Inl ''No such file or directory'')
      | (Some meta, Some dat) \<Rightarrow>
          disk
            (k (partial_loop crc (read_checksums meta) dat
                 [offset div CHECKSUM_CHUNK_SIZE ..< Suc ((offset + len - 1) div CHECKSUM_CHUNK_SIZE)]))
            (k (Inl ''read'')))"

subsection \<open>The shard map\<close>

fun refresh_from :: "crc_fn \<Rightarrow> string option \<Rightarrow> string list \<Rightarrow> (string + unit \<Rightarrow> 'a chunk_task) \<Rightarrow> 'a chunk_task" where
  "refresh_from crc ca [] k = k (Inl ''Failed to refresh shard map from any config server'')"
| "refresh_from crc ca (addr # addrs) k =
     Call (connect_endpoint ca addr) FetchShardMap (\<lambda>r. case r of
       Some (ShardsReply shards_data) \<Rightarrow>
         Write (\<lambda>s. s\<lparr>cs_shard_map := fold (\<lambda>(i, ps). add_shard crc i ps) shards_data (cs_shard_map s)\<rparr>)
           (\<lambda>_. k (Inr ()))
     | _ \<Rightarrow> refresh_from crc ca addrs k)"

definition refresh_shard_map :: "crc_fn \<Rightarrow> (string + unit \<Rightarrow> 'a chunk_task) \<Rightarrow> 'a chunk_task" where
  "refresh_shard_map crc k = Read (\<lambda>s. refresh_from crc (cs_ca_cert s) (cs_config_servers s) k)"

subsection \<open>Recovery, replication and reconstruction\<close>

fun ask_masters :: "string option \<Rightarrow> string \<Rightarrow> string list \<Rightarrow> (string list \<Rightarrow> 'a chunk_task) \<Rightarrow> 'a chunk_task" where
  "ask_masters ca bid [] k = k []"
| "ask_masters ca bid (m # ms) k =
     Call (connect_endpoint ca m) (GetBlockLocations bid) (\<lambda>r. case r of
       Some (LocationsReply (Some locs)) \<Rightarrow> k locs
     | _ \<Rightarrow> ask_masters ca bid ms k)"

fun try_replicas :: "crc_fn \<Rightarrow> string option \<Rightarrow> string \<Rightarrow> string \<Rightarrow> string list \<Rightarrow> (string + unit \<Rightarrow> 'a chunk_task) \<Rightarrow>
    'a chunk_task" where
  "try_replicas crc ca my_addr bid [] k = k (Inl ''Failed to recover block from any replica'')"
| "try_replicas crc ca my_addr bid (loc # locs) k =
     (if contains_str loc my_addr then try_replicas crc ca my_addr bid locs k
      else Call (connect_endpoint ca loc) (ReadBlock bid 0 0) (\<lambda>r. case r of
        Some (ReadReply resp) \<Rightarrow>
          verify_block crc bid (rd_data resp) (\<lambda>v. case v of
            Inr _ \<Rightarrow>
              write_block_async crc bid (rd_data resp) (\<lambda>w. case w of
                Inr _ \<Rightarrow> k (Inr ())
              | Inl _ \<Rightarrow> try_replicas crc ca my_addr bid locs k)
          | Inl _ \<Rightarrow> try_replicas crc ca my_addr bid locs k)
      | _ \<Rightarrow> try_replicas crc ca my_addr bid locs k))"

definition recover_block :: "crc_fn \<Rightarrow> string \<Rightarrow> (string + unit \<Rightarrow> 'a chunk_task) \<Rightarrow> 'a chunk_task" where
  "recover_block crc bid k =
     Read (\<lambda>s. ask_masters (cs_ca_cert s) bid (get_all_masters (cs_shard_map s)) (\<lambda>locs.
       if locs = [] then k (Inl ''No replica locations found for block'')
       else try_replicas crc (cs_ca_cert s) (env_addr s) bid locs k))"

definition initiate_replication :: "string \<Rightarrow> string \<Rightarrow> (string + unit \<Rightarrow> 'a chunk_task) \<Rightarrow> 'a chunk_task" where
  "initiate_replication bid target_addr k =
     Read (\<lambda>s. case file_at s (block_path s bid) bid of
        None \<Rightarrow> k (Inl ''Failed to read block'')
      | Some dat \<Rightarrow>
          disk
            (Read (\<lambda>s. Call (connect_endpoint (cs_ca_cert s) target_addr)
               (ReplicateBlock \<lparr>w_block_id = bid, w_data = dat, w_next_servers = [], w_checksum = 0, w_term = known_term s\<rparr>)
               (\<lambda>r. case r of Some (ReplicateReply _) \<Rightarrow> k (Inr ()) | _ \<Rightarrow> k (Inl ''Replication failed''))))
            (k (Inl ''Failed to read block'')))"

fun fetch_shards :: "string option \<Rightarrow> string \<Rightarrow> usize \<Rightarrow> (usize \<times> string) list \<Rightarrow> (string option list \<Rightarrow> 'a chunk_task) \<Rightarrow>
    'a chunk_task" where
  "fetch_shards ca bid idx [] k = k []"
| "fetch_shards ca bid idx ((i, src) # srcs) k =
     (if src = [] \<or> i = idx then fetch_shards ca bid idx srcs (\<lambda>opts. k (None # opts))
      else Call (if ca \<noteq> None then replace_str (''http://'' @ src) ''http://'' ''https://'' else ''http://'' @ src)
        (ReadBlock bid 0 0) (\<lambda>r.
          fetch_shards ca bid idx srcs (\<lambda>opts.
            k ((case r of Some (ReadReply resp) \<Rightarrow> Some (rd_data resp) | _ \<Rightarrow> None) # opts))))"

text \<open>An index beyond the shards is a panic of the task.\<close>

definition reconstruct_ec_shard :: "crc_fn \<Rightarrow> ReedSolomon \<Rightarrow> string \<Rightarrow> usize \<Rightarrow> usize \<Rightarrow> usize \<Rightarrow> string list \<Rightarrow>
    (string + unit \<Rightarrow> 'a chunk_task) \<Rightarrow> 'a chunk_task" where
  "reconstruct_ec_shard crc rs bid idx data_shards parity_shards sources k =
     (let total = data_shards + parity_shards in
      if length sources \<noteq> total then k (Inl ''ec_shard_sources length does not match'')
      else Read (\<lambda>s. fetch_shards (cs_ca_cert s) bid idx (enumerate 0 sources) (\<lambda>opt_shards.
        if present opt_shards < data_shards then k (Inl ''Not enough shards available'')
        else if \<not> rs_new rs data_shards parity_shards then k (Inl ''RS init error'')
        else case rs_reconstruct rs data_shards parity_shards opt_shards of
          None \<Rightarrow> k (Inl ''RS reconstruct error'')
        | Some opt_shards \<Rightarrow>
            if length opt_shards \<le> idx then k (Inl ''panic: index out of bounds'')
            else case opt_shards ! idx of
              None \<Rightarrow> k (Inl ''Shard still None after reconstruct'')
            | Some shard_data \<Rightarrow>
                write_block_async crc bid shard_data (\<lambda>w. case w of
                  Inr _ \<Rightarrow> k (Inr ()) | Inl _ \<Rightarrow> k (Inl ''Failed to write reconstructed shard'')))))"

subsection \<open>The scrubber\<close>

definition is_meta_file :: "string \<Rightarrow> bool" where
  "is_meta_file f = (ends_with f ''.meta'' \<and> f \<noteq> ''.meta'')"

fun scrub_entries :: "crc_fn \<Rightarrow> string list \<Rightarrow> (string list \<Rightarrow> 'a chunk_task) \<Rightarrow> 'a chunk_task" where
  "scrub_entries crc [] k = k []"
| "scrub_entries crc (f # fs) k =
     (if is_meta_file f then scrub_entries crc fs k
      else Read (\<lambda>s. case file_at s Hot f of
        None \<Rightarrow> scrub_entries crc fs k
      | Some dat \<Rightarrow>
          disk
            (verify_block crc f dat (\<lambda>v. case v of
               Inr _ \<Rightarrow> scrub_entries crc fs k
             | Inl _ \<Rightarrow> scrub_entries crc fs (\<lambda>corrupted. k (f # corrupted))))
            (scrub_entries crc fs k)))"

definition run_background_scrubber :: "crc_fn \<Rightarrow> unit chunk_task" where
  "run_background_scrubber crc =
     Read (\<lambda>s. scrub_entries crc (hm_keys (storage_dir s)) (\<lambda>corrupted_blocks.
       Write (\<lambda>s. s\<lparr>pending_bad_blocks := pending_bad_blocks s @ corrupted_blocks\<rparr>) (\<lambda>_.
         for_each corrupted_blocks (\<lambda>bid next_one. recover_block crc bid (\<lambda>_. next_one)) (Ret ()))))"

subsection \<open>Writing\<close>

text \<open>Requests of an earlier term than the latest one seen are refused; term 0 is always accepted.\<close>

definition fence :: "u64 \<Rightarrow> 'a chunk_handler \<Rightarrow> 'a chunk_handler" where
  "fence req_term k =
     Read (\<lambda>s.
       if 0 < req_term \<and> req_term < known_term s
       then Ret (Inl (FailedPrecondition (''Stale master term: request has '' @ string_of_nat req_term @
              '' but known term is '' @ string_of_nat (known_term s))))
       else if known_term s < req_term then Write (\<lambda>s. s\<lparr>known_term := req_term\<rparr>) (\<lambda>_. k)
       else k)"

definition write_failed :: "string \<Rightarrow> WriteBlockResponse" where
  "write_failed msg = \<lparr>w_success = False, w_error = msg, replicas_written = 0\<rparr>"

definition forward_block :: "('x) ReplicateBlockRequest_scheme \<Rightarrow> WriteBlockResponse chunk_handler" where
  "forward_block req =
     (case w_next_servers req of
        [] \<Rightarrow> Ret (Inr \<lparr>w_success = True, w_error = [], replicas_written = 1\<rparr>)
      | next_server # remaining_servers \<Rightarrow>
          Read (\<lambda>s. Call (connect_endpoint (cs_ca_cert s) next_server)
            (ReplicateBlock \<lparr>w_block_id = w_block_id req, w_data = w_data req, w_next_servers = remaining_servers,
               w_checksum = w_checksum req, w_term = w_term req\<rparr>)
            (\<lambda>r. Ret (Inr \<lparr>w_success = True, w_error = [], replicas_written =
               (case r of Some (ReplicateReply resp) \<Rightarrow> if w_success resp then i32_add 1 (replicas_written resp) else 1
                | _ \<Rightarrow> 1)\<rparr>))))"

definition store_block :: "crc_fn \<Rightarrow> string \<Rightarrow> ('x) ReplicateBlockRequest_scheme \<Rightarrow> WriteBlockResponse chunk_handler" where
  "store_block crc what req =
     fence (w_term req)
       (if w_checksum req \<noteq> 0 \<and> crc (w_data req) \<noteq> w_checksum req
        then Ret (Inr (write_failed (what @ ''hecksum mismatch: expected '' @ string_of_nat (w_checksum req) @
               '', actual '' @ string_of_nat (crc (w_data req)))))
        else write_block_async crc (w_block_id req) (w_data req) (\<lambda>w. case w of
          Inl _ \<Rightarrow> Ret (Inr (write_failed ''write''))
        | Inr _ \<Rightarrow> forward_block req))"

definition write_block :: "crc_fn \<Rightarrow> WriteBlockRequest \<Rightarrow> WriteBlockResponse chunk_handler" where
  "write_block crc req = store_block crc ''C'' req"

definition replicate_block :: "crc_fn \<Rightarrow> ReplicateBlockRequest \<Rightarrow> WriteBlockResponse chunk_handler" where
  "replicate_block crc req = store_block crc ''Replication c'' req"

subsection \<open>Reading\<close>

definition cache_block :: "string \<Rightarrow> string \<Rightarrow> 'a chunk_task \<Rightarrow> 'a chunk_task" where
  "cache_block bid dat k =
     Call [] Evict (\<lambda>r.
       Write (\<lambda>s. s\<lparr>block_cache := hm_insert bid \<lparr>cb_data = dat, cb_size = length dat\<rparr>
           (filter (\<lambda>(b, _). b \<notin> set (case r of Some (Evicted bs) \<Rightarrow> bs | _ \<Rightarrow> [])) (block_cache s))\<rparr>)
         (\<lambda>_. k))"

definition read_recovered :: "crc_fn \<Rightarrow> string \<Rightarrow> u64 \<Rightarrow> string \<Rightarrow> ReadBlockResponse chunk_handler" where
  "read_recovered crc bid total_size e =
     recover_block crc bid (\<lambda>w. case w of
       Inl recovery_err \<Rightarrow>
         Ret (Inl (DataLoss (''Data corruption detected: '' @ e @ ''. Recovery failed: '' @ recovery_err)))
     | Inr _ \<Rightarrow>
         read_block_async bid 0 total_size (\<lambda>r. case r of
           Inl _ \<Rightarrow> Ret (Inl (Internal ''read''))
         | Inr recovered \<Rightarrow>
             verify_block crc bid recovered (\<lambda>v. case v of
               Inl e \<Rightarrow> Ret (Inl (DataLoss (''Recovered block is still corrupted: '' @ e)))
             | Inr _ \<Rightarrow> Ret (Inr \<lparr>rd_data = recovered, bytes_read = total_size, rd_total_size = total_size\<rparr>))))"

definition read_verified :: "crc_fn \<Rightarrow> string \<Rightarrow> u64 \<Rightarrow> string \<Rightarrow> ReadBlockResponse chunk_handler" where
  "read_verified crc bid total_size dat =
     verify_block crc bid dat (\<lambda>v. case v of
       Inr _ \<Rightarrow> cache_block bid dat (Ret (Inr \<lparr>rd_data = dat, bytes_read = total_size, rd_total_size = total_size\<rparr>))
     | Inl e \<Rightarrow> read_recovered crc bid total_size e)"

definition read_whole :: "crc_fn \<Rightarrow> string \<Rightarrow> u64 \<Rightarrow> ReadBlockResponse chunk_handler" where
  "read_whole crc bid total_size =
     read_block_async bid 0 total_size (\<lambda>r. case r of
       Inl NotFoundError \<Rightarrow> Ret (Inl (StatusNotFound ''Block not found''))
     | Inl (OtherError e) \<Rightarrow> Ret (Inl (Internal (''Failed to read block: '' @ e)))
     | Inr dat \<Rightarrow> read_verified crc bid total_size dat)"

text \<open>A part of a block is checked too, but what the check finds only starts a recovery.\<close>

definition read_part :: "crc_fn \<Rightarrow> string \<Rightarrow> u64 \<Rightarrow> u64 \<Rightarrow> u64 \<Rightarrow> ReadBlockResponse chunk_handler" where
  "read_part crc bid offset bytes_to_read total_size =
     read_block_async bid offset bytes_to_read (\<lambda>r. case r of
       Inl NotFoundError \<Rightarrow> Ret (Inl (StatusNotFound ''Block not found''))
     | Inl (OtherError e) \<Rightarrow> Ret (Inl (Internal (''Failed to read block: '' @ e)))
     | Inr dat \<Rightarrow>
         verify_partial_read crc bid offset bytes_to_read (\<lambda>v.
           let answer = Ret (Inr \<lparr>rd_data = dat, bytes_read = bytes_to_read, rd_total_size = total_size\<rparr>)
           in case v of Inr _ \<Rightarrow> answer | Inl _ \<Rightarrow> recover_block crc bid (\<lambda>_. answer)))"

definition read_block :: "crc_fn \<Rightarrow> string \<Rightarrow> u64 \<Rightarrow> u64 \<Rightarrow> ReadBlockResponse chunk_handler" where
  "read_block crc bid offset req_length =
     Read (\<lambda>s. case file_at s (block_path s bid) bid of
        None \<Rightarrow> Ret (Inl (StatusNotFound ''Block not found''))
      | Some dat \<Rightarrow>
          let total_size = length dat;
              len = (if req_length = 0 then total_size - offset else req_length)
          in if total_size \<le> offset
             then Ret (Inl (OutOfRange (''Offset '' @ string_of_nat offset @ '' exceeds block size '' @
                    string_of_nat total_size)))
             else let bytes_to_read = min len (total_size - offset) in
               if offset = 0 \<and> bytes_to_read = total_size
               then Read (\<lambda>s. case hm_get (block_cache s) bid of
                      Some cached \<Rightarrow>
                        Ret (Inr \<lparr>rd_data = cb_data cached, bytes_read = cb_size cached, rd_total_size = total_size\<rparr>)
                    | None \<Rightarrow> read_whole crc bid total_size)
               else read_part crc bid offset bytes_to_read total_size)"

subsection \<open>Heartbeats\<close>

definition master_url :: "string option \<Rightarrow> string \<Rightarrow> string" where
  "master_url ca addr =
     (if ca \<noteq> None \<and> \<not> starts_with addr ''https://''
      then (if starts_with addr ''http://'' then replace_str addr ''http://'' ''https://'' else ''https://'' @ addr)
      else if \<not> starts_with addr ''http://'' \<and> ca = None then ''http://'' @ addr else addr)"

definition run_command :: "crc_fn \<Rightarrow> ReedSolomon \<Rightarrow> ChunkServerCommand \<Rightarrow> unit chunk_task \<Rightarrow> unit chunk_task" where
  "run_command crc rs c k =
     (case command_type c of
        REPLICATE \<Rightarrow> initiate_replication (cmd_block_id c) (target_chunk_server_address c) (\<lambda>_. k)
      | RECONSTRUCT_EC_SHARD \<Rightarrow>
          reconstruct_ec_shard crc rs (cmd_block_id c) (i32_as_usize (shard_index c)) (i32_as_usize (cmd_ec_data_shards c))
            (i32_as_usize (cmd_ec_parity_shards c)) (ec_shard_sources c) (\<lambda>_. k)
      | MOVE_TO_COLD \<Rightarrow> move_block_to_cold (cmd_block_id c) (\<lambda>_. k)
      | UNKNOWN \<Rightarrow> k
      | DELETE \<Rightarrow> k)"

definition heartbeat_master :: "crc_fn \<Rightarrow> ReedSolomon \<Rightarrow> string option \<Rightarrow> HeartbeatRequest \<Rightarrow> string \<Rightarrow> unit chunk_task \<Rightarrow>
    unit chunk_task" where
  "heartbeat_master crc rs ca req master_addr k =
     Call (master_url ca master_addr) (Heartbeat req) (\<lambda>r. case r of
       Some (HeartbeatReply resp) \<Rightarrow>
         let commands = for_each (hb_commands resp) (run_command crc rs) k
         in Read (\<lambda>s. if known_term s < hb_master_term resp
              then Write (\<lambda>s. s\<lparr>known_term := hb_master_term resp\<rparr>) (\<lambda>_. commands) else commands)
     | _ \<Rightarrow> k)"

text \<open>One round of the loop; the free and the total space of the disk are read from the operating system. The entries of
  the directory that are counted as chunks include the checksum files.\<close>

definition heartbeat_round :: "crc_fn \<Rightarrow> ReedSolomon \<Rightarrow> string \<Rightarrow> string \<Rightarrow> u64 \<Rightarrow> u64 \<Rightarrow> unit chunk_task" where
  "heartbeat_round crc rs my_addr rack available total_space =
     refresh_shard_map crc (\<lambda>_.
       Read (\<lambda>s. let count = length (storage_dir s) in
         Read (\<lambda>s. let masters = get_all_masters (cs_shard_map s) in
           Write (\<lambda>s. s\<lparr>pending_bad_blocks := []\<rparr>) (\<lambda>s.
             for_each masters
               (heartbeat_master crc rs (cs_ca_cert s)
                  \<lparr>hb_address = my_addr, hb_used_space = total_space - available, hb_available_space = available,
                   hb_chunk_count = count, hb_bad_blocks = pending_bad_blocks s, hb_rack_id = rack\<rparr>)
               (Ret ())))))"

end
