(* ===== verification/ChunkIntegrity.thy ===== *)
theory ChunkIntegrity
  imports ChunkServer
begin

section \<open>What a chunk server serves\<close>

text \<open>
  The tasks of one chunk server run interleaved, on a disk that can fail and whose data files can be damaged. A reply to
  a request for a whole block still carries only bytes whose checksums were on record for the block.
\<close>

subsection \<open>Interleaved tasks\<close>

text \<open>The work of a server. The commands of a heartbeat and the recovery after a damaged partial read are spawned by the
  code: they are tasks of their own here as well, and can start at any time.\<close>

datatype chunk_job =
    ReadJob string u64 u64
  | WriteJob WriteBlockRequest
  | ReplicateJob ReplicateBlockRequest
  | ScrubJob
  | HeartbeatJob string string u64 u64
  | CommandJob ChunkServerCommand
  | RecoverJob string

datatype chunk_result = ReadResult "Status + ReadBlockResponse" | WriteResult "Status + WriteBlockResponse" | NoResult

fun job_prog :: "crc_fn \<Rightarrow> ReedSolomon \<Rightarrow> chunk_job \<Rightarrow> chunk_result chunk_task" where
  "job_prog crc rs (ReadJob bid offset len) = map_prog id ReadResult (read_block crc bid offset len)"
| "job_prog crc rs (WriteJob req) = map_prog id WriteResult (write_block crc req)"
| "job_prog crc rs (ReplicateJob req) = map_prog id WriteResult (replicate_block crc req)"
| "job_prog crc rs ScrubJob = map_prog id (\<lambda>_. NoResult) (run_background_scrubber crc)"
| "job_prog crc rs (HeartbeatJob addr rack available space) =
     map_prog id (\<lambda>_. NoResult) (heartbeat_round crc rs addr rack available space)"
| "job_prog crc rs (CommandJob c) = map_prog id (\<lambda>_. NoResult) (run_command crc rs c (Ret ()))"
| "job_prog crc rs (RecoverJob bid) = map_prog id (\<lambda>_. NoResult) (recover_block crc bid (\<lambda>_. Ret ()))"

text \<open>The checksum lists that are on disk for the blocks.\<close>

type_synonym checksum_log = "(string \<times> u32 list) set"

definition recorded :: "MyChunkServer \<Rightarrow> checksum_log" where
  "recorded s = {(bid, read_checksums m) | bid m. meta_of s bid = Some m}"

text \<open>A running server: its state, its tasks, and every checksum list that has been on its disk.\<close>

record running =
  server :: MyChunkServer
  tasks :: "(chunk_job \<times> chunk_result chunk_task) list"
  on_record :: checksum_log

definition goes_on :: "running \<Rightarrow> MyChunkServer \<Rightarrow> (chunk_job \<times> chunk_result chunk_task) list \<Rightarrow> running" where
  "goes_on r s ts = \<lparr>server = s, tasks = ts, on_record = on_record r \<union> recorded s\<rparr>"

definition damage :: "place \<Rightarrow> string \<Rightarrow> string \<Rightarrow> MyChunkServer \<Rightarrow> MyChunkServer" where
  "damage p f x s =
     (case p of Hot \<Rightarrow> put_file f x s
      | Cold \<Rightarrow> s\<lparr>cold_storage_dir := map_option (hm_insert f x) (cold_storage_dir s)\<rparr>)"

inductive chunk_step :: "crc_fn \<Rightarrow> ReedSolomon \<Rightarrow> running \<Rightarrow> running \<Rightarrow> bool" for crc rs where
  start: "chunk_step crc rs r (goes_on r (server r) (tasks r @ [(j, job_prog crc rs j)]))"
| reads: "i < length (tasks r) \<Longrightarrow> tasks r ! i = (j, Read k) \<Longrightarrow>
    chunk_step crc rs r (goes_on r (server r) ((tasks r)[i := (j, k (server r))]))"
| writes: "i < length (tasks r) \<Longrightarrow> tasks r ! i = (j, Write f k) \<Longrightarrow>
    chunk_step crc rs r (goes_on r (f (server r)) ((tasks r)[i := (j, k (server r))]))"
| answered: "i < length (tasks r) \<Longrightarrow> tasks r ! i = (j, Call addr q k) \<Longrightarrow>
    chunk_step crc rs r (goes_on r (server r) ((tasks r)[i := (j, k y)]))"
| damaged: "\<forall>bid. f \<noteq> meta_name bid \<Longrightarrow> chunk_step crc rs r (goes_on r (damage p f x (server r)) (tasks r))"
| restarted: "chunk_step crc rs r
    (goes_on r (MyChunkServer_new (storage_dir (server r)) (cold_storage_dir (server r)) (cs_config_servers (server r))
       (cs_ca_cert (server r)) m (env_addr (server r))) [])"

definition booted :: "MyChunkServer \<Rightarrow> running" where
  "booted s = \<lparr>server = s\<lparr>block_cache := []\<rparr>, tasks = [], on_record = recorded s\<rparr>"

subsection \<open>Programs that respect the log\<close>

definition cache_ok :: "crc_fn \<Rightarrow> checksum_log \<Rightarrow> MyChunkServer \<Rightarrow> bool" where
  "cache_ok crc H s = (\<forall>(bid, c) \<in> set (block_cache s). (bid, calculate_checksums crc (cb_data c)) \<in> H)"

definition fits :: "crc_fn \<Rightarrow> checksum_log \<Rightarrow> MyChunkServer \<Rightarrow> bool" where
  "fits crc H s = (recorded s \<subseteq> H \<and> cache_ok crc H s)"

text \<open>\<open>adheres crc Q p H\<close>: while the log grows from \<open>H\<close> and the cache agrees with it, every update of \<open>p\<close>
  keeps the cache in agreement, and the result satisfies \<open>Q\<close>.\<close>

primrec adheres :: "crc_fn \<Rightarrow> ('a \<Rightarrow> checksum_log \<Rightarrow> bool) \<Rightarrow> 'a chunk_task \<Rightarrow> checksum_log \<Rightarrow> bool" where
  "adheres crc Q (Ret x) = (\<lambda>H. Q x H)"
| "adheres crc Q (Read k) = (\<lambda>H. \<forall>H' s. H \<subseteq> H' \<longrightarrow> fits crc H' s \<longrightarrow> adheres crc Q (k s) H')"
| "adheres crc Q (Write f k) =
     (\<lambda>H. \<forall>H' s. H \<subseteq> H' \<longrightarrow> fits crc H' s \<longrightarrow>
        cache_ok crc (H' \<union> recorded (f s)) (f s) \<and> adheres crc Q (k s) (H' \<union> recorded (f s)))"
| "adheres crc Q (Propose c k) = (\<lambda>H. \<forall>x. adheres crc Q (k x) H)"
| "adheres crc Q (Send c p) = (\<lambda>H. adheres crc Q p H)"
| "adheres crc Q (ReadIndex k) = (\<lambda>H. \<forall>x. adheres crc Q (k x) H)"
| "adheres crc Q (LeaderInfo k) = (\<lambda>H. \<forall>x. adheres crc Q (k x) H)"
| "adheres crc Q (GetInfo k) = (\<lambda>H. \<forall>x. adheres crc Q (k x) H)"
| "adheres crc Q (Call a q k) = (\<lambda>H. \<forall>y. adheres crc Q (k y) H)"
| "adheres crc Q (Clock k) = (\<lambda>H. \<forall>x. adheres crc Q (k x) H)"
| "adheres crc Q (Uuid k) = (\<lambda>H. \<forall>x. adheres crc Q (k x) H)"

definition growing :: "('a \<Rightarrow> checksum_log \<Rightarrow> bool) \<Rightarrow> bool" where
  "growing Q \<longleftrightarrow> (\<forall>x H H'. Q x H \<longrightarrow> H \<subseteq> H' \<longrightarrow> Q x H')"

lemma adheres_mono:
  assumes "growing Q" "adheres crc Q p H" "H \<subseteq> H'"
  shows "adheres crc Q p H'"
  using assms(2)
proof (induction p)
  case (Ret x)
  then show ?case using assms(1,3) unfolding growing_def adheres.simps by blast
qed (use assms(3) in \<open>auto\<close>)

lemma adheres_map [simp]: "adheres crc Q (map_prog id f p) = adheres crc (\<lambda>x. Q (f x)) p"
  by (induction p) (simp_all add: fun_eq_iff)

lemma cache_ok_mono: "cache_ok crc H s \<Longrightarrow> H \<subseteq> H' \<Longrightarrow> cache_ok crc H' s"
  by (auto simp: cache_ok_def)

lemma cache_ok_same: "cache_ok crc H s \<Longrightarrow> H \<subseteq> H' \<Longrightarrow> block_cache s' = block_cache s \<Longrightarrow> cache_ok crc H' s'"
  by (auto simp: cache_ok_def)

text \<open>An update that leaves the cache alone.\<close>

lemma adheres_Write:
  assumes "\<And>s. block_cache (f s) = block_cache s" "\<And>H' s. H \<subseteq> H' \<Longrightarrow> adheres crc Q (k s) H'"
  shows "adheres crc Q (Write f k) H"
  using assms cache_ok_same by (simp add: fits_def) (meson sup.coboundedI1 Un_upper1)

text \<open>A continuation that goes on whatever has been added to the log in the meantime.\<close>

abbreviation goes :: "crc_fn \<Rightarrow> ('a \<Rightarrow> checksum_log \<Rightarrow> bool) \<Rightarrow> ('x \<Rightarrow> 'a chunk_task) \<Rightarrow> checksum_log \<Rightarrow> bool" where
  "goes crc Q k H \<equiv> \<forall>H' x. H \<subseteq> H' \<longrightarrow> adheres crc Q (k x) H'"

lemma block_cache_put_file [simp]: "block_cache (put_file f x s) = block_cache s"
  by (simp add: put_file_def)

lemma block_cache_move_file [simp]: "block_cache (move_file f s) = block_cache s"
  by (simp add: move_file_def split: option.split)

lemma adheres_disk: "adheres crc Q ok H \<Longrightarrow> adheres crc Q err H \<Longrightarrow> adheres crc Q (disk ok err) H"
  by (simp add: disk_def split: option.split chunk_reply.split)

lemma adheres_write_file:
  assumes "\<And>H'. H \<subseteq> H' \<Longrightarrow> adheres crc Q ok H'" "\<And>H'. H \<subseteq> H' \<Longrightarrow> adheres crc Q err H'"
  shows "adheres crc Q (write_file f content ok err) H"
  unfolding write_file_def
  by (auto split: option.split chunk_reply.split simp del: adheres.simps(3) intro!: adheres_Write assms)

lemma adheres_write_block_async: "goes crc Q k H \<Longrightarrow> adheres crc Q (write_block_async crc' bid dat k) H"
  unfolding write_block_async_def by (intro adheres_write_file) (simp_all add: subset_trans)

lemma adheres_read_block_async: "goes crc Q k H \<Longrightarrow> adheres crc Q (read_block_async bid offset len k) H"
  unfolding read_block_async_def
  by (auto simp: Let_def split: option.split intro!: adheres_disk)

lemma check_checksums_ok: "check_checksums crc m dat = Inr () \<Longrightarrow> read_checksums m = calculate_checksums crc dat"
proof (rule nth_equalityI)
  assume ok: "check_checksums crc m dat = Inr ()"
  then show len: "length (read_checksums m) = length (calculate_checksums crc dat)"
    by (simp add: check_checksums_def Let_def split: if_splits)
  have "find (\<lambda>i. read_checksums m ! i \<noteq> calculate_checksums crc dat ! i) [0..<length (calculate_checksums crc dat)] = None"
    using ok len by (simp add: check_checksums_def Let_def split: option.splits)
  then show "read_checksums m ! i = calculate_checksums crc dat ! i" if "i < length (read_checksums m)" for i
    using that len by (simp add: find_None_iff)
qed

text \<open>The checksum file of data that was just written checks the data.\<close>

lemma from_to_be_bytes: "n < 2 ^ 32 \<Longrightarrow> from_be_bytes (to_be_bytes n) = n"
proof -
  assume n: "n < 2 ^ 32"
  have "n div 2 ^ 16 = n div 256 div 256" "n div 2 ^ 24 = n div 256 div 256 div 256"
    by (simp_all add: div_mult2_eq [symmetric])
  moreover have "n div 256 div 256 div 256 < 256" using n by (simp add: div_mult2_eq [symmetric] less_mult_imp_div_less)
  ultimately show ?thesis by (simp add: from_be_bytes_def to_be_bytes_def)
qed

lemma chunks_append: "length xs = n \<Longrightarrow> 0 < n \<Longrightarrow> chunks n (xs @ ys) = xs # chunks n ys"
  by (subst chunks.simps) auto

lemma chunks_be_bytes: "chunks 4 (concat (map to_be_bytes cs)) = map to_be_bytes cs"
proof (induction cs)
  case (Cons c cs)
  have "length (to_be_bytes c) = 4" by (simp add: to_be_bytes_def)
  then show ?case using Cons chunks_append [of "to_be_bytes c" 4] by simp
qed simp

lemma read_checksums_meta:
  assumes "\<And>d. crc d < 2 ^ 32"
  shows "read_checksums (meta_bytes crc dat) = calculate_checksums crc dat"
proof -
  have "filter (\<lambda>c. length c = 4) (map to_be_bytes cs) = map to_be_bytes cs" for cs
    by (induction cs) (simp_all add: to_be_bytes_def)
  moreover have "map (from_be_bytes \<circ> to_be_bytes) (calculate_checksums crc dat) = calculate_checksums crc dat"
    by (rule map_idI) (auto simp: calculate_checksums_def from_to_be_bytes [OF assms])
  ultimately show ?thesis
    by (simp add: read_checksums_def meta_bytes_def chunks_be_bytes)
qed

lemma check_fresh_checksums: "(\<And>d. crc d < 2 ^ 32) \<Longrightarrow> check_checksums crc (meta_bytes crc dat) dat = Inr ()"
  by (simp add: check_checksums_def Let_def read_checksums_meta find_None_iff split: option.split)

lemma adheres_verify_block:
  assumes "\<And>H' v. H \<subseteq> H' \<Longrightarrow> (v = Inr () \<Longrightarrow> (bid, calculate_checksums crc dat) \<in> H') \<Longrightarrow> adheres crc Q (k v) H'"
  shows "adheres crc Q (verify_block crc bid dat k) H"
proof -
  have "(bid, calculate_checksums crc dat) \<in> H'"
    if "fits crc H' s" "meta_of s bid = Some m" "check_checksums crc m dat = Inr ()" for H' s m
    using that check_checksums_ok [OF that(3)] by (auto simp: fits_def recorded_def)
  then show ?thesis
    unfolding verify_block_def by (auto simp: disk_def split: option.split chunk_reply.split intro!: assms)
qed

lemma adheres_verify_partial_read: "goes crc Q k H \<Longrightarrow> adheres crc Q (verify_partial_read crc bid offset len k) H"
  unfolding verify_partial_read_def by (auto simp: disk_def split: option.split chunk_reply.split prod.split)

text \<open>With a postcondition that stays true, a continuation that is fine now is fine later.\<close>

lemma goesI: "growing Q \<Longrightarrow> (\<And>x. adheres crc Q (k x) H) \<Longrightarrow> goes crc Q k H"
  using adheres_mono by blast

lemma goes_later: "goes crc Q k H \<Longrightarrow> H \<subseteq> H' \<Longrightarrow> goes crc Q k H'"
  by auto

lemma adheres_move_block_to_cold: "goes crc Q k H \<Longrightarrow> adheres crc Q (move_block_to_cold bid k) H"
  unfolding move_block_to_cold_def
  by (auto simp del: adheres.simps(3) intro!: adheres_disk adheres_Write)

lemma adheres_refresh_from: "goes crc Q k H \<Longrightarrow> adheres crc Q (refresh_from crc' ca addrs k) H"
  by (induction addrs)
    (auto simp del: adheres.simps(3) split: option.split chunk_reply.split intro!: adheres_Write)

lemma adheres_refresh_shard_map: "goes crc Q k H \<Longrightarrow> adheres crc Q (refresh_shard_map crc' k) H"
  unfolding refresh_shard_map_def by (auto intro!: adheres_refresh_from)

lemma adheres_ask_masters: "goes crc Q k H \<Longrightarrow> adheres crc Q (ask_masters ca bid ms k) H"
  by (induction ms) (auto split: option.split chunk_reply.split)

lemma adheres_try_replicas: "goes crc Q k H \<Longrightarrow> adheres crc Q (try_replicas crc ca addr bid locs k) H"
proof (induction locs arbitrary: H)
  case (Cons loc locs)
  have later: "adheres crc Q (try_replicas crc ca addr bid locs k) H'" if "H \<subseteq> H'" for H'
    by (rule Cons.IH [OF goes_later [OF Cons.prems that]])
  have "adheres crc Q (verify_block crc bid dat (\<lambda>v. case v of
       Inr _ \<Rightarrow> write_block_async crc bid dat (\<lambda>w. case w of
           Inr _ \<Rightarrow> k (Inr ()) | Inl _ \<Rightarrow> try_replicas crc ca addr bid locs k)
     | Inl _ \<Rightarrow> try_replicas crc ca addr bid locs k)) H" for dat
  proof (rule adheres_verify_block)
    fix H' and v :: "string + unit" assume "H \<subseteq> H'"
    then have "goes crc Q (\<lambda>w. case w of Inr _ \<Rightarrow> k (Inr ()) | Inl _ \<Rightarrow> try_replicas crc ca addr bid locs k) H'"
      using Cons.prems later by (auto split: sum.split)
    then show "adheres crc Q (case v of
         Inr _ \<Rightarrow> write_block_async crc bid dat (\<lambda>w. case w of
             Inr _ \<Rightarrow> k (Inr ()) | Inl _ \<Rightarrow> try_replicas crc ca addr bid locs k)
       | Inl _ \<Rightarrow> try_replicas crc ca addr bid locs k) H'"
      using later [OF \<open>H \<subseteq> H'\<close>] adheres_write_block_async [where crc' = crc and bid = bid and dat = dat and H = H'] by (cases v) auto
  qed
  then show ?case using later [of H] by (simp split: option.split chunk_reply.split)
qed simp

lemma adheres_recover_block: "goes crc Q k H \<Longrightarrow> adheres crc Q (recover_block crc bid k) H"
  unfolding recover_block_def by (auto intro!: adheres_ask_masters adheres_try_replicas)

lemma adheres_initiate_replication: "goes crc Q k H \<Longrightarrow> adheres crc Q (initiate_replication bid addr k) H"
  unfolding initiate_replication_def by (auto split: option.split chunk_reply.split intro!: adheres_disk)

lemma adheres_fetch_shards: "goes crc Q k H \<Longrightarrow> adheres crc Q (fetch_shards ca bid idx srcs k) H"
  by (induction ca bid idx srcs k rule: fetch_shards.induct) auto

lemma adheres_reconstruct: "goes crc Q k H \<Longrightarrow> adheres crc Q (reconstruct_ec_shard crc' rs bid idx d m srcs k) H"
  unfolding reconstruct_ec_shard_def
  by (auto simp: Let_def split: option.split sum.split intro!: adheres_fetch_shards adheres_write_block_async)

lemma adheres_for_each:
  assumes "\<And>x p H'. H \<subseteq> H' \<Longrightarrow> (\<And>H''. H' \<subseteq> H'' \<Longrightarrow> adheres crc Q p H'') \<Longrightarrow> adheres crc Q (body x p) H'"
    "\<And>H'. H \<subseteq> H' \<Longrightarrow> adheres crc Q k H'"
  shows "adheres crc Q (for_each xs body k) H"
proof -
  have "adheres crc Q (for_each xs body k) H'" if "H \<subseteq> H'" for H'
    using that by (induction xs arbitrary: H') (auto intro!: assms)
  then show ?thesis by blast
qed

lemma adheres_scrub_entries: "goes crc Q k H \<Longrightarrow> adheres crc Q (scrub_entries crc fs k) H"
proof (induction fs arbitrary: k H)
  case (Cons f fs)
  have "goes crc Q (\<lambda>corrupted. k (f # corrupted)) H'" if "H \<subseteq> H'" for H'
    using Cons.prems that by auto
  then have later: "adheres crc Q (scrub_entries crc fs k) H' \<and>
      adheres crc Q (scrub_entries crc fs (\<lambda>corrupted. k (f # corrupted))) H'" if "H \<subseteq> H'" for H'
    using that goes_later [OF Cons.prems that] by (intro conjI Cons.IH) simp_all
  have "adheres crc Q (verify_block crc f dat (\<lambda>v. case v of
       Inr _ \<Rightarrow> scrub_entries crc fs k | Inl _ \<Rightarrow> scrub_entries crc fs (\<lambda>corrupted. k (f # corrupted)))) H'"
    if "H \<subseteq> H'" for H' dat
    using later subset_trans [OF that] by (intro adheres_verify_block) (auto split: sum.split)
  then show ?case using later by (auto split: option.split intro!: adheres_disk)
qed simp

lemma adheres_scrubber: "growing Q \<Longrightarrow> (\<And>H. Q () H) \<Longrightarrow> adheres crc Q (run_background_scrubber crc) H"
  unfolding run_background_scrubber_def
  by (auto simp del: adheres.simps(3) intro!: adheres_scrub_entries adheres_Write adheres_for_each adheres_recover_block)

lemma adheres_fence: "(\<And>st H. Q (Inl st) H) \<Longrightarrow> (\<And>H'. H \<subseteq> H' \<Longrightarrow> adheres crc Q k H') \<Longrightarrow> adheres crc Q (fence t k) H"
  unfolding fence_def by (auto simp del: adheres.simps(3) intro!: adheres_Write)

lemma adheres_store_block:
  assumes "\<And>x H. Q x H"
  shows "adheres crc Q (store_block crc what req) H"
proof -
  have "adheres crc Q (forward_block req) H'" for H'
    by (simp add: forward_block_def assms split: list.split)
  then show ?thesis
    unfolding store_block_def
    by (auto simp: assms split: sum.split intro!: adheres_fence adheres_write_block_async)
qed

lemma adheres_run_command: "(\<And>H'. H \<subseteq> H' \<Longrightarrow> adheres crc Q k H') \<Longrightarrow> adheres crc Q (run_command crc rs c k) H"
  unfolding run_command_def
  by (auto split: CommandType.split intro!: adheres_initiate_replication adheres_reconstruct adheres_move_block_to_cold)

lemma adheres_heartbeat_master:
  assumes k: "\<And>H'. H \<subseteq> H' \<Longrightarrow> adheres crc Q k H'"
  shows "adheres crc Q (heartbeat_master crc rs ca req addr k) H"
proof -
  have "adheres crc Q (for_each cs (run_command crc rs) k) H'" if "H \<subseteq> H'" for H' cs
    using k subset_trans [OF that] by (intro adheres_for_each adheres_run_command) auto
  then show ?thesis
    using k unfolding heartbeat_master_def
    by (auto simp: Let_def simp del: adheres.simps(3) split: option.split chunk_reply.split intro!: adheres_Write)
qed

lemma adheres_heartbeat_round: "(\<And>H. Q () H) \<Longrightarrow> adheres crc Q (heartbeat_round crc rs addr rack available space) H"
  unfolding heartbeat_round_def
  by (auto simp: Let_def simp del: adheres.simps(3)
    intro!: adheres_refresh_shard_map adheres_Write adheres_for_each adheres_heartbeat_master)

lemma adheres_cache_block:
  assumes "growing Q" "(bid, calculate_checksums crc dat) \<in> H" "adheres crc Q k H"
  shows "adheres crc Q (cache_block bid dat k) H"
  unfolding cache_block_def adheres.simps
proof (intro allI impI conjI)
  fix y H' s assume H: "H \<subseteq> H'" "fits crc H' s"
  let ?f = "\<lambda>s. s\<lparr>block_cache := hm_insert bid \<lparr>cb_data = dat, cb_size = length dat\<rparr>
      (filter (\<lambda>(b, _). b \<notin> set (case y of Some (Evicted bs) \<Rightarrow> bs | _ \<Rightarrow> [])) (block_cache s))\<rparr>"
  show "adheres crc Q k (H' \<union> recorded (?f s))" using adheres_mono [OF assms(1,3)] H(1) by blast
  have sub: "set (hm_insert bid c m) \<subseteq> insert (bid, c) (set m)" for c :: CachedBlock and m
    by (induction m) auto
  show "cache_ok crc (H' \<union> recorded (?f s)) (?f s)"
    unfolding cache_ok_def
  proof (clarify del: UnCI)
    fix b c assume "(b, c) \<in> set (block_cache (?f s))"
    then have "(b, c) = (bid, \<lparr>cb_data = dat, cb_size = length dat\<rparr>) \<or> (b, c) \<in> set (block_cache s)"
      using subsetD [OF sub] by fastforce
    then show "(b, calculate_checksums crc (cb_data c)) \<in> H' \<union> recorded (?f s)"
      using H assms(2) by (auto simp: fits_def cache_ok_def)
  qed
qed

text \<open>The data of a reply to a request for a whole block.\<close>

definition data_on_record :: "crc_fn \<Rightarrow> string \<Rightarrow> Status + ReadBlockResponse \<Rightarrow> checksum_log \<Rightarrow> bool" where
  "data_on_record crc bid r H = (case r of Inr resp \<Rightarrow> (bid, calculate_checksums crc (rd_data resp)) \<in> H | Inl _ \<Rightarrow> True)"

lemma data_on_record_growing: "growing (data_on_record crc bid)"
  by (auto simp: growing_def data_on_record_def split: sum.split)

lemma adheres_read_whole: "adheres crc (data_on_record crc bid) (read_whole crc bid n) H"
proof -
  have recovered: "adheres crc (data_on_record crc bid) (read_recovered crc bid n e) H'" for e H'
    unfolding read_recovered_def
    by (rule adheres_recover_block)
      (auto simp: data_on_record_def split: sum.split intro!: adheres_read_block_async adheres_verify_block)
  have "adheres crc (data_on_record crc bid) (read_verified crc bid n dat) H'" for dat H'
    unfolding read_verified_def
    by (rule adheres_verify_block)
      (auto simp: data_on_record_def split: sum.split intro!: adheres_cache_block [OF data_on_record_growing] recovered)
  then show ?thesis
    unfolding read_whole_def
    by (intro adheres_read_block_async) (auto simp: data_on_record_def split: sum.split io_error.split)
qed

lemma adheres_read_block: "adheres crc (data_on_record crc bid) (read_block crc bid 0 0) H"
proof -
  have "data_on_record crc bid (Inr \<lparr>rd_data = cb_data c, bytes_read = m, rd_total_size = n\<rparr>) H'"
    if "fits crc H' s" "hm_get (block_cache s) bid = Some c" for H' s c m n
    using that map_of_SomeD [OF that(2)] by (auto simp: data_on_record_def fits_def cache_ok_def)
  then show ?thesis
    unfolding read_block_def
    by (auto simp: Let_def data_on_record_def split: option.split intro!: adheres_read_whole)
qed

lemma adheres_any:
  assumes "\<And>x H. Q x H"
  shows "adheres crc Q (read_block crc bid offset len) H"
proof -
  have growing: "growing Q" using assms by (simp add: growing_def)
  have recovered: "adheres crc Q (read_recovered crc bid n e) H'" for e n H'
    unfolding read_recovered_def
    by (rule adheres_recover_block)
      (auto simp: assms split: sum.split intro!: adheres_read_block_async adheres_verify_block)
  have verified: "adheres crc Q (read_verified crc bid n dat) H'" for dat n H'
    unfolding read_verified_def
    by (rule adheres_verify_block)
      (auto simp: assms split: sum.split intro!: adheres_cache_block [OF growing] recovered)
  have "adheres crc Q (read_whole crc bid n) H'" for n H'
    unfolding read_whole_def
    by (intro adheres_read_block_async) (auto simp: assms verified split: sum.split io_error.split)
  moreover have "adheres crc Q (read_part crc bid offset m n) H'" for m n H'
    unfolding read_part_def
    by (intro adheres_read_block_async)
      (auto simp: assms Let_def split: sum.split io_error.split intro!: adheres_verify_partial_read adheres_recover_block)
  ultimately show ?thesis
    unfolding read_block_def by (auto simp: Let_def assms split: option.split)
qed

subsection \<open>Every reply is on record\<close>

fun job_post :: "crc_fn \<Rightarrow> chunk_job \<Rightarrow> chunk_result \<Rightarrow> checksum_log \<Rightarrow> bool" where
  "job_post crc (ReadJob bid offset len) (ReadResult r) H = (offset = 0 \<and> len = 0 \<longrightarrow> data_on_record crc bid r H)"
| "job_post crc _ _ H = True"

lemma job_post_growing: "growing (job_post crc j)"
proof -
  have "job_post crc j x H'" if "job_post crc j x H" "H \<subseteq> H'" for x H H'
    using that data_on_record_growing unfolding growing_def
    by (cases "(crc, j, x, H)" rule: job_post.cases) (simp_all, blast)
  then show ?thesis unfolding growing_def by blast
qed

lemma adheres_job: "adheres crc (job_post crc j) (job_prog crc rs j) H"
proof (cases j)
  case (ReadJob bid offset len)
  let ?Q = "\<lambda>x. job_post crc (ReadJob bid offset len) (ReadResult x)"
  have "adheres crc ?Q (read_block crc bid offset len) H"
  proof (cases "offset = 0 \<and> len = 0")
    case True
    then have "?Q = data_on_record crc bid" by (simp add: fun_eq_iff)
    then show ?thesis using True adheres_read_block [of crc bid H] by simp
  qed (auto intro: adheres_any)
  then show ?thesis using ReadJob by simp
next
  case (WriteJob req)
  then show ?thesis by (simp add: write_block_def adheres_store_block)
next
  case (ReplicateJob req)
  then show ?thesis by (simp add: replicate_block_def adheres_store_block)
next
  case ScrubJob
  then show ?thesis by (simp add: adheres_scrubber growing_def)
next
  case (HeartbeatJob addr rack available space)
  then show ?thesis by (simp add: adheres_heartbeat_round)
next
  case (CommandJob c)
  then show ?thesis by (simp add: adheres_run_command)
next
  case (RecoverJob bid)
  then show ?thesis by (simp add: adheres_recover_block)
qed

definition running_ok :: "crc_fn \<Rightarrow> running \<Rightarrow> bool" where
  "running_ok crc r \<longleftrightarrow> fits crc (on_record r) (server r) \<and>
     (\<forall>(j, p) \<in> set (tasks r). adheres crc (job_post crc j) p (on_record r))"

lemma running_ok_goes_on:
  assumes "cache_ok crc (on_record r \<union> recorded s) s"
    "\<And>j p. (j, p) \<in> set ts \<Longrightarrow> adheres crc (job_post crc j) p (on_record r \<union> recorded s)"
  shows "running_ok crc (goes_on r s ts)"
  using assms by (auto simp: running_ok_def goes_on_def fits_def)

lemma task_adheres:
  assumes "running_ok crc r" "(j, p) \<in> set ((tasks r)[i := (j', p')])" "on_record r \<subseteq> H"
    "adheres crc (job_post crc j') p' H"
  shows "adheres crc (job_post crc j) p H"
proof -
  have "(j, p) = (j', p') \<or> (j, p) \<in> set (tasks r)"
    using set_update_subset_insert [of "tasks r" i "(j', p')"] assms(2) by blast
  then show ?thesis
    using assms adheres_mono [OF job_post_growing] by (auto simp: running_ok_def)
qed

lemma running_ok_same_cache:
  assumes "running_ok crc r" "block_cache s = block_cache (server r)"
    "\<And>j p. (j, p) \<in> set ts \<Longrightarrow> adheres crc (job_post crc j) p (on_record r)"
  shows "running_ok crc (goes_on r s ts)"
proof (rule running_ok_goes_on)
  show "cache_ok crc (on_record r \<union> recorded s) s"
    using assms(1,2) by (auto simp: running_ok_def fits_def cache_ok_def)
  show "adheres crc (job_post crc j) p (on_record r \<union> recorded s)" if "(j, p) \<in> set ts" for j p
    by (rule adheres_mono [OF job_post_growing assms(3) [OF that] Un_upper1])
qed

lemma task_adheres_now: "running_ok crc r \<Longrightarrow> (j, p) \<in> set (tasks r) \<Longrightarrow> adheres crc (job_post crc j) p (on_record r)"
  by (auto simp: running_ok_def)

lemma chunk_step_ok:
  assumes "chunk_step crc rs r r'" "running_ok crc r"
  shows "running_ok crc r'"
  using assms(1)
proof cases
  case (start j)
  show ?thesis
    unfolding start
    by (rule running_ok_same_cache [OF assms(2) refl]) (auto intro: task_adheres_now [OF assms(2)] adheres_job)
next
  case (reads i j k)
  then have "adheres crc (job_post crc j) (Read k) (on_record r)"
    by (metis task_adheres_now [OF assms(2)] nth_mem)
  then have k: "adheres crc (job_post crc j) (k (server r)) (on_record r)"
    using assms(2) by (simp add: running_ok_def)
  show ?thesis
    unfolding reads(1)
    by (rule running_ok_same_cache [OF assms(2) refl]) (rule task_adheres [OF assms(2) _ subset_refl k])
next
  case (writes i j f k)
  then have "adheres crc (job_post crc j) (Write f k) (on_record r)"
    by (metis task_adheres_now [OF assms(2)] nth_mem)
  then have k: "cache_ok crc (on_record r \<union> recorded (f (server r))) (f (server r))"
      "adheres crc (job_post crc j) (k (server r)) (on_record r \<union> recorded (f (server r)))"
    using assms(2) by (simp_all add: running_ok_def)
  show ?thesis
    unfolding writes(1) by (rule running_ok_goes_on [OF k(1)]) (rule task_adheres [OF assms(2) _ Un_upper1 k(2)])
next
  case (answered i j addr q k y)
  then have "adheres crc (job_post crc j) (Call addr q k) (on_record r)"
    by (metis task_adheres_now [OF assms(2)] nth_mem)
  then have k: "adheres crc (job_post crc j) (k y) (on_record r)" by simp
  show ?thesis
    unfolding answered(1)
    by (rule running_ok_same_cache [OF assms(2) refl]) (rule task_adheres [OF assms(2) _ subset_refl k])
next
  case (damaged f p x)
  have "block_cache (damage p f x (server r)) = block_cache (server r)" by (simp add: damage_def split: place.split)
  then show ?thesis
    unfolding damaged(1) by (rule running_ok_same_cache [OF assms(2)]) (rule task_adheres_now [OF assms(2)])
next
  case (restarted m)
  show ?thesis
    unfolding restarted by (rule running_ok_goes_on) (simp_all add: cache_ok_def MyChunkServer_new_def)
qed

text \<open>C36. A chunk server never answers a request for a whole block with bytes that contradict its checksums: however its
  reads, writes, replications, scrubs and heartbeats with their commands interleave, whatever other servers answer,
  with failing file operations, damaged data files and restarts, the data of such an answer has a list of chunk
  checksums that has been on record for this block.\<close>

theorem whole_block_reads_verified:
  assumes "(chunk_step crc rs)\<^sup>*\<^sup>* (booted s) r" "(ReadJob bid 0 0, Ret (ReadResult (Inr resp))) \<in> set (tasks r)"
  shows "(bid, calculate_checksums crc (rd_data resp)) \<in> on_record r"
proof -
  have "recorded (s\<lparr>block_cache := []\<rparr>) = recorded s"
    by (simp add: recorded_def meta_of_def file_at_def cong: option.case_cong)
  then have "running_ok crc (booted s)" by (simp add: running_ok_def booted_def fits_def cache_ok_def)
  with assms(1) have "running_ok crc r" by induction (auto intro: chunk_step_ok)
  then have "adheres crc (job_post crc (ReadJob bid 0 0)) (Ret (ReadResult (Inr resp))) (on_record r)"
    using assms(2) unfolding running_ok_def by blast
  then show ?thesis by (simp add: data_on_record_def)
qed

text \<open>A schedule: one task, and the answers to its questions.\<close>

definition advance :: "chunk_reply option \<Rightarrow> running \<Rightarrow> running option" where
  "advance y r = (case tasks r of
     (j, Read k) # ts \<Rightarrow> Some (goes_on r (server r) ((j, k (server r)) # ts))
   | (j, Write f k) # ts \<Rightarrow> Some (goes_on r (f (server r)) ((j, k (server r)) # ts))
   | (j, Call addr q k) # ts \<Rightarrow> Some (goes_on r (server r) ((j, k y) # ts))
   | _ \<Rightarrow> None)"

fun advances :: "chunk_reply option list \<Rightarrow> running \<Rightarrow> running option" where
  "advances [] r = Some r"
| "advances (y # ys) r = (case advance y r of Some r' \<Rightarrow> advances ys r' | None \<Rightarrow> None)"

lemma advance_step: "advance y r = Some r' \<Longrightarrow> chunk_step crc rs r r'"
  using chunk_step.reads [of 0 r] chunk_step.writes [of 0 r] chunk_step.answered [of 0 r]
  by (fastforce simp: advance_def split: list.splits prod.splits prog.splits)

lemma advances_reach: "advances ys r = Some r' \<Longrightarrow> (chunk_step crc rs)\<^sup>*\<^sup>* r r'"
proof (induction ys r rule: advances.induct)
  case (2 y ys r)
  then obtain r1 where r1: "advance y r = Some r1" by (cases "advance y r") simp_all
  with 2 have "(chunk_step crc rs)\<^sup>*\<^sup>* r1 r'" by simp
  with advance_step [OF r1] show ?case by (rule converse_rtranclp_into_rtranclp)
qed simp

definition example_crc :: crc_fn where
  "example_crc d = length d mod 2 ^ 32"

definition example_chunk_server :: MyChunkServer where
  "example_chunk_server = MyChunkServer_new [(''b'', ''hi''), (''b.meta'', meta_bytes example_crc ''hi'')] None [] None (ShardMap.new 100) []"

lemma example_crc_less: "example_crc d < 2 ^ 32"
  by (simp add: example_crc_def)

theorem whole_block_reads_verified_witness:
  "\<exists>r resp. (chunk_step example_crc parity_code)\<^sup>*\<^sup>* (booted example_chunk_server) r \<and>
     (ReadJob ''b'' 0 0, Ret (ReadResult (Inr resp))) \<in> set (tasks r) \<and> rd_data resp = ''hi'' \<and>
     (''b'', [2]) \<in> on_record r"
proof -
  let ?r0 = "goes_on (booted example_chunk_server) (server (booted example_chunk_server))
    [(ReadJob ''b'' 0 0, job_prog example_crc parity_code (ReadJob ''b'' 0 0))]"
  let ?resp = "\<lparr>rd_data = ''hi'', bytes_read = 2, rd_total_size = 2\<rparr>"
  have "chunk_step example_crc parity_code (booted example_chunk_server) ?r0"
    using chunk_step.start [of example_crc parity_code "booted example_chunk_server" "ReadJob ''b'' 0 0"] by (simp add: booted_def)
  moreover obtain r where r: "advances [None, None, None, Some DiskDone, None, None, Some DiskDone, None, None] ?r0 = Some r"
      "tasks r = [(ReadJob ''b'' 0 0, Ret (ReadResult (Inr ?resp)))]"
    by (simp add: advance_def goes_on_def booted_def example_chunk_server_def MyChunkServer_new_def read_block_def file_at_def
      block_path_def read_whole_def read_block_async_def disk_def read_verified_def verify_block_def meta_of_def
      meta_name_def cache_block_def check_fresh_checksums [OF example_crc_less])
  ultimately have reach: "(chunk_step example_crc parity_code)\<^sup>*\<^sup>* (booted example_chunk_server) r"
    using advances_reach converse_rtranclp_into_rtranclp by metis
  then have "(''b'', calculate_checksums example_crc (rd_data ?resp)) \<in> on_record r"
    by (rule whole_block_reads_verified) (simp add: r)
  moreover have "calculate_checksums example_crc ''hi'' = [2]"
    by (simp add: calculate_checksums_def CHECKSUM_CHUNK_SIZE_def chunks.simps example_crc_def)
  ultimately show ?thesis using reach r(2) by (intro exI [of _ r] exI [of _ ?resp]) simp
qed

subsection \<open>Recovery without an address of its own\<close>

lemma try_replicas_without_address: "try_replicas crc ca [] bid locs k = k (Inl ''Failed to recover block from any replica'')"
  by (induction locs) simp_all

lemma ask_masters_run: "run (ask_masters ca bid ms k) tr x \<Longrightarrow> \<exists>tr1 tr2 locs. tr = tr1 @ tr2 \<and> run (k locs) tr2 x \<and>
    (\<forall>a \<in> set tr1. \<exists>addr y. a = DidCall addr (GetBlockLocations bid) y)"
proof (induction ms arbitrary: tr)
  case Nil
  then show ?case by (intro exI [of _ "[]"] exI [of _ tr] exI [of _ "[]"]) simp
next
  case (Cons m ms)
  obtain y tr' where tr: "tr = DidCall (connect_endpoint ca m) (GetBlockLocations bid) y # tr'"
    and r: "(\<exists>locs. run (k locs) tr' x) \<or> run (ask_masters ca bid ms k) tr' x"
  proof -
    from Cons.prems obtain y tr' where y: "tr = DidCall (connect_endpoint ca m) (GetBlockLocations bid) y # tr'"
      and "run (case y of Some (LocationsReply (Some locs)) \<Rightarrow> k locs | _ \<Rightarrow> ask_masters ca bid ms k) tr' x" by auto
    then have "(\<exists>locs. run (k locs) tr' x) \<or> run (ask_masters ca bid ms k) tr' x"
      by (cases y; cases "the y"; cases "case the y of LocationsReply l \<Rightarrow> l | _ \<Rightarrow> None") auto
    with y that show thesis by blast
  qed
  from r show ?case
  proof
    assume "run (ask_masters ca bid ms k) tr' x"
    from Cons.IH [OF this] obtain tr1 tr2 locs where "tr' = tr1 @ tr2" "run (k locs) tr2 x"
        "\<forall>a \<in> set tr1. \<exists>addr y. a = DidCall addr (GetBlockLocations bid) y" by blast
    then show ?thesis unfolding tr by (intro exI [of _ "_ # tr1"] exI [of _ tr2] exI [of _ locs]) auto
  next
    assume "\<exists>locs. run (k locs) tr' x"
    then obtain locs where "run (k locs) tr' x" ..
    then show ?thesis unfolding tr by (intro exI [of _ "[_]"] exI [of _ tr'] exI [of _ locs]) auto
  qed
qed

text \<open>C39. A chunk server that is started without the environment variable \<open>CHUNK_SERVER_ADDR\<close> never repairs a block: the
  variable defaults to the empty string, which every address contains, so the recovery takes every replica for itself.
  It asks the masters for the locations, contacts no replica, changes nothing and fails.\<close>

theorem recovery_without_address_fails:
  assumes "run (recover_block crc bid Ret) (DidRead s # tr) x" "env_addr s = []"
  shows "(\<exists>e. x = Inl e) \<and> (\<forall>a \<in> set tr. \<exists>addr y. a = DidCall addr (GetBlockLocations bid) y)"
proof -
  define k :: "string list \<Rightarrow> (string + unit) chunk_task" where
    "k = (\<lambda>locs. Ret (Inl (if locs = [] then ''No replica locations found for block''
      else ''Failed to recover block from any replica'')))"
  have "run (ask_masters (cs_ca_cert s) bid (get_all_masters (cs_shard_map s)) k) tr x"
    using assms by (simp add: recover_block_def try_replicas_without_address k_def if_distrib cong: if_cong)
  from ask_masters_run [OF this] obtain tr1 tr2 locs where "tr = tr1 @ tr2" "run (k locs) tr2 x"
      "\<forall>a \<in> set tr1. \<exists>addr y. a = DidCall addr (GetBlockLocations bid) y" by blast
  then show ?thesis by (simp add: k_def)
qed

definition lonely_server :: MyChunkServer where
  "lonely_server = example_chunk_server\<lparr>cs_shard_map := add_shard example_crc ''s'' [''m''] new_range\<rparr>"

theorem recovery_without_address_fails_witness:
  "\<exists>tr. run (recover_block example_crc ''b'' Ret) (DidRead lonely_server # tr) (Inl ''Failed to recover block from any replica'') \<and>
     tr = [DidCall ''http://m'' (GetBlockLocations ''b'') (Some (LocationsReply (Some [''other:1''])))] \<and> env_addr lonely_server = []"
proof -
  have masters: "get_all_masters (cs_shard_map lonely_server) = [''m'']"
    by (simp add: lonely_server_def get_all_masters_def add_shard_def new_range_def hm_values_def Let_def)
  let ?tr = "[DidCall ''http://m'' (GetBlockLocations ''b'') (Some (LocationsReply (Some [''other:1''])))]"
  have e: "env_addr lonely_server = []" "cs_ca_cert lonely_server = None"
    by (simp_all add: lonely_server_def example_chunk_server_def MyChunkServer_new_def)
  have r: "run (recover_block example_crc ''b'' Ret) (DidRead lonely_server # ?tr) (Inl ''Failed to recover block from any replica'')"
    by (simp add: recover_block_def masters e try_replicas_without_address connect_endpoint_def sublist_code)
  from recovery_without_address_fails [OF r e(1)] r e(1) show ?thesis by blast
qed

end
