(* ===== verification/Pipeline.thy ===== *)
theory Pipeline
  imports ChunkIntegrity
begin

section \<open>Replication of a block\<close>

text \<open>
  A write is stored at the first chunk server and passed on along the others. \<open>pipeline\<close> relates the chunk servers of a
  system, by the address they are reached at, before and after one of them runs a program: file operations can fail, and
  requests to the next server and its responses can be lost.
\<close>

type_synonym chunk_net = "string \<Rightarrow> MyChunkServer"

inductive pipeline :: "crc_fn \<Rightarrow> chunk_net \<Rightarrow> string \<Rightarrow> WriteBlockResponse chunk_handler \<Rightarrow> chunk_net \<Rightarrow>
    Status + WriteBlockResponse \<Rightarrow> bool" for crc where
  returned: "pipeline crc N u (Ret x) N x"
| read_own: "pipeline crc N u (k (N u)) N' x \<Longrightarrow> pipeline crc N u (Read k) N' x"
| write_own: "pipeline crc (N(u := f (N u))) u (k (N u)) N' x \<Longrightarrow> pipeline crc N u (Write f k) N' x"
| local_answer: "pipeline crc N u (k y) N' x \<Longrightarrow> pipeline crc N u (Call [] Disk k) N' x"
| request_lost: "pipeline crc N u (k None) N' x \<Longrightarrow> pipeline crc N u (Call addr q k) N' x"
| forwarded: "pipeline crc N addr (replicate_block crc req) N1 (Inr resp) \<Longrightarrow>
    pipeline crc N1 u (k (Some (ReplicateReply resp))) N' x \<Longrightarrow> pipeline crc N u (Call addr (ReplicateBlock req) k) N' x"
| response_lost: "pipeline crc N addr (replicate_block crc req) N1 y \<Longrightarrow>
    pipeline crc N1 u (k None) N' x \<Longrightarrow> pipeline crc N u (Call addr (ReplicateBlock req) k) N' x"

inductive_simps pipeline_simps [simp]:
  "pipeline crc N u (Ret y) N' x" "pipeline crc N u (Read k) N' x" "pipeline crc N u (Write f k) N' x"
  "pipeline crc N u (Call [] Disk k) N' x" "pipeline crc N u (Call addr (ReplicateBlock req) k) N' x"

text \<open>A server holds the block: its data and the checksums of the data.\<close>

definition holds :: "crc_fn \<Rightarrow> string \<Rightarrow> string \<Rightarrow> MyChunkServer \<Rightarrow> bool" where
  "holds crc bid dat s \<longleftrightarrow> file_at s Hot bid = Some dat \<and> file_at s Hot (meta_name bid) = Some (meta_bytes crc dat)"

lemma meta_name_neq [simp]: "meta_name bid \<noteq> bid" "bid \<noteq> meta_name bid"
  by (simp_all add: meta_name_def)

lemma file_at_put_file [simp]: "file_at (put_file f x s) Hot g = (if g = f then Some x else file_at s Hot g)"
  by (simp add: file_at_def put_file_def)

lemma ca_put_file [simp]: "cs_ca_cert (put_file f x s) = cs_ca_cert s"
  by (simp add: put_file_def)

text \<open>What one server does to itself: nothing else changes, and its certificate stays.\<close>

definition local_change :: "string \<Rightarrow> chunk_net \<Rightarrow> chunk_net \<Rightarrow> bool" where
  "local_change u N N' \<longleftrightarrow> (\<forall>y. y \<noteq> u \<longrightarrow> N' y = N y) \<and> cs_ca_cert (N' u) = cs_ca_cert (N u)"

lemma local_change_refl [simp]: "local_change u N N"
  by (simp add: local_change_def)

lemma pipeline_write_file:
  assumes "pipeline crc N u (write_file f c ok err) N' x"
  obtains "pipeline crc (N(u := put_file f c (N u))) u ok N' x"
  | N1 where "N1 = N \<or> (\<exists>n. N1 = N(u := put_file f (take n c) (N u)))" "pipeline crc N1 u err N' x"
proof -
  from assms obtain y where "pipeline crc N u (case y of
       Some DiskDone \<Rightarrow> Write (put_file f c) (\<lambda>_. ok)
     | Some (DiskPartial n) \<Rightarrow> Write (put_file f (take n c)) (\<lambda>_. err)
     | _ \<Rightarrow> err) N' x"
    unfolding write_file_def pipeline_simps(4) by blast
  then show ?thesis
    using that by (cases y; cases "the y") auto
qed

lemma pipeline_write_block_async:
  assumes "pipeline crc N u (write_block_async crc bid dat k) N' x"
  obtains N1 where "local_change u N N1" "pipeline crc N1 u (k (Inr ())) N' x" "holds crc bid dat (N1 u)"
  | N1 e where "local_change u N N1" "pipeline crc N1 u (k (Inl e)) N' x"
  using assms unfolding write_block_async_def
proof (rule pipeline_write_file)
  assume "pipeline crc (N(u := put_file bid dat (N u))) u
    (write_file (meta_name bid) (meta_bytes crc dat) (k (Inr ())) (k (Inl (OtherError ''write'')))) N' x"
  then show thesis
    apply (rule pipeline_write_file)
     apply (rule that(1) [rotated], assumption)
      apply (simp_all add: local_change_def holds_def)[2]
    apply (rule that(2) [rotated], assumption)
    apply (auto simp: local_change_def)
    done
next
  fix N1 assume N1: "N1 = N \<or> (\<exists>n. N1 = N(u := put_file bid (take n dat) (N u)))"
    "pipeline crc N1 u (k (Inl (OtherError ''write''))) N' x"
  from N1(1) have "local_change u N N1" by (auto simp: local_change_def)
  then show thesis using N1(2) by (rule that(2))
qed

text \<open>The guard against earlier terms: the request is refused, or goes on in an unchanged network but for the term.\<close>

lemma pipeline_fence:
  assumes "pipeline crc N u (fence t k) N' x"
  obtains st where "x = Inl st" "N' = N" | N1 where "local_change u N N1" "pipeline crc N1 u k N' x"
proof -
  consider "0 < t \<and> t < known_term (N u)" | "\<not> (0 < t \<and> t < known_term (N u))" "known_term (N u) < t"
    | "\<not> (0 < t \<and> t < known_term (N u))" "\<not> known_term (N u) < t" by blast
  then show thesis
  proof cases
    case 1
    then show thesis using assms that(1) by (simp add: fence_def)
  next
    case 2
    then have "pipeline crc (N(u := (N u)\<lparr>known_term := t\<rparr>)) u k N' x" using assms by (simp add: fence_def)
    moreover have "local_change u N (N(u := (N u)\<lparr>known_term := t\<rparr>))" by (simp add: local_change_def)
    ultimately show thesis using that(2) by blast
  next
    case 3
    then have "pipeline crc N u k N' x" using assms by (auto simp: fence_def)
    then show thesis using that(2) local_change_refl by blast
  qed
qed

definition urls :: "string option \<Rightarrow> string \<Rightarrow> string list \<Rightarrow> string list" where
  "urls ca u servers = u # map (connect_endpoint ca) servers"

text \<open>Storing: it fails, or the block is held and passed on.\<close>

lemma pipeline_store_block:
  assumes "pipeline crc N u (store_block crc what req) N' x"
  obtains "local_change u N N'" "\<And>resp. x = Inr resp \<Longrightarrow> \<not> w_success resp"
  | N1 where "local_change u N N1" "holds crc (w_block_id req) (w_data req) (N1 u)" "pipeline crc N1 u (forward_block req) N' x"
  using assms unfolding store_block_def
proof (rule pipeline_fence)
  fix st assume "x = Inl st" "N' = N"
  then show thesis by (intro that(1)) simp_all
next
  fix N1
  let ?bad = "w_checksum req \<noteq> 0 \<and> crc (w_data req) \<noteq> w_checksum req"
  let ?k = "\<lambda>w. case w of Inl _ \<Rightarrow> Ret (Inr (write_failed ''write'')) | Inr _ \<Rightarrow> forward_block req"
  assume N1: "local_change u N N1" "pipeline crc N1 u (if ?bad
      then Ret (Inr (write_failed (what @ ''hecksum mismatch: expected '' @ string_of_nat (w_checksum req) @
             '', actual '' @ string_of_nat (crc (w_data req)))))
      else write_block_async crc (w_block_id req) (w_data req) ?k) N' x"
  show thesis
  proof (cases ?bad)
    case True
    have "N' = N1 \<and> (\<exists>msg. x = Inr (write_failed msg))" using N1(2) [unfolded if_P [OF True]] pipeline_simps(1) by blast
    then show thesis using N1(1) by (intro that(1)) (auto simp: write_failed_def)
  next
    case False
    have "pipeline crc N1 u (write_block_async crc (w_block_id req) (w_data req) ?k) N' x" using N1(2) [unfolded if_not_P [OF False]] by assumption
    then show thesis
    proof (rule pipeline_write_block_async)
      fix N2 assume N2: "local_change u N1 N2" "pipeline crc N2 u (?k (Inr ())) N' x"
        "holds crc (w_block_id req) (w_data req) (N2 u)"
      show thesis using N1(1) N2 by (intro that(2) [of N2]) (auto simp: local_change_def)
    next
      fix N2 e assume "local_change u N1 N2" "pipeline crc N2 u (?k (Inl e)) N' x"
      then show thesis using N1(1) by (intro that(1)) (auto simp: local_change_def write_failed_def)
    qed
  qed
qed

lemma pipeline_forward:
  assumes "pipeline crc N u (forward_block req) N' x" "w_next_servers req = n # rest"
  obtains "N' = N" "x = Inr \<lparr>w_success = True, w_error = [], replicas_written = 1\<rparr>"
  | req' y where "req' = \<lparr>w_block_id = w_block_id req, w_data = w_data req, w_next_servers = rest,
        w_checksum = w_checksum req, w_term = w_term req\<rparr>"
      "pipeline crc N (connect_endpoint (cs_ca_cert (N u)) n) (replicate_block crc req') N' y"
      "x = Inr \<lparr>w_success = True, w_error = [], replicas_written = 1\<rparr> \<or>
       (\<exists>resp. y = Inr resp \<and> w_success resp \<and>
          x = Inr \<lparr>w_success = True, w_error = [], replicas_written = i32_add 1 (replicas_written resp)\<rparr>)"
  using assms by (auto simp: forward_block_def)

text \<open>A request along servers whose addresses differ changes only these servers, and when it reports success as many of
  them hold the block as it counts.\<close>

lemma i32_add_small: "0 \<le> a + b \<Longrightarrow> a + b < 2 ^ 31 \<Longrightarrow> i32_add a b = a + b"
  by (simp add: i32_add_def)

definition counted :: "crc_fn \<Rightarrow> string list \<Rightarrow> string \<Rightarrow> string \<Rightarrow> chunk_net \<Rightarrow> Status + WriteBlockResponse \<Rightarrow> bool" where
  "counted crc us bid dat N x \<longleftrightarrow> (\<forall>resp. x = Inr resp \<longrightarrow> w_success resp \<longrightarrow>
     (\<exists>S \<subseteq> set us. replicas_written resp = int (card S) \<and> hd us \<in> S \<and> (\<forall>v \<in> S. holds crc bid dat (N v))))"

lemma counted_one: "holds crc bid dat (N u) \<Longrightarrow>
    counted crc (u # us) bid dat N (Inr \<lparr>w_success = True, w_error = e, replicas_written = 1\<rparr>)"
  unfolding counted_def by (intro allI impI exI [of _ "{u}"]) auto

lemma counted_more:
  assumes "counted crc us bid dat N (Inr resp)" "w_success resp" "holds crc bid dat (N u)" "distinct (u # us)"
    "length us < 2 ^ 31 - 1"
  shows "counted crc (u # us) bid dat N
    (Inr \<lparr>w_success = True, w_error = e, replicas_written = i32_add 1 (replicas_written resp)\<rparr>)"
proof -
  from assms(1,2) obtain S where S: "S \<subseteq> set us" "replicas_written resp = int (card S)" "\<forall>v \<in> S. holds crc bid dat (N v)"
    unfolding counted_def by blast
  have fin: "finite S" "u \<notin> S" using S(1) assms(4) finite_subset by auto
  have "card S \<le> length us" using card_mono [OF _ S(1)] card_length [of us] by simp
  then have "i32_add 1 (replicas_written resp) = int (card (insert u S))"
    using S(2) assms(5) fin by (simp add: i32_add_small)
  then show ?thesis
    unfolding counted_def using S assms(3) by (intro allI impI exI [of _ "insert u S"]) auto
qed

lemma pipeline_counts:
  fixes req :: ReplicateBlockRequest
  assumes "pipeline crc N u (store_block crc what req) N' x"
    "distinct (urls ca u (w_next_servers req))" "\<forall>v \<in> set (urls ca u (w_next_servers req)). cs_ca_cert (N v) = ca"
    "length (w_next_servers req) < 2 ^ 31 - 1"
  shows "(\<forall>v. v \<notin> set (urls ca u (w_next_servers req)) \<longrightarrow> N' v = N v) \<and>
    counted crc (urls ca u (w_next_servers req)) (w_block_id req) (w_data req) N' x"
  using assms
proof (induction "w_next_servers req" arbitrary: N u what req N' x)
  case Nil
  from Nil(2) show ?case
    by (rule pipeline_store_block)
      (use Nil(1) in \<open>auto simp: counted_def local_change_def urls_def forward_block_def intro!: exI [of _ "{u}"]\<close>)
next
  case (Cons n rest)
  let ?us = "urls ca u (w_next_servers req)"
  have us: "?us = u # urls ca (connect_endpoint ca n) rest" using Cons(2) by (simp add: urls_def flip: Cons(2))
  from Cons(3) show ?case
  proof (rule pipeline_store_block)
    assume "local_change u N N'" "\<And>resp. x = Inr resp \<Longrightarrow> \<not> w_success resp"
    then show ?thesis by (auto simp: counted_def local_change_def us)
  next
    fix N1 assume N1: "local_change u N N1" "holds crc (w_block_id req) (w_data req) (N1 u)"
      "pipeline crc N1 u (forward_block req) N' x"
    have ca: "\<forall>v \<in> set ?us. cs_ca_cert (N1 v) = ca"
      using N1(1) Cons(5) unfolding local_change_def by metis
    from N1(3) Cons(2)[symmetric] show ?thesis
    proof (rule pipeline_forward)
      assume "N' = N1" "x = Inr \<lparr>w_success = True, w_error = [], replicas_written = 1\<rparr>"
      then show ?thesis using N1 by (auto simp: local_change_def us counted_one)
    next
      fix req' :: ReplicateBlockRequest and y
      assume r: "req' = \<lparr>w_block_id = w_block_id req, w_data = w_data req, w_next_servers = rest,
          w_checksum = w_checksum req, w_term = w_term req\<rparr>"
        and y: "pipeline crc N1 (connect_endpoint (cs_ca_cert (N1 u)) n) (replicate_block crc req') N' y"
        and x: "x = Inr \<lparr>w_success = True, w_error = [], replicas_written = 1\<rparr> \<or>
          (\<exists>resp. y = Inr resp \<and> w_success resp \<and>
             x = Inr \<lparr>w_success = True, w_error = [], replicas_written = i32_add 1 (replicas_written resp)\<rparr>)"
      have "cs_ca_cert (N1 u) = ca" using ca us by simp
      then have y': "pipeline crc N1 (connect_endpoint ca n) (store_block crc ''Replication c'' req') N' y"
        using y by (simp add: replicate_block_def)
      have rest: "w_next_servers req' = rest" by (simp add: r)
      have "distinct (urls ca (connect_endpoint ca n) rest)" "length rest < 2 ^ 31 - 1"
          "\<forall>v \<in> set (urls ca (connect_endpoint ca n) rest). cs_ca_cert (N1 v) = ca"
        using Cons(4,6) ca us Cons(2) [symmetric] by simp_all
      note down = Cons(1) [of req', unfolded rest, OF refl y' this(1,3,2)]
      have IH: "\<forall>v. v \<notin> set (urls ca (connect_endpoint ca n) rest) \<longrightarrow> N' v = N1 v"
          "counted crc (urls ca (connect_endpoint ca n) rest) (w_block_id req) (w_data req) N' y"
        using down by (simp_all add: r)
      have u: "N' u = N1 u" using IH(1) Cons(4) us by auto
      have "counted crc ?us (w_block_id req) (w_data req) N' x"
        using x
      proof
        assume "x = Inr \<lparr>w_success = True, w_error = [], replicas_written = 1\<rparr>"
        then show ?thesis using N1(2) by (simp add: us counted_one u)
      next
        assume "\<exists>resp. y = Inr resp \<and> w_success resp \<and>
          x = Inr \<lparr>w_success = True, w_error = [], replicas_written = i32_add 1 (replicas_written resp)\<rparr>"
        then obtain resp where "y = Inr resp" "w_success resp"
          "x = Inr \<lparr>w_success = True, w_error = [], replicas_written = i32_add 1 (replicas_written resp)\<rparr>" by blast
        moreover have "distinct (u # urls ca (connect_endpoint ca n) rest)" using Cons(4) us by simp
        moreover have "length (urls ca (connect_endpoint ca n) rest) < 2 ^ 31 - 1"
          using Cons(6) Cons(2) [symmetric] by (simp add: urls_def)
        ultimately show ?thesis using counted_more [of crc _ _ _ N' resp u] IH(2) N1(2) unfolding us by (simp add: u)
      qed
      moreover have "N' v = N v" if "v \<notin> set ?us" for v
        using that IH(1) N1(1) by (simp add: us local_change_def)
      ultimately show ?thesis by blast
    qed
  qed
qed

lemma store_block_truncate: "store_block crc what req = store_block crc what (ReplicateBlockRequest.truncate req)"
  by (simp add: store_block_def forward_block_def ReplicateBlockRequest.truncate_def cong: list.case_cong)

text \<open>C37. The count of a write is honest: when a write along distinct chunk servers reports success with \<open>n\<close> replicas,
  exactly \<open>n\<close> of these servers were counted, the first among them, and each of them holds the data of the block and
  its checksums; servers outside the pipeline are as before. Responses can be lost and writes can fail on the way.\<close>

theorem write_counts_replicas:
  assumes "pipeline crc N u (write_block crc req) N' (Inr resp)" "w_success resp"
    "distinct (urls ca u (w_next_servers req))" "\<forall>v \<in> set (urls ca u (w_next_servers req)). cs_ca_cert (N v) = ca"
    "length (w_next_servers req) < 2 ^ 31 - 1"
  shows "(\<exists>S \<subseteq> set (urls ca u (w_next_servers req)). replicas_written resp = int (card S) \<and> u \<in> S \<and>
      (\<forall>v \<in> S. holds crc (w_block_id req) (w_data req) (N' v))) \<and>
    (\<forall>v. v \<notin> set (urls ca u (w_next_servers req)) \<longrightarrow> N' v = N v)"
proof -
  let ?req = "ReplicateBlockRequest.truncate req"
  have fields: "w_next_servers ?req = w_next_servers req" "w_block_id ?req = w_block_id req" "w_data ?req = w_data req"
    by (simp_all add: ReplicateBlockRequest.truncate_def)
  have "pipeline crc N u (store_block crc ''C'' ?req) N' (Inr resp)"
    using assms(1) unfolding write_block_def by (subst (asm) store_block_truncate)
  from pipeline_counts [OF this, unfolded fields, OF assms(3-5)] show ?thesis
    using assms(2) by (auto simp: counted_def urls_def)
qed

lemma pipeline_written:
  "pipeline crc (N(u := put_file (meta_name bid) (meta_bytes crc dat) (put_file bid dat (N u)))) u (k (Inr ())) N' x \<Longrightarrow>
     pipeline crc N u (write_block_async crc bid dat k) N' x"
  unfolding write_block_async_def write_file_def
  by (intro pipeline.local_answer [where y = "Some DiskDone"] pipeline.write_own option.case chunk_reply.case
      | simp only: option.case chunk_reply.case)+ simp

definition example_write :: WriteBlockRequest where
  "example_write = \<lparr>w_block_id = ''b'', w_data = ''hi'', w_next_servers = [''c:2''], w_checksum = 2, w_term = 0, w_shard_index = -1\<rparr>"

theorem write_counts_replicas_witness:
  "\<exists>N' S. pipeline example_crc (\<lambda>_. example_chunk_server) ''http://c:1'' (write_block example_crc example_write) N'
     (Inr \<lparr>w_success = True, w_error = [], replicas_written = 2\<rparr>) \<and>
   S \<subseteq> {''http://c:1'', ''http://c:2''} \<and> card S = 2 \<and> (\<forall>v \<in> S. holds example_crc ''b'' ''hi'' (N' v))"
proof -
  let ?N = "\<lambda>_. example_chunk_server" and ?u = "''http://c:1''" and ?v = "''http://c:2''"
  let ?w = "\<lambda>s. put_file (meta_name ''b'') (meta_bytes example_crc ''hi'') (put_file ''b'' ''hi'' s)"
  have server: "known_term example_chunk_server = 0" "cs_ca_cert example_chunk_server = None"
    by (simp_all add: example_chunk_server_def MyChunkServer_new_def)
  have crc: "example_crc ''hi'' = 2" by (simp add: example_crc_def)
  have url: "connect_endpoint None ''c:2'' = ?v" by (simp add: connect_endpoint_def sublist_code)
  let ?N1 = "?N(?u := ?w example_chunk_server)"
  let ?N2 = "?N1(?v := ?w example_chunk_server)"
  let ?one = "\<lparr>w_success = True, w_error = [], replicas_written = 1\<rparr>"
  let ?two = "\<lparr>w_success = True, w_error = [], replicas_written = 2\<rparr>"
  let ?req = "\<lparr>w_block_id = ''b'', w_data = ''hi'', w_next_servers = [], w_checksum = 2, w_term = 0\<rparr>"
  have store: "pipeline example_crc N w (store_block example_crc what req) N' x"
    if "pipeline example_crc (N(w := ?w (N w))) w (forward_block req) N' x" "w_term req = 0" "w_block_id req = ''b''"
      "w_data req = ''hi''" "w_checksum req = 2" "known_term (N w) = 0" for N N' x w what and req :: "('x) ReplicateBlockRequest_scheme"
    using that unfolding store_block_def fence_def
    by (intro pipeline.read_own) (simp add: crc pipeline_written)
  have next_server: "pipeline example_crc ?N1 ?v (replicate_block example_crc ?req) ?N2 (Inr ?one)"
    unfolding replicate_block_def by (rule store) (simp_all add: forward_block_def server)
  have "pipeline example_crc ?N1 ?u (Call ?v (ReplicateBlock ?req) (\<lambda>r. Ret (Inr \<lparr>w_success = True, w_error = [],
      replicas_written = (case r of Some (ReplicateReply resp) \<Rightarrow> if w_success resp then i32_add 1 (replicas_written resp) else 1
        | _ \<Rightarrow> 1)\<rparr>))) ?N2 (Inr ?two)"
    by (rule pipeline.forwarded [OF next_server]) (simp add: i32_add_def)
  then have "pipeline example_crc ?N1 ?u (forward_block example_write) ?N2 (Inr ?two)"
    unfolding forward_block_def example_write_def
    by (simp only: ReplicateBlockRequest.select_convs list.case, intro pipeline.read_own) (simp only: server url fun_upd_same ca_put_file)
  then have p: "pipeline example_crc ?N ?u (write_block example_crc example_write) ?N2 (Inr ?two)"
    unfolding write_block_def by (rule store) (simp_all add: server example_write_def)
  have us: "urls None ?u (w_next_servers example_write) = [?u, ?v]" by (simp add: urls_def example_write_def url)
  have fields: "w_block_id example_write = ''b''" "w_data example_write = ''hi''" "length (w_next_servers example_write) < 2 ^ 31 - 1"
    by (simp_all add: example_write_def)
  have "distinct (urls None ?u (w_next_servers example_write))"
      "\<forall>v \<in> set (urls None ?u (w_next_servers example_write)). cs_ca_cert (?N v) = None"
    by (simp_all add: us server)
  from write_counts_replicas [OF p _ this fields(3), THEN conjunct1, unfolded us fields] obtain S where
      S: "S \<subseteq> set [?u, ?v]" "2 = int (card S)" "\<forall>v \<in> S. holds example_crc ''b'' ''hi'' (?N2 v)"
    by (simp only: WriteBlockResponse.select_convs) blast
  moreover from S(2) have "card S = 2" by linarith
  moreover from S(1) have "S \<subseteq> {?u, ?v}" by (simp only: list.set)
  ultimately have "S \<subseteq> {?u, ?v} \<and> card S = 2 \<and> (\<forall>v \<in> S. holds example_crc ''b'' ''hi'' (?N2 v))" by blast
  with p show ?thesis by blast
qed

end
