(* ===== verification/Spec2Isabelle.thy ===== *)
theory Spec2Isabelle
  imports RaftCluster RaftCommit Placement Workload RenameRuns Resharding Pipeline
begin

text \<open>
  A verification development for the metadata plane of a distributed file system written in Rust
  (\<open>src/dfs\<close>): the Raft-replicated masters and config servers, the map of paths to shards, and the
  replicated state machines behind the log.

  \<^item> \<open>Prelude\<close>: hash maps, ordered maps and sets as lists, machine integers, shared lemmas.
  \<^item> \<open>ShardMap\<close>: \<open>common/src/sharding.rs\<close>.
  \<^item> \<open>RaftConfig\<close>, \<open>AppState\<close>, \<open>RaftNode\<close>: \<open>metaserver/src/simple_raft.rs\<close>.
  \<^item> \<open>MasterState\<close>, \<open>ConfigState\<close>: the state machines of masters and config servers.
  \<^item> \<open>RaftFrame\<close>, \<open>RaftVote\<close>, \<open>RaftCluster\<close>: what each handler leaves alone, what it does to
    the election state of a node, and what follows for a group of nodes.
\<close>

end
